(* ===== verification/Prelude.thy ===== *)
theory Prelude
  imports Main "HOL-Library.Word" "HOL-Library.AList" "HOL-Library.Char_ord"
    "HOL-Library.List_Lexorder" "HOL-Library.Product_Lexorder"
begin

text \<open>
  The vocabulary the other theories share: the outcome of a Rust call (a value, an \<open>Err\<close>, or
  a panic), handlers as actions on an explicit state, the standard library's channels, hash
  maps and hash sets, string splitting, and the rules by which invariants pass through
  composed handlers.

  A hash map is the list of its entries in iteration order and a hash set the list of its
  elements in iteration order: Rust leaves that order open, and every lemma about an iteration
  is proved for an arbitrary list.
\<close>

section \<open>Machine types\<close>

type_synonym usize = "64 word"
type_synonym u64 = "64 word"
type_synonym u8 = "8 word"
type_synonym bytes = "u8 list"

section \<open>Outcomes and actions\<close>

datatype ('e, 'a) result = Ok 'a | Err 'e | Panic string

type_synonym ('s, 'e, 'a) act = "'s \<Rightarrow> ('e, 'a) result \<times> 's"

fun is_panic :: "('e, 'a) result \<Rightarrow> bool" where
  "is_panic (Panic m) = True"
| "is_panic (Ok a) = False"
| "is_panic (Err e) = False"

fun is_ok :: "('e, 'a) result \<Rightarrow> bool" where
  "is_ok (Ok a) = True"
| "is_ok (Err e) = False"
| "is_ok (Panic m) = False"

definition ret :: "'a \<Rightarrow> ('s, 'e, 'a) act" where
  "ret a = (\<lambda>s. (Ok a, s))"

definition fail :: "'e \<Rightarrow> ('s, 'e, 'a) act" where
  "fail e = (\<lambda>s. (Err e, s))"

definition panic :: "string \<Rightarrow> ('s, 'e, 'a) act" where
  "panic m = (\<lambda>s. (Panic m, s))"

definition bindM :: "('s, 'e, 'a) act \<Rightarrow> ('a \<Rightarrow> ('s, 'e, 'b) act) \<Rightarrow> ('s, 'e, 'b) act" where
  "bindM m f = (\<lambda>s. case m s of
       (Ok a, s') \<Rightarrow> f a s'
     | (Err e, s') \<Rightarrow> (Err e, s')
     | (Panic p, s') \<Rightarrow> (Panic p, s'))"

definition seqM :: "('s, 'e, 'a) act \<Rightarrow> ('s, 'e, 'b) act \<Rightarrow> ('s, 'e, 'b) act" where
  "seqM m k = bindM m (\<lambda>_. k)"

text \<open>\<open>if let Err(e) = m { h(e) }\<close>: an error is handled, a panic is not.\<close>

definition catchM :: "('s, 'e, 'a) act \<Rightarrow> ('e \<Rightarrow> ('s, 'f, 'a) act) \<Rightarrow> ('s, 'f, 'a) act" where
  "catchM m h = (\<lambda>s. case m s of
       (Ok a, s') \<Rightarrow> (Ok a, s')
     | (Err e, s') \<Rightarrow> h e s'
     | (Panic p, s') \<Rightarrow> (Panic p, s'))"

definition modM :: "('s \<Rightarrow> 's) \<Rightarrow> ('s, 'e, unit) act" where
  "modM f = (\<lambda>s. (Ok (), f s))"

definition withM :: "('s \<Rightarrow> ('s, 'e, 'a) act) \<Rightarrow> ('s, 'e, 'a) act" where
  "withM f = (\<lambda>s. f s s)"

fun forM :: "'x list \<Rightarrow> ('x \<Rightarrow> ('s, 'e, unit) act) \<Rightarrow> ('s, 'e, unit) act" where
  "forM [] f = ret ()"
| "forM (x # xs) f = seqM (f x) (forM xs f)"

text \<open>A loop that goes on after an error and collects the errors.\<close>

fun collectM :: "'x list \<Rightarrow> ('x \<Rightarrow> ('s, 'e, unit) act) \<Rightarrow> ('s, 'f, 'e list) act" where
  "collectM [] f = ret []"
| "collectM (x # xs) f =
     bindM (catchM (seqM (f x) (ret [])) (\<lambda>e. ret [e]))
       (\<lambda>es. bindM (collectM xs f) (\<lambda>es'. ret (es @ es')))"

lemmas act_defs = ret_def fail_def panic_def bindM_def seqM_def catchM_def modM_def withM_def

section \<open>Assertions about actions\<close>

text \<open>
  \<open>triple P m Q\<close>: from a state that satisfies \<open>P\<close>, the outcome and the final state of \<open>m\<close>
  satisfy \<open>Q\<close>. \<open>safe P m\<close>: \<open>m\<close> keeps \<open>P\<close>, on success and on error alike, and does not panic.
  \<open>keeps P m\<close>: \<open>m\<close> keeps \<open>P\<close> whatever its outcome.
\<close>

definition triple :: "('s \<Rightarrow> bool) \<Rightarrow> ('s, 'e, 'a) act \<Rightarrow> (('e, 'a) result \<Rightarrow> 's \<Rightarrow> bool) \<Rightarrow> bool" where
  "triple P m Q \<longleftrightarrow> (\<forall>s. P s \<longrightarrow> Q (fst (m s)) (snd (m s)))"

definition safe :: "('s \<Rightarrow> bool) \<Rightarrow> ('s, 'e, 'a) act \<Rightarrow> bool" where
  "safe P m \<longleftrightarrow> triple P m (\<lambda>r s. P s \<and> \<not> is_panic r)"

definition keeps :: "('s \<Rightarrow> bool) \<Rightarrow> ('s, 'e, 'a) act \<Rightarrow> bool" where
  "keeps P m \<longleftrightarrow> triple P m (\<lambda>r s. P s)"

named_theorems safe_rules "actions that keep an invariant and do not panic"
named_theorems keeps_rules "actions that keep an invariant"

lemma tripleI: "(\<And>s. P s \<Longrightarrow> Q (fst (m s)) (snd (m s))) \<Longrightarrow> triple P m Q"
  by (simp add: triple_def)

lemma tripleD: "triple P m Q \<Longrightarrow> P s \<Longrightarrow> m s = (r, s') \<Longrightarrow> Q r s'"
  by (force simp: triple_def)

lemma triple_weaken:
  "triple P m Q \<Longrightarrow> (\<And>s. P' s \<Longrightarrow> P s) \<Longrightarrow> (\<And>r s. Q r s \<Longrightarrow> Q' r s) \<Longrightarrow> triple P' m Q'"
  by (simp add: triple_def)

lemma triple_bind:
  assumes "triple P m R" and "\<And>a. triple (R (Ok a)) (f a) Q"
    and "\<And>e s. R (Err e) s \<Longrightarrow> Q (Err e) s" and "\<And>p s. R (Panic p) s \<Longrightarrow> Q (Panic p) s"
  shows "triple P (bindM m f) Q"
  using assms unfolding triple_def bindM_def
  by (fastforce split: prod.splits result.splits)

lemma safeI: "(\<And>s. P s \<Longrightarrow> P (snd (m s)) \<and> \<not> is_panic (fst (m s))) \<Longrightarrow> safe P m"
  by (simp add: safe_def triple_def)

lemma safeD: "safe P m \<Longrightarrow> P s \<Longrightarrow> m s = (r, s') \<Longrightarrow> P s' \<and> \<not> is_panic r"
  by (force simp: safe_def triple_def)

lemma safe_at: "safe P m \<Longrightarrow> P s \<Longrightarrow> P (snd (m s)) \<and> \<not> is_panic (fst (m s))"
  by (simp add: safe_def triple_def)

lemma keepsI: "(\<And>s. P s \<Longrightarrow> P (snd (m s))) \<Longrightarrow> keeps P m"
  by (simp add: keeps_def triple_def)

lemma keepsD: "keeps P m \<Longrightarrow> P s \<Longrightarrow> m s = (r, s') \<Longrightarrow> P s'"
  by (force simp: keeps_def triple_def)

lemma safe_keeps: "safe P m \<Longrightarrow> keeps P m"
  by (simp add: safe_def keeps_def triple_def)

lemma safe_ret [safe_rules]: "safe P (ret a)"
  by (simp add: safe_def triple_def ret_def)

lemma safe_fail [safe_rules]: "safe P (fail e)"
  by (simp add: safe_def triple_def fail_def)

lemma safe_bind [safe_rules]: "safe P m \<Longrightarrow> (\<And>a. safe P (f a)) \<Longrightarrow> safe P (bindM m f)"
  unfolding safe_def triple_def bindM_def
  by (fastforce split: prod.splits result.splits)

lemma safe_seq [safe_rules]: "safe P m \<Longrightarrow> safe P k \<Longrightarrow> safe P (seqM m k)"
  by (simp add: seqM_def safe_bind)

lemma safe_catch [safe_rules]: "safe P m \<Longrightarrow> (\<And>e. safe P (h e)) \<Longrightarrow> safe P (catchM m h)"
  unfolding safe_def triple_def catchM_def
  by (fastforce split: prod.splits result.splits)

lemma safe_mod: "(\<And>s. P s \<Longrightarrow> P (f s)) \<Longrightarrow> safe P (modM f)"
  by (simp add: safe_def triple_def modM_def)

lemma safe_with [safe_rules]: "(\<And>s. P s \<Longrightarrow> safe P (f s)) \<Longrightarrow> safe P (withM f)"
  by (simp add: safe_def triple_def withM_def)

lemma safe_for [safe_rules]: "(\<And>x. x \<in> set xs \<Longrightarrow> safe P (f x)) \<Longrightarrow> safe P (forM xs f)"
  by (induction xs) (auto intro: safe_rules)

lemma safe_collect [safe_rules]:
  "(\<And>x. x \<in> set xs \<Longrightarrow> safe P (f x)) \<Longrightarrow> safe P (collectM xs f)"
  by (induction xs) (auto intro!: safe_ret safe_bind safe_catch safe_seq)

lemma keeps_ret [keeps_rules]: "keeps P (ret a)"
  by (simp add: keeps_def triple_def ret_def)

lemma keeps_fail [keeps_rules]: "keeps P (fail e)"
  by (simp add: keeps_def triple_def fail_def)

lemma keeps_panic [keeps_rules]: "keeps P (panic e)"
  by (simp add: keeps_def triple_def panic_def)

lemma keeps_bind [keeps_rules]: "keeps P m \<Longrightarrow> (\<And>a. keeps P (f a)) \<Longrightarrow> keeps P (bindM m f)"
  unfolding keeps_def triple_def bindM_def
  by (fastforce split: prod.splits result.splits)

lemma keeps_seq [keeps_rules]: "keeps P m \<Longrightarrow> keeps P k \<Longrightarrow> keeps P (seqM m k)"
  by (simp add: seqM_def keeps_bind)

lemma keeps_catch [keeps_rules]: "keeps P m \<Longrightarrow> (\<And>e. keeps P (h e)) \<Longrightarrow> keeps P (catchM m h)"
  unfolding keeps_def triple_def catchM_def
  by (fastforce split: prod.splits result.splits)

lemma keeps_mod: "(\<And>s. P s \<Longrightarrow> P (f s)) \<Longrightarrow> keeps P (modM f)"
  by (simp add: keeps_def triple_def modM_def)

lemma keeps_with [keeps_rules]: "(\<And>s. P s \<Longrightarrow> keeps P (f s)) \<Longrightarrow> keeps P (withM f)"
  by (simp add: keeps_def triple_def withM_def)

lemma keeps_for [keeps_rules]: "(\<And>x. x \<in> set xs \<Longrightarrow> keeps P (f x)) \<Longrightarrow> keeps P (forM xs f)"
  by (induction xs) (auto intro: keeps_rules)

lemma keeps_collect [keeps_rules]:
  "(\<And>x. x \<in> set xs \<Longrightarrow> keeps P (f x)) \<Longrightarrow> keeps P (collectM xs f)"
  by (induction xs) (auto intro!: keeps_ret keeps_bind keeps_catch keeps_seq)

section \<open>Bounded recursion\<close>

text \<open>
  \<open>approx m m'\<close>: \<open>m\<close> does what \<open>m'\<close> does, unless it runs out of stack. A recursion bounded by
  the depth of the stack approximates the same recursion with more room.
\<close>

definition approx :: "('s, 'e, 'a) act \<Rightarrow> ('s, 'e, 'a) act \<Rightarrow> bool" where
  "approx m m' \<longleftrightarrow> (\<forall>s. fst (m s) = Panic ''stack overflow'' \<or> m s = m' s)"

named_theorems approx_rules "actions built from approximated calls"

lemma approxD: "approx m m' \<Longrightarrow> fst (m s) \<noteq> Panic ''stack overflow'' \<Longrightarrow> m' s = m s"
  by (auto simp: approx_def)

lemma approx_refl [approx_rules]: "approx m m"
  by (simp add: approx_def)

lemma approx_overflow [approx_rules]: "approx (panic ''stack overflow'') m"
  by (simp add: approx_def panic_def)

lemma approx_bind [approx_rules]:
  assumes "approx m m'" and "\<And>a. approx (f a) (f' a)"
  shows "approx (bindM m f) (bindM m' f')"
  unfolding approx_def
proof
  fix s
  have "fst (m s) = Panic ''stack overflow'' \<or> m s = m' s"
    using assms(1) by (simp add: approx_def)
  then show "fst (bindM m f s) = Panic ''stack overflow'' \<or> bindM m f s = bindM m' f' s"
  proof
    assume "fst (m s) = Panic ''stack overflow''"
    then show ?thesis by (cases "m s") (simp add: bindM_def)
  next
    assume "m s = m' s"
    then show ?thesis
      using assms(2) by (auto simp: bindM_def approx_def split: prod.splits result.splits)
  qed
qed

lemma approx_seq [approx_rules]: "approx m m' \<Longrightarrow> approx k k' \<Longrightarrow> approx (seqM m k) (seqM m' k')"
  by (simp add: seqM_def approx_bind)

lemma approx_catch [approx_rules]:
  assumes "approx m m'"
  shows "approx (catchM m h) (catchM m' h)"
  unfolding approx_def
proof
  fix s
  have "fst (m s) = Panic ''stack overflow'' \<or> m s = m' s"
    using assms by (simp add: approx_def)
  then show "fst (catchM m h s) = Panic ''stack overflow'' \<or> catchM m h s = catchM m' h s"
  proof
    assume "fst (m s) = Panic ''stack overflow''"
    then show ?thesis by (cases "m s") (simp add: catchM_def)
  next
    assume "m s = m' s"
    then show ?thesis by (simp add: catchM_def)
  qed
qed

lemma approx_with [approx_rules]: "(\<And>s. approx (f s) (f' s)) \<Longrightarrow> approx (withM f) (withM f')"
  by (simp add: approx_def withM_def)

lemma approx_for [approx_rules]: "(\<And>x. approx (f x) (f' x)) \<Longrightarrow> approx (forM xs f) (forM xs f')"
  by (induction xs) (auto intro: approx_rules)

section \<open>Message loops\<close>

text \<open>
  The threads of the system are loops that take one message after another from a channel until
  a handler tells them to stop. \<open>run_loop\<close> gives the state after a list of messages and
  whether the loop is still running. A locale states what such a loop keeps, and what is so when
  it panics.
\<close>

datatype loop_status = Running | Stopped | Crashed string

fun run_loop :: "('m \<Rightarrow> 's \<Rightarrow> loop_status \<times> 's) \<Rightarrow> 'm list \<Rightarrow> 's \<Rightarrow> loop_status \<times> 's" where
  "run_loop h [] s = (Running, s)"
| "run_loop h (m # ms) s =
     (case h m s of
        (Running, s') \<Rightarrow> run_loop h ms s'
      | (st, s') \<Rightarrow> (st, s'))"

lemma run_loop_append:
  "run_loop h (ms @ ns) s =
     (case run_loop h ms s of (Running, s') \<Rightarrow> run_loop h ns s' | (st, s') \<Rightarrow> (st, s'))"
  by (induction ms arbitrary: s) (auto split: prod.splits loop_status.splits)

locale loop_contract =
  fixes handle :: "'m \<Rightarrow> 's \<Rightarrow> loop_status \<times> 's"
    and accepted :: "'m \<Rightarrow> 's \<Rightarrow> bool"
    and inv :: "'s \<Rightarrow> bool"
    and stops :: "string \<Rightarrow> 's \<Rightarrow> bool"
  assumes handled: "inv s \<Longrightarrow> accepted m s \<Longrightarrow> handle m s = (st, s') \<Longrightarrow>
    (case st of Crashed p \<Rightarrow> stops p s' | _ \<Rightarrow> inv s')"
begin

text \<open>A run all of whose messages are accepted in the state they meet.\<close>

fun accepted_run :: "'m list \<Rightarrow> 's \<Rightarrow> bool" where
  "accepted_run [] s = True"
| "accepted_run (m # ms) s =
     (accepted m s \<and> (case handle m s of (Running, s') \<Rightarrow> accepted_run ms s' | _ \<Rightarrow> True))"

lemma loop_outcome:
  "inv s \<Longrightarrow> accepted_run ms s \<Longrightarrow> run_loop handle ms s = (st, s') \<Longrightarrow>
   (case st of Crashed p \<Rightarrow> stops p s' | _ \<Rightarrow> inv s')"
proof (induction ms arbitrary: s)
  case Nil
  then show ?case by auto
next
  case (Cons m ms)
  obtain st1 s1 where h: "handle m s = (st1, s1)" by (cases "handle m s") auto
  with Cons.prems handled [OF Cons.prems(1) _ h] Cons.IH [of s1] show ?case by (cases st1) auto
qed

end

text \<open>A loop that never panics.\<close>

locale message_loop = loop_contract handle accepted inv "\<lambda>p s. False"
  for handle :: "'m \<Rightarrow> 's \<Rightarrow> loop_status \<times> 's"
    and accepted :: "'m \<Rightarrow> 's \<Rightarrow> bool"
    and inv :: "'s \<Rightarrow> bool"
begin

lemma loop_inv:
  "inv s \<Longrightarrow> accepted_run ms s \<Longrightarrow> run_loop handle ms s = (st, s') \<Longrightarrow> inv s'"
  using loop_outcome [of s ms st s'] by (cases st) auto

lemma loop_no_crash:
  "inv s \<Longrightarrow> accepted_run ms s \<Longrightarrow> run_loop handle ms s = (st, s') \<Longrightarrow> st \<noteq> Crashed p"
  using loop_outcome [of s ms st s'] by auto

end

section \<open>Channels of the standard library\<close>

text \<open>
  The sending half of \<open>std::sync::mpsc\<close>: a send succeeds while the receiver is alive and
  appends the message, otherwise it returns the message to the caller.
\<close>

record 'm chan =
  sent :: "'m list"
  rx_alive :: bool

definition chan_send :: "'m \<Rightarrow> 'm chan \<Rightarrow> bool \<times> 'm chan" where
  "chan_send m ch = (if rx_alive ch then (True, ch\<lparr>sent := sent ch @ [m]\<rparr>) else (False, ch))"

lemma chan_send_alive [simp]: "rx_alive (snd (chan_send m ch)) = rx_alive ch"
  by (simp add: chan_send_def)

lemma chan_send_ok [simp]: "fst (chan_send m ch) = rx_alive ch"
  by (simp add: chan_send_def)

section \<open>Hash maps and hash sets\<close>

type_synonym ('k, 'v) hmap = "('k \<times> 'v) list"

abbreviation hm_get :: "('k, 'v) hmap \<Rightarrow> 'k \<Rightarrow> 'v option" where
  "hm_get \<equiv> map_of"

definition hm_insert :: "'k \<Rightarrow> 'v \<Rightarrow> ('k, 'v) hmap \<Rightarrow> ('k, 'v) hmap" where
  "hm_insert = AList.update"

definition hm_remove :: "'k \<Rightarrow> ('k, 'v) hmap \<Rightarrow> ('k, 'v) hmap" where
  "hm_remove = AList.delete"

definition hm_keys :: "('k, 'v) hmap \<Rightarrow> 'k list" where
  "hm_keys m = map fst m"

definition hm_ok :: "('k, 'v) hmap \<Rightarrow> bool" where
  "hm_ok m \<longleftrightarrow> distinct (map fst m)"

lemma hm_ok_Nil [simp]: "hm_ok []"
  by (simp add: hm_ok_def)

lemma hm_get_insert [simp]: "hm_get (hm_insert k v m) = (hm_get m)(k \<mapsto> v)"
  by (simp add: hm_insert_def update_conv')

lemma hm_get_remove [simp]: "hm_get (hm_remove k m) = (hm_get m)(k := None)"
  by (simp add: hm_remove_def delete_conv')

lemma hm_ok_insert [simp]: "hm_ok m \<Longrightarrow> hm_ok (hm_insert k v m)"
  by (simp add: hm_ok_def hm_insert_def distinct_update)

lemma hm_ok_remove [simp]: "hm_ok m \<Longrightarrow> hm_ok (hm_remove k m)"
  by (simp add: hm_ok_def hm_remove_def distinct_delete)

lemma hm_keys_dom: "set (hm_keys m) = dom (hm_get m)"
  by (simp add: hm_keys_def dom_map_of_conv_image_fst)

lemma hm_ok_card: "hm_ok m \<Longrightarrow> length m = card (dom (hm_get m))"
  by (metis dom_map_of_conv_image_fst distinct_card hm_ok_def length_map list.set_map)

lemma hm_get_entry: "hm_ok m \<Longrightarrow> (k, v) \<in> set m \<Longrightarrow> hm_get m k = Some v"
  by (simp add: hm_ok_def)

lemma hm_ok_Cons: "hm_ok ((k, v) # m) \<longleftrightarrow> hm_ok m \<and> hm_get m k = None"
  by (auto simp: hm_ok_def map_of_eq_None_iff)

definition hs_insert :: "'a \<Rightarrow> 'a list \<Rightarrow> 'a list" where
  "hs_insert x xs = (if x \<in> set xs then xs else xs @ [x])"

definition hs_remove :: "'a \<Rightarrow> 'a list \<Rightarrow> 'a list" where
  "hs_remove = removeAll"

definition hs_collect :: "'a list \<Rightarrow> 'a list" where
  "hs_collect = remdups"

definition hs_difference :: "'a list \<Rightarrow> 'a list \<Rightarrow> 'a list" where
  "hs_difference xs ys = filter (\<lambda>x. x \<notin> set ys) xs"

lemma set_hs_insert [simp]: "set (hs_insert x xs) = insert x (set xs)"
  by (auto simp: hs_insert_def)

lemma set_hs_remove [simp]: "set (hs_remove x xs) = set xs - {x}"
  by (simp add: hs_remove_def)

lemma set_hs_collect [simp]: "set (hs_collect xs) = set xs"
  by (simp add: hs_collect_def)

lemma set_hs_difference [simp]: "set (hs_difference xs ys) = set xs - set ys"
  by (auto simp: hs_difference_def)

lemma distinct_hs_insert [simp]: "distinct xs \<Longrightarrow> distinct (hs_insert x xs)"
  by (simp add: hs_insert_def)

lemma distinct_hs_remove [simp]: "distinct xs \<Longrightarrow> distinct (hs_remove x xs)"
  by (simp add: hs_remove_def distinct_removeAll)

lemma distinct_hs_collect [simp]: "distinct (hs_collect xs)"
  by (simp add: hs_collect_def)

section \<open>Splitting strings\<close>

text \<open>
  \<open>str::split\<close> with a string pattern: the parts between the non-overlapping occurrences of the
  pattern, found from the left. Strings are their UTF-8 bytes, and the patterns the code uses
  are ASCII, so a split of the bytes is the split of the text.
\<close>

fun strip_prefix :: "string \<Rightarrow> string \<Rightarrow> string option" where
  "strip_prefix [] s = Some s"
| "strip_prefix (p # ps) [] = None"
| "strip_prefix (p # ps) (c # s) = (if p = c then strip_prefix ps s else None)"

lemma strip_prefix_Some: "strip_prefix p s = Some r \<longleftrightarrow> s = p @ r"
  by (induction p s rule: strip_prefix.induct) auto

lemma strip_prefix_append [simp]: "strip_prefix p (p @ r) = Some r"
  by (simp add: strip_prefix_Some)

function split_on :: "string \<Rightarrow> string \<Rightarrow> string list" where
  "split_on p [] = [[]]"
| "split_on p (c # s) =
     (case strip_prefix p (c # s) of
        Some r \<Rightarrow> if p = [] then [c # s] else [] # split_on p r
      | None \<Rightarrow> (case split_on p s of [] \<Rightarrow> [] | x # xs \<Rightarrow> (c # x) # xs))"
  by pat_completeness auto
termination
  by (relation "measure (\<lambda>(p, s). length s)")
     (auto simp: strip_prefix_Some dest!: arg_cong [of "_ # _" _ length])

fun join_with :: "string \<Rightarrow> string list \<Rightarrow> string" where
  "join_with p [] = []"
| "join_with p [x] = x"
| "join_with p (x # y # ys) = x @ p @ join_with p (y # ys)"

lemma split_on_ne: "split_on p s \<noteq> []"
  by (induction p s rule: split_on.induct) (auto split: option.splits list.splits)

lemma join_with_Cons: "xs \<noteq> [] \<Longrightarrow> join_with p (x # xs) = x @ p @ join_with p xs"
  by (cases xs) auto

lemma join_with_push: "join_with p ((c # x) # xs) = c # join_with p (x # xs)"
  by (cases xs) auto

text \<open>A text in single quotes, as the messages of the code have them.\<close>

definition quoted :: "string \<Rightarrow> string" where
  "quoted s = CHR 0x27 # s @ [CHR 0x27]"

text \<open>Joining the parts of a split gives the string back.\<close>

lemma join_split: "join_with p (split_on p s) = s"
proof (induction p s rule: split_on.induct)
  case (1 p)
  then show ?case by simp
next
  case (2 p c s)
  show ?case
  proof (cases "strip_prefix p (c # s)")
    case None
    obtain x xs where sp: "split_on p s = x # xs"
      using split_on_ne [of p s] by (cases "split_on p s") auto
    with "2.IH"(1) [OF None] None show ?thesis by (simp add: join_with_push)
  next
    case (Some r)
    show ?thesis
    proof (cases "p = []")
      case True
      then have "split_on p (c # s) = [c # s]" by simp
      then show ?thesis by (simp only: join_with.simps)
    next
      case False
      with Some have "split_on p (c # s) = [] # split_on p r" by simp
      moreover have "p @ r = c # s" using Some by (simp only: strip_prefix_Some)
      ultimately show ?thesis
        using "2.IH"(2) [OF Some False] by (simp only: join_with_Cons split_on_ne not_False_eq_True append_Nil)
    qed
  qed
qed

text \<open>
  A part that does not let the pattern start inside it: cut off in front of the pattern, it is
  the first part of the split.
\<close>

fun starts_in :: "string \<Rightarrow> string \<Rightarrow> string \<Rightarrow> bool" where
  "starts_in p [] rest = False"
| "starts_in p (c # x) rest = (strip_prefix p (c # x @ rest) \<noteq> None \<or> starts_in p x rest)"


lemma split_on_first:
  "p \<noteq> [] \<Longrightarrow> \<not> starts_in p x (p @ s) \<Longrightarrow> split_on p (x @ p @ s) = x # split_on p s"
proof (induction x)
  case Nil
  then obtain q ps where p: "p = q # ps" by (cases p) auto
  have "strip_prefix p (q # ps @ s) = Some s" using p strip_prefix_append [of p s] by simp
  with p show ?case by simp
next
  case (Cons c x)
  then have "strip_prefix p (c # x @ p @ s) = None" and "\<not> starts_in p x (p @ s)"
    by simp_all
  with Cons show ?case by simp
qed

lemma split_on_last: "\<not> starts_in p x [] \<Longrightarrow> split_on p x = [x]"
  by (induction x) auto

text \<open>Conversely, the parts a split returns do not contain a start of the pattern.\<close>

lemma split_on_head:
  "p \<noteq> [] \<Longrightarrow> split_on p s = x # xs \<Longrightarrow>
   \<not> starts_in p x (if xs = [] then [] else p @ join_with p xs)"
proof (induction p s arbitrary: x xs rule: split_on.induct)
  case (1 p)
  then show ?case by simp
next
  case (2 p c s)
  show ?case
  proof (cases "strip_prefix p (c # s)")
    case None
    obtain y ys where sp: "split_on p s = y # ys"
      using split_on_ne [of p s] by (cases "split_on p s") auto
    let ?rest = "if ys = [] then [] else p @ join_with p ys"
    have "y @ ?rest = s"
      using join_split [of p s] sp by (cases ys) (auto simp: join_with_Cons)
    moreover have "\<not> starts_in p y ?rest"
      using "2.IH"(1) [OF None "2.prems"(1) sp] .
    ultimately have "\<not> starts_in p (c # y) ?rest"
      using None by (simp only: starts_in.simps append_Cons simp_thms)
    with "2.prems" None sp show ?thesis by auto
  next
    case (Some r)
    with "2.prems" have "x = []" by simp
    then show ?thesis by simp
  qed
qed

lemma split_on_tail:
  "p \<noteq> [] \<Longrightarrow> split_on p s = x # y # ys \<Longrightarrow> split_on p (join_with p (y # ys)) = y # ys"
proof (induction p s arbitrary: x rule: split_on.induct)
  case (1 p)
  then show ?case by simp
next
  case (2 p c s)
  show ?case
  proof (cases "strip_prefix p (c # s)")
    case None
    obtain z zs where sp: "split_on p s = z # zs"
      using split_on_ne [of p s] by (cases "split_on p s") auto
    with "2.prems" None have "zs = y # ys" by simp
    with sp show ?thesis using "2.IH"(1) [OF None "2.prems"(1)] by simp
  next
    case (Some r)
    with "2.prems" have "split_on p r = y # ys" by simp
    then show ?thesis by (metis join_split)
  qed
qed

end
