(* ===== verification/Ids.thy ===== *)
theory Ids
  imports Prelude
begin

text \<open>
  The identifiers of \<open>src/node_id.rs\<close>, \<open>src/pid.rs\<close> and \<open>src/correlation_id.rs\<close>: their
  fields, the derived order of node ids, their text form and its parser. A locale states the
  contract between a text form and its parser; both identifiers are instances.
\<close>

section \<open>Node ids\<close>

record node_id =
  name :: string
  addr :: string

text \<open>The derived \<open>Ord\<close>: fields in declaration order, strings by their bytes.\<close>

instantiation node_id_ext :: (linorder) linorder
begin

definition less_eq_node_id_ext :: "'a node_id_ext \<Rightarrow> 'a node_id_ext \<Rightarrow> bool" where
  "less_eq_node_id_ext m n \<longleftrightarrow>
     (name m, addr m, node_id.more m) \<le> (name n, addr n, node_id.more n)"

definition less_node_id_ext :: "'a node_id_ext \<Rightarrow> 'a node_id_ext \<Rightarrow> bool" where
  "less_node_id_ext m n \<longleftrightarrow>
     (name m, addr m, node_id.more m) < (name n, addr n, node_id.more n)"

instance
  by standard
     (auto simp: less_eq_node_id_ext_def less_node_id_ext_def intro: node_id.equality)

end

definition node_id_to_string :: "node_id \<Rightarrow> string" where
  "node_id_to_string n = name n @ ''@'' @ addr n"

definition node_id_from_str :: "string \<Rightarrow> (string, node_id) result" where
  "node_id_from_str s =
     (let v = split_on ''@'' s in
      if length v \<noteq> 2 then Err (''Invalid NodeId format - Must be of form '' @ quoted ''name@addr'')
      else Ok \<lparr>name = v ! 0, addr = v ! 1\<rparr>)"

section \<open>Process ids\<close>

record pid =
  group :: "string option"
  pname :: string
  node :: node_id

definition pid_to_string :: "pid \<Rightarrow> string" where
  "pid_to_string p =
     (case group p of
        None \<Rightarrow> pname p @ ''::'' @ node_id_to_string (node p)
      | Some g \<Rightarrow> g @ ''::'' @ pname p @ ''::'' @ node_id_to_string (node p))"

definition pid_from_str :: "string \<Rightarrow> (string, pid) result" where
  "pid_from_str s =
     (let v = split_on ''::'' s in
      if length v = 2 then
        (case node_id_from_str (v ! 1) of
           Ok n \<Rightarrow> Ok \<lparr>group = None, pname = v ! 0, node = n\<rparr>
         | Err e \<Rightarrow> Err e
         | Panic m \<Rightarrow> Panic m)
      else if length v = 3 then
        (case node_id_from_str (v ! 2) of
           Ok n \<Rightarrow> Ok \<lparr>group = Some (v ! 0), pname = v ! 1, node = n\<rparr>
         | Err e \<Rightarrow> Err e
         | Panic m \<Rightarrow> Panic m)
      else Err (''Invalid Pid format - Must be of form '' @ quoted ''name::node'' @ '' or ''
        @ quoted ''group::name::node''))"

section \<open>Correlation ids\<close>

record correlation_id =
  cid_pid :: pid
  connection :: "u64 option"
  request :: "u64 option"

definition cid_of_pid :: "pid \<Rightarrow> correlation_id" where
  "cid_of_pid p = \<lparr>cid_pid = p, connection = None, request = None\<rparr>"

definition cid_of_connection :: "pid \<Rightarrow> u64 \<Rightarrow> correlation_id" where
  "cid_of_connection p c = \<lparr>cid_pid = p, connection = Some c, request = None\<rparr>"

definition cid_of_request :: "pid \<Rightarrow> u64 \<Rightarrow> u64 \<Rightarrow> correlation_id" where
  "cid_of_request p c r = \<lparr>cid_pid = p, connection = Some c, request = Some r\<rparr>"

text \<open>\<open>req + 1\<close> on \<open>u64\<close>; it wraps in a release build.\<close>

definition next_request :: "correlation_id \<Rightarrow> correlation_id" where
  "next_request c = c\<lparr>request := map_option (\<lambda>req. req + 1) (request c)\<rparr>"

section \<open>Text forms\<close>

locale text_codec =
  fixes to_string :: "'a \<Rightarrow> string"
    and from_str :: "string \<Rightarrow> (string, 'a) result"
    and printable :: "'a \<Rightarrow> bool"
  assumes parse_printed: "printable x \<Longrightarrow> from_str (to_string x) = Ok x"
    and print_parsed: "from_str s = Ok x \<Longrightarrow> to_string x = s"
    and parsed_printable: "from_str s = Ok x \<Longrightarrow> printable x"
begin

lemma round_trip_iff: "from_str (to_string x) = Ok x \<longleftrightarrow> printable x"
  using parse_printed parsed_printable by blast

lemma print_inj: "printable x \<Longrightarrow> printable y \<Longrightarrow> to_string x = to_string y \<Longrightarrow> x = y"
  by (metis parse_printed result.inject(1))

lemma parse_inj: "from_str s = Ok x \<Longrightarrow> from_str t = Ok x \<Longrightarrow> s = t"
  by (metis print_parsed)

lemma parse_iff: "from_str s = Ok x \<longleftrightarrow> s = to_string x \<and> printable x"
  using parse_printed print_parsed parsed_printable by blast

lemma parse_range: "(\<exists>s. from_str s = Ok x) \<longleftrightarrow> printable x"
  using parse_printed parsed_printable by blast

end

text \<open>A node id survives printing and parsing when neither field has an \<open>@\<close>.\<close>

definition node_id_printable :: "node_id \<Rightarrow> bool" where
  "node_id_printable n \<longleftrightarrow> CHR ''@'' \<notin> set (name n) \<and> CHR ''@'' \<notin> set (addr n)"

lemma strip_prefix_single: "strip_prefix [q] (c # s) = (if q = c then Some s else None)"
  by simp

lemma starts_in_single: "starts_in [q] x rest \<longleftrightarrow> q \<in> set x"
  by (induction x) (auto simp: strip_prefix_single simp del: strip_prefix.simps)

lemma split_two:
  assumes "split_on p s = [x, y]" and "p \<noteq> []"
  shows "\<not> starts_in p x (p @ y)" and "\<not> starts_in p y []" and "s = x @ p @ y"
  using split_on_head [OF assms(2,1)] split_on_tail [OF assms(2,1)]
    split_on_head [OF assms(2), of y y "[]"] join_split [of p s] assms
  by simp_all

lemma split_three:
  assumes "split_on p s = [x, y, z]" and "p \<noteq> []"
  shows "\<not> starts_in p x (p @ y @ p @ z)" and "\<not> starts_in p y (p @ z)"
    and "\<not> starts_in p z []" and "s = x @ p @ y @ p @ z"
  using split_on_head [OF assms(2,1)] split_two [OF split_on_tail [OF assms(2,1)] assms(2)]
    join_split [of p s] assms(1)
  by simp_all

lemma two_parts: "length v = 2 \<longleftrightarrow> (\<exists>x y. v = [x, y])"
  by (auto simp: length_Suc_conv numeral_eq_Suc)

lemma three_parts: "length v = 3 \<longleftrightarrow> (\<exists>x y z. v = [x, y, z])"
  by (auto simp: length_Suc_conv numeral_eq_Suc)

lemma node_id_from_str_Ok:
  "node_id_from_str s = Ok n \<longleftrightarrow> split_on ''@'' s = [name n, addr n]"
  by (auto simp: node_id_from_str_def Let_def two_parts)

lemma node_id_from_str_not_panic: "node_id_from_str s \<noteq> Panic m"
  by (simp add: node_id_from_str_def Let_def)

interpretation node_id_text: text_codec node_id_to_string node_id_from_str node_id_printable
proof
  fix n :: node_id
  assume "node_id_printable n"
  then show "node_id_from_str (node_id_to_string n) = Ok n"
    by (simp add: node_id_from_str_Ok node_id_to_string_def node_id_printable_def
        split_on_first [of "''@''", simplified] split_on_last starts_in_single)
next
  fix s n
  assume "node_id_from_str s = Ok n"
  then have sp: "split_on ''@'' s = [name n, addr n]" by (simp add: node_id_from_str_Ok)
  show "node_id_to_string n = s"
    using split_two(3) [OF sp] by (simp add: node_id_to_string_def)
  show "node_id_printable n"
    using split_two(1,2) [OF sp] by (simp add: node_id_printable_def starts_in_single)
qed

text \<open>
  A process id survives when its group and its name contain no \<open>::\<close> and do not end in a
  colon, and the text of its node contains no \<open>::\<close>, as the address of an IPv6 node would.
\<close>

fun clean_part :: "string \<Rightarrow> bool" where
  "clean_part [] = True"
| "clean_part [c] = (c \<noteq> CHR '':'')"
| "clean_part (c # d # x) = (\<not> (c = CHR '':'' \<and> d = CHR '':'') \<and> clean_part (d # x))"

fun no_double_colon :: "string \<Rightarrow> bool" where
  "no_double_colon (c # d # x) = (\<not> (c = CHR '':'' \<and> d = CHR '':'') \<and> no_double_colon (d # x))"
| "no_double_colon x = True"

definition pid_printable :: "pid \<Rightarrow> bool" where
  "pid_printable p \<longleftrightarrow>
     (case group p of None \<Rightarrow> True | Some g \<Rightarrow> clean_part g) \<and> clean_part (pname p)
     \<and> no_double_colon (node_id_to_string (node p)) \<and> node_id_printable (node p)"

lemma starts_in_clean: "starts_in ''::'' x (''::'' @ s) \<longleftrightarrow> \<not> clean_part x"
  by (induction x rule: clean_part.induct) auto

lemma starts_in_last: "starts_in ''::'' x [] \<longleftrightarrow> \<not> no_double_colon x"
  by (induction x rule: no_double_colon.induct) auto

lemma pid_from_str_Ok:
  "pid_from_str s = Ok p \<longleftrightarrow>
     (case group p of
        None \<Rightarrow> (\<exists>t. split_on ''::'' s = [pname p, t] \<and> node_id_from_str t = Ok (node p))
      | Some g \<Rightarrow> (\<exists>t. split_on ''::'' s = [g, pname p, t] \<and> node_id_from_str t = Ok (node p)))"
  by (cases p)
     (auto simp: pid_from_str_def Let_def two_parts three_parts split: result.splits option.splits)

lemma pid_to_string_split:
  assumes "pid_printable p"
  shows "split_on ''::'' (pid_to_string p) =
    (case group p of
       None \<Rightarrow> [pname p, node_id_to_string (node p)]
     | Some g \<Rightarrow> [g, pname p, node_id_to_string (node p)])"
  using assms
  by (auto simp: pid_to_string_def pid_printable_def split_on_first starts_in_clean
      split_on_last starts_in_last simp del: append.simps split: option.splits)

interpretation pid_text: text_codec pid_to_string pid_from_str pid_printable
proof
  fix p
  assume p: "pid_printable p"
  then show "pid_from_str (pid_to_string p) = Ok p"
    by (auto simp: pid_from_str_Ok pid_to_string_split node_id_text.parse_printed
        pid_printable_def split: option.splits)
next
  fix s p
  assume p: "pid_from_str s = Ok p"
  show "pid_to_string p = s"
    using p split_two(3) [of "''::''" s] split_three(4) [of "''::''" s]
    by (fastforce simp: pid_from_str_Ok pid_to_string_def node_id_text.print_parsed
        split: option.splits)
  show "pid_printable p"
    using p split_two(1,2) [of "''::''" s] split_three(1-3) [of "''::''" s]
    by (fastforce simp: pid_from_str_Ok pid_printable_def starts_in_clean starts_in_last
        node_id_text.print_parsed node_id_text.parsed_printable
        simp del: append.simps split: option.splits)
qed

end
