(* ===== verification/Messages.thy ===== *)
theory Messages
  imports Ids
begin

text \<open>
  The data that travels through the system: metrics (\<open>src/metrics.rs\<close> and the two metric
  structs its macro generates), status replies, \<open>Msg\<close>, \<open>Envelope\<close> and the messages of
  the executor, of the cluster server and between nodes. \<open>'t\<close> is the user's message type,
  \<open>'q\<close> a process and \<open>'x\<close> a service's sender; \<open>'s\<close> and \<open>'d\<close> are the membership
  set and its deltas, which the \<open>orset\<close> crate provides.
\<close>

section \<open>Metrics\<close>

text \<open>\<open>Gauge\<close> holds an \<open>i64\<close>, read with \<open>sint\<close>; \<open>Counter\<close> a \<open>u64\<close>.\<close>

datatype metric = Gauge "64 word" | Counter u64

record executor_metrics =
  processes_m :: "64 word"
  services_m :: "64 word"
  received_envelopes :: u64
  timers_started :: u64
  timers_cancelled :: u64

definition executor_metrics_new :: executor_metrics where
  "executor_metrics_new =
     \<lparr>processes_m = 0, services_m = 0, received_envelopes = 0, timers_started = 0,
      timers_cancelled = 0\<rparr>"

definition executor_metrics_data :: "executor_metrics \<Rightarrow> (string \<times> metric) list" where
  "executor_metrics_data m =
     [(''processes'', Gauge (processes_m m)),
      (''services'', Gauge (services_m m)),
      (''received_envelopes'', Counter (received_envelopes m)),
      (''timers_started'', Counter (timers_started m)),
      (''timers_cancelled'', Counter (timers_cancelled m))]"

record cluster_metrics =
  errors :: u64
  poll_notifications :: u64
  joins :: u64
  leaves :: u64
  received_local_envelopes :: u64
  received_remote_envelopes :: u64
  status_requests :: u64
  accepted_connections :: u64
  connection_attempts :: u64

definition cluster_metrics_new :: cluster_metrics where
  "cluster_metrics_new =
     \<lparr>errors = 0, poll_notifications = 0, joins = 0, leaves = 0, received_local_envelopes = 0,
      received_remote_envelopes = 0, status_requests = 0, accepted_connections = 0,
      connection_attempts = 0\<rparr>"

definition cluster_metrics_data :: "cluster_metrics \<Rightarrow> (string \<times> metric) list" where
  "cluster_metrics_data m =
     [(''errors'', Counter (errors m)),
      (''poll_notifications'', Counter (poll_notifications m)),
      (''joins'', Counter (joins m)),
      (''leaves'', Counter (leaves m)),
      (''received_local_envelopes'', Counter (received_local_envelopes m)),
      (''received_remote_envelopes'', Counter (received_remote_envelopes m)),
      (''status_requests'', Counter (status_requests m)),
      (''accepted_connections'', Counter (accepted_connections m)),
      (''connection_attempts'', Counter (connection_attempts m))]"

section \<open>Status replies\<close>

text \<open>\<open>members\<close> and \<open>established\<close> are hash sets, \<open>services\<close> a vector.\<close>

record cluster_status =
  st_members :: "node_id list"
  st_established :: "node_id list"
  num_connections :: nat

record executor_status =
  total_processes :: nat
  services :: "pid list"

section \<open>Messages and envelopes\<close>

datatype 't msg =
    User 't
  | ClusterStatus cluster_status
  | ExecutorStatus executor_status
  | StartTimer usize
  | CancelTimer "correlation_id option"
  | Timeout
  | ShutdownMsg
  | GetMetrics
  | Metrics "(string \<times> metric) list"

record 't envelope =
  env_to :: pid
  env_from :: pid
  env_msg :: "'t msg"
  env_cid :: "correlation_id option"

definition envelope_new ::
    "pid \<Rightarrow> pid \<Rightarrow> 't msg \<Rightarrow> correlation_id option \<Rightarrow> 't envelope" where
  "envelope_new t f m c = \<lparr>env_to = t, env_from = f, env_msg = m, env_cid = c\<rparr>"

text \<open>Messages to the executor: \<open>Start\<close> carries the boxed process.\<close>

datatype ('t, 'q, 'x) executor_msg =
    Start pid 'q
  | Stop pid
  | ExecEnvelope "'t envelope"
  | RegisterService pid 'x
  | ExecGetStatus correlation_id
  | ExecShutdown
  | Tick

text \<open>Poll notifications of the \<open>amy\<close> poller: a registration's id and what it is ready for.\<close>

datatype event = Read | Write | Both

record notification =
  n_id :: usize
  n_event :: event

text \<open>Messages to the cluster server.\<close>

datatype 't cluster_msg =
    PollNotifications "notification list"
  | Join node_id
  | Leave node_id
  | ClusterEnvelope "'t envelope"
  | ClusterGetStatus correlation_id
  | ClusterShutdown

text \<open>Messages between nodes.\<close>

datatype ('t, 's, 'd) external_msg =
    Members node_id 's
  | Ping
  | RemoteEnvelope "'t envelope"
  | DeltaMsg 'd

end
