(* ===== verification/Executor.thy ===== *)
theory Executor
  imports Messages
begin

text \<open>
  The executor thread of \<open>src/executor/executor.rs\<close>: it owns the processes of a node and routes
  envelopes to them, to the services, to itself and to the cluster server. Processes are user
  code, the timer wheel is the \<open>ferris\<close> crate and a service's sender is \<open>amy\<close>'s: all three are
  parameters. The executor's own channel is a queue it appends to.

  \<open>send_metrics\<close> calls \<open>route\<close>, which can call a process, whose output can ask for metrics
  again: the code recurses as long as processes do so. The recursion is bounded here by the
  depth of the stack, and running out of it is a panic, as a stack overflow is the end of the
  Rust process.
\<close>

section \<open>Parameters and state\<close>

text \<open>
  \<open>proc_handle\<close> gets the output vector and returns it extended as the process likes; \<open>None\<close> is
  a panic of the user's code. \<open>svc_send\<close> is false when the send returns an error.
\<close>

type_synonym timer_key = "pid \<times> correlation_id option"

record ('t, 'q, 'c, 'x, 'w) exec_ext =
  proc_init :: "pid \<Rightarrow> 'q \<Rightarrow> ('t envelope list \<times> 'q) option"
  proc_handle :: "'t msg \<Rightarrow> pid \<Rightarrow> correlation_id option \<Rightarrow> 't envelope list \<Rightarrow> 'q
    \<Rightarrow> ('t envelope list \<times> 'q) option"
  wheel_new :: 'c
  wheel_start :: "timer_key \<Rightarrow> int \<Rightarrow> 'c \<Rightarrow> 'c"
  wheel_stop :: "timer_key \<Rightarrow> 'c \<Rightarrow> 'c"
  wheel_expire :: "'c \<Rightarrow> timer_key list \<times> 'c"
  svc_send :: "'x \<Rightarrow> 't envelope \<Rightarrow> 'w \<Rightarrow> bool \<times> 'w"

record ('t, 'q, 'c, 'x, 'w) executor =
  ex_pid :: pid
  ex_node :: node_id
  envelopes :: "'t envelope list"
  processes :: "(pid, 'q) hmap"
  service_senders :: "(pid, 'x) hmap"
  ex_tx :: "('t, 'q, 'x) executor_msg list"
  cluster_tx :: "'t cluster_msg chan"
  ex_timer_wheel :: 'c
  ex_metrics :: executor_metrics
  ex_world :: 'w

type_synonym ('t, 'q, 'c, 'x, 'w, 'a) eact =
  "(('t, 'q, 'c, 'x, 'w) executor, 't envelope, 'a) act"

definition executor_pid :: "node_id \<Rightarrow> pid" where
  "executor_pid n = \<lparr>group = Some ''rabble'', pname = ''executor'', node = n\<rparr>"

definition executor_new ::
    "('t, 'q, 'c, 'x, 'w) exec_ext \<Rightarrow> node_id \<Rightarrow> 't cluster_msg chan \<Rightarrow> 'w
      \<Rightarrow> ('t, 'q, 'c, 'x, 'w) executor" where
  "executor_new x n ctx w =
     \<lparr>ex_pid = executor_pid n,
      ex_node = n, envelopes = [], processes = [], service_senders = [], ex_tx = [],
      cluster_tx = ctx, ex_timer_wheel = wheel_new x, ex_metrics = executor_metrics_new,
      ex_world = w\<rparr>"

section \<open>Routing\<close>

definition cluster_send :: "'t envelope \<Rightarrow> ('t, 'q, 'c, 'x, 'w, unit) eact" where
  "cluster_send env = (\<lambda>s.
     (case chan_send (ClusterEnvelope env) (cluster_tx s) of
        (True, ch) \<Rightarrow> (Ok (), s\<lparr>cluster_tx := ch\<rparr>)
      | (False, ch) \<Rightarrow> (Panic ''cluster_tx.send'', s)))"

definition route_to_service ::
    "('t, 'q, 'c, 'x, 'w) exec_ext \<Rightarrow> 't envelope \<Rightarrow> ('t, 'q, 'c, 'x, 'w, unit) eact" where
  "route_to_service x env = (\<lambda>s.
     (case hm_get (service_senders s) (env_to env) of
        Some tx \<Rightarrow>
          (case svc_send x tx env (ex_world s) of
             (True, w) \<Rightarrow> (Ok (), s\<lparr>ex_world := w\<rparr>)
           | (False, w) \<Rightarrow> (Panic ''tx.send'', s\<lparr>ex_world := w\<rparr>))
      | None \<Rightarrow> (Ok (), s)))"

text \<open>
  \<open>rt\<close> stands for the recursive call of \<open>route\<close> in the next three definitions.
\<close>

definition exec_send_metrics ::
    "('t envelope \<Rightarrow> ('t, 'q, 'c, 'x, 'w, unit) eact) \<Rightarrow> pid \<Rightarrow> correlation_id option
      \<Rightarrow> ('t, 'q, 'c, 'x, 'w, unit) eact" where
  "exec_send_metrics rt from_pid cid =
     seqM (modM (\<lambda>s. s\<lparr>ex_metrics := (ex_metrics s)
            \<lparr>processes_m := of_nat (length (processes s)),
             services_m := of_nat (length (service_senders s))\<rparr>\<rparr>))
       (withM (\<lambda>s. rt
          \<lparr>env_to = from_pid, env_from = ex_pid s,
           env_msg = Metrics (executor_metrics_data (ex_metrics s)), env_cid = cid\<rparr>))"

definition handle_executor_envelope ::
    "('t, 'q, 'c, 'x, 'w) exec_ext \<Rightarrow> ('t envelope \<Rightarrow> ('t, 'q, 'c, 'x, 'w, unit) eact)
      \<Rightarrow> 't envelope \<Rightarrow> ('t, 'q, 'c, 'x, 'w, unit) eact" where
  "handle_executor_envelope x rt env =
     (case env_msg env of
        StartTimer time_in_ms \<Rightarrow>
          modM (\<lambda>s. s\<lparr>ex_timer_wheel :=
              wheel_start x (env_from env, env_cid env) (sint time_in_ms) (ex_timer_wheel s),
            ex_metrics := (ex_metrics s)\<lparr>timers_started := timers_started (ex_metrics s) + 1\<rparr>\<rparr>)
      | CancelTimer cid \<Rightarrow>
          modM (\<lambda>s. s\<lparr>ex_timer_wheel := wheel_stop x (env_from env, cid) (ex_timer_wheel s),
            ex_metrics :=
              (ex_metrics s)\<lparr>timers_cancelled := timers_cancelled (ex_metrics s) + 1\<rparr>\<rparr>)
      | GetMetrics \<Rightarrow> exec_send_metrics rt (env_from env) (env_cid env)
      | _ \<Rightarrow> ret ())"

text \<open>One envelope of a process's output, in the loop that drains the output vector.\<close>

definition route_output ::
    "('t, 'q, 'c, 'x, 'w) exec_ext \<Rightarrow> ('t envelope \<Rightarrow> ('t, 'q, 'c, 'x, 'w, unit) eact)
      \<Rightarrow> 't envelope \<Rightarrow> ('t, 'q, 'c, 'x, 'w, unit) eact" where
  "route_output x rt env = withM (\<lambda>s.
     if env_to env = ex_pid s then handle_executor_envelope x rt env
     else if node (env_to env) = ex_node s then
       modM (\<lambda>s. s\<lparr>ex_tx := ex_tx s @ [ExecEnvelope env]\<rparr>)
     else cluster_send env)"

definition run_process ::
    "('t, 'q, 'c, 'x, 'w) exec_ext \<Rightarrow> ('t envelope \<Rightarrow> ('t, 'q, 'c, 'x, 'w, unit) eact)
      \<Rightarrow> 't envelope \<Rightarrow> ('t, 'q, 'c, 'x, 'w, unit) eact" where
  "run_process x rt env = withM (\<lambda>s.
     case hm_get (processes s) (env_to env) of
       None \<Rightarrow> fail env
     | Some q \<Rightarrow>
         (case proc_handle x (env_msg env) (env_from env) (env_cid env) (envelopes s) q of
            None \<Rightarrow> panic ''process''
          | Some (out, q') \<Rightarrow>
              seqM (modM (\<lambda>s. s\<lparr>processes := hm_insert (env_to env) q' (processes s),
                  envelopes := []\<rparr>))
                (seqM (forM out (route_output x rt)) (modM (\<lambda>s. s\<lparr>envelopes := []\<rparr>)))))"

definition route_to_process ::
    "('t, 'q, 'c, 'x, 'w) exec_ext \<Rightarrow> ('t envelope \<Rightarrow> ('t, 'q, 'c, 'x, 'w, unit) eact)
      \<Rightarrow> 't envelope \<Rightarrow> ('t, 'q, 'c, 'x, 'w, unit) eact" where
  "route_to_process x rt env = withM (\<lambda>s.
     if env_to env = ex_pid s then handle_executor_envelope x rt env
     else if pname (env_to env) = ''cluster_server'' then
       (case group (env_to env) of
          None \<Rightarrow> panic ''group.unwrap''
        | Some g \<Rightarrow> if g = ''rabble'' then cluster_send env else run_process x rt env)
     else run_process x rt env)"

definition route ::
    "('t, 'q, 'c, 'x, 'w) exec_ext \<Rightarrow> ('t envelope \<Rightarrow> ('t, 'q, 'c, 'x, 'w, unit) eact)
      \<Rightarrow> 't envelope \<Rightarrow> ('t, 'q, 'c, 'x, 'w, unit) eact" where
  "route x rt env = withM (\<lambda>s.
     if ex_node s \<noteq> node (env_to env) then cluster_send env
     else catchM (route_to_process x rt env) (\<lambda>e. route_to_service x e))"

text \<open>\<open>route_d x d\<close>: routing with room for \<open>d\<close> nested calls of \<open>route\<close> on the stack.\<close>

fun route_d ::
    "('t, 'q, 'c, 'x, 'w) exec_ext \<Rightarrow> nat \<Rightarrow> 't envelope \<Rightarrow> ('t, 'q, 'c, 'x, 'w, unit) eact" where
  "route_d x 0 env = panic ''stack overflow''"
| "route_d x (Suc d) env = route x (route_d x d) env"

section \<open>Operations\<close>

definition exec_get_status ::
    "('t, 'q, 'c, 'x, 'w) exec_ext \<Rightarrow> correlation_id \<Rightarrow> ('t, 'q, 'c, 'x, 'w, unit) eact" where
  "exec_get_status x cid = withM (\<lambda>s.
     route_to_service x
       \<lparr>env_to = cid_pid cid, env_from = ex_pid s,
        env_msg = ExecutorStatus
          \<lparr>total_processes = length (processes s), services = hm_keys (service_senders s)\<rparr>,
        env_cid = Some cid\<rparr>)"

definition exec_start ::
    "('t, 'q, 'c, 'x, 'w) exec_ext \<Rightarrow> nat \<Rightarrow> pid \<Rightarrow> 'q \<Rightarrow> ('t, 'q, 'c, 'x, 'w, unit) eact" where
  "exec_start x d p q = withM (\<lambda>s.
     case proc_init x (ex_pid s) q of
       None \<Rightarrow> panic ''process''
     | Some (envs, q') \<Rightarrow>
         seqM (modM (\<lambda>s. s\<lparr>processes := hm_insert p q' (processes s)\<rparr>))
           (forM envs (\<lambda>env. withM (\<lambda>s.
              if env_to env = ex_pid s then handle_executor_envelope x (route_d x d) env
              else route_d x d env))))"

definition exec_stop :: "pid \<Rightarrow> ('t, 'q, 'c, 'x, 'w, unit) eact" where
  "exec_stop p = modM (\<lambda>s. s\<lparr>processes := hm_remove p (processes s)\<rparr>)"

definition register_service :: "pid \<Rightarrow> 'x \<Rightarrow> ('t, 'q, 'c, 'x, 'w, unit) eact" where
  "register_service p tx = modM (\<lambda>s. s\<lparr>service_senders := hm_insert p tx (service_senders s)\<rparr>)"

text \<open>An expired timer whose process is gone is dropped: the error of the routing is ignored.\<close>

definition exec_tick ::
    "('t, 'q, 'c, 'x, 'w) exec_ext \<Rightarrow> nat \<Rightarrow> ('t, 'q, 'c, 'x, 'w, unit) eact" where
  "exec_tick x d = withM (\<lambda>s.
     let (expired, c) = wheel_expire x (ex_timer_wheel s) in
     seqM (modM (\<lambda>s. s\<lparr>ex_timer_wheel := c\<rparr>))
       (forM expired (\<lambda>(p, cid). withM (\<lambda>s.
          catchM (route_to_process x (route_d x d) (envelope_new p (ex_pid s) Timeout cid))
            (\<lambda>_. ret ())))))"

definition exec_envelope ::
    "('t, 'q, 'c, 'x, 'w) exec_ext \<Rightarrow> nat \<Rightarrow> 't envelope \<Rightarrow> ('t, 'q, 'c, 'x, 'w, unit) eact" where
  "exec_envelope x d env =
     seqM (modM (\<lambda>s. s\<lparr>ex_metrics := (ex_metrics s)
              \<lparr>received_envelopes := received_envelopes (ex_metrics s) + 1\<rparr>\<rparr>))
       (route_d x d env)"

text \<open>One turn of \<open>Executor::run\<close>.\<close>

definition exec_dispatch ::
    "('t, 'q, 'c, 'x, 'w) exec_ext \<Rightarrow> nat \<Rightarrow> ('t, 'q, 'x) executor_msg
      \<Rightarrow> ('t, 'q, 'c, 'x, 'w, unit) eact" where
  "exec_dispatch x d m =
     (case m of
        ExecEnvelope env \<Rightarrow> exec_envelope x d env
      | Start p q \<Rightarrow> exec_start x d p q
      | Stop p \<Rightarrow> exec_stop p
      | RegisterService p tx \<Rightarrow> register_service p tx
      | ExecGetStatus cid \<Rightarrow> exec_get_status x cid
      | Tick \<Rightarrow> exec_tick x d
      | ExecShutdown \<Rightarrow> ret ())"

definition exec_handle ::
    "('t, 'q, 'c, 'x, 'w) exec_ext \<Rightarrow> nat \<Rightarrow> ('t, 'q, 'x) executor_msg
      \<Rightarrow> ('t, 'q, 'c, 'x, 'w) executor \<Rightarrow> loop_status \<times> ('t, 'q, 'c, 'x, 'w) executor" where
  "exec_handle x d m s =
     (case m of
        ExecShutdown \<Rightarrow> (Stopped, s)
      | _ \<Rightarrow> (case exec_dispatch x d m s of
                (Panic p, s') \<Rightarrow> (Crashed p, s')
              | (_, s') \<Rightarrow> (Running, s')))"

definition executor_run ::
    "('t, 'q, 'c, 'x, 'w) exec_ext \<Rightarrow> nat \<Rightarrow> ('t, 'q, 'x) executor_msg list
      \<Rightarrow> ('t, 'q, 'c, 'x, 'w) executor \<Rightarrow> loop_status \<times> ('t, 'q, 'c, 'x, 'w) executor" where
  "executor_run x d = run_loop (exec_handle x d)"

end
