(* ===== verification/Outcomes.thy ===== *)
theory Outcomes
  imports Prelude
begin

text \<open>
  Actions with a bound on their panics: the rules for what a handler keeps when some of its calls
  may panic, because nothing is assumed of the outside or because what it sends to may be gone.
\<close>

text \<open>\<open>only U P m\<close>: \<open>m\<close> keeps \<open>P\<close> whatever its outcome, and panics with a message of \<open>U\<close> only.\<close>

definition only :: "string set \<Rightarrow> ('s \<Rightarrow> bool) \<Rightarrow> ('s, 'e, 'a) act \<Rightarrow> bool" where
  "only U P m \<longleftrightarrow> triple P m (\<lambda>r s. P s \<and> (\<forall>p. r = Panic p \<longrightarrow> p \<in> U))"

named_theorems only_rules "actions with a bound on their panics"

lemma onlyI: "(\<And>s. P s \<Longrightarrow> P (snd (m s)) \<and> (\<forall>p. fst (m s) = Panic p \<longrightarrow> p \<in> U)) \<Longrightarrow> only U P m"
  by (simp add: only_def triple_def)

lemma only_at: "only U P m \<Longrightarrow> P s \<Longrightarrow> P (snd (m s)) \<and> (\<forall>p. fst (m s) = Panic p \<longrightarrow> p \<in> U)"
  by (simp add: only_def triple_def)

lemma onlyD: "only U P m \<Longrightarrow> P s \<Longrightarrow> m s = (r, s') \<Longrightarrow> P s' \<and> (\<forall>p. r = Panic p \<longrightarrow> p \<in> U)"
  by (force simp: only_def triple_def)

lemma only_ret [only_rules]: "only U P (ret a)"
  by (simp add: only_def triple_def ret_def)

lemma only_fail [only_rules]: "only U P (fail e)"
  by (simp add: only_def triple_def fail_def)

lemma only_panic: "p \<in> U \<Longrightarrow> only U P (panic p)"
  by (simp add: only_def triple_def panic_def)

lemma only_bind [only_rules]: "only U P m \<Longrightarrow> (\<And>a. only U P (f a)) \<Longrightarrow> only U P (bindM m f)"
  unfolding only_def triple_def bindM_def
  by (fastforce split: prod.splits result.splits)

lemma only_seq [only_rules]: "only U P m \<Longrightarrow> only U P k \<Longrightarrow> only U P (seqM m k)"
  by (simp add: seqM_def only_bind)

lemma only_catch [only_rules]: "only U P m \<Longrightarrow> (\<And>e. only U P (h e)) \<Longrightarrow> only U P (catchM m h)"
  unfolding only_def triple_def catchM_def
  by (fastforce split: prod.splits result.splits)

lemma only_mod: "(\<And>s. P s \<Longrightarrow> P (f s)) \<Longrightarrow> only U P (modM f)"
  by (simp add: only_def triple_def modM_def)

lemma only_with [only_rules]: "(\<And>s. P s \<Longrightarrow> only U P (f s)) \<Longrightarrow> only U P (withM f)"
  by (simp add: only_def triple_def withM_def)

lemma only_for [only_rules]: "(\<And>x. x \<in> set xs \<Longrightarrow> only U P (f x)) \<Longrightarrow> only U P (forM xs f)"
  by (induction xs) (auto intro: only_rules)

lemma only_collect [only_rules]:
  "(\<And>x. x \<in> set xs \<Longrightarrow> only U P (f x)) \<Longrightarrow> only U P (collectM xs f)"
  by (induction xs) (auto intro!: only_ret only_bind only_catch only_seq)

text \<open>
  \<open>guarded E P m\<close>: \<open>m\<close> keeps \<open>P\<close> unless it panics, and if it does \<open>E\<close> holds of the panic and of the
  state it leaves.
\<close>

definition guarded :: "(string \<Rightarrow> 's \<Rightarrow> bool) \<Rightarrow> ('s \<Rightarrow> bool) \<Rightarrow> ('s, 'e, 'a) act \<Rightarrow> bool" where
  "guarded E P m \<longleftrightarrow> triple P m (\<lambda>r s. case r of Panic p \<Rightarrow> E p s | _ \<Rightarrow> P s)"

named_theorems guarded_rules "actions that keep an invariant unless they panic for a reason"

lemma guardedI:
  "(\<And>s. P s \<Longrightarrow> case fst (m s) of Panic p \<Rightarrow> E p (snd (m s)) | _ \<Rightarrow> P (snd (m s))) \<Longrightarrow> guarded E P m"
  by (simp add: guarded_def triple_def)

lemma guardedD:
  assumes "guarded E P m" and "P s" and "m s = (r, s')"
  shows "r = Panic p \<Longrightarrow> E p s'" and "\<not> is_panic r \<Longrightarrow> P s'"
  using tripleD [OF assms(1) [unfolded guarded_def] assms(2,3)] by (cases r; simp)+

lemma guarded_ret [guarded_rules]: "guarded E P (ret a)"
  by (simp add: guarded_def triple_def ret_def)

lemma guarded_fail [guarded_rules]: "guarded E P (fail e)"
  by (simp add: guarded_def triple_def fail_def)

lemma guarded_bind [guarded_rules]:
  "guarded E P m \<Longrightarrow> (\<And>a. guarded E P (f a)) \<Longrightarrow> guarded E P (bindM m f)"
  unfolding guarded_def triple_def bindM_def
  by (fastforce split: prod.splits result.splits)

lemma guarded_seq [guarded_rules]: "guarded E P m \<Longrightarrow> guarded E P k \<Longrightarrow> guarded E P (seqM m k)"
  by (simp add: seqM_def guarded_bind)

lemma guarded_catch [guarded_rules]:
  "guarded E P m \<Longrightarrow> (\<And>e. guarded E P (h e)) \<Longrightarrow> guarded E P (catchM m h)"
  unfolding guarded_def triple_def catchM_def
  by (fastforce split: prod.splits result.splits)

lemma guarded_mod: "(\<And>s. P s \<Longrightarrow> P (f s)) \<Longrightarrow> guarded E P (modM f)"
  by (simp add: guarded_def triple_def modM_def)

lemma guarded_with [guarded_rules]: "(\<And>s. P s \<Longrightarrow> guarded E P (f s)) \<Longrightarrow> guarded E P (withM f)"
  by (simp add: guarded_def triple_def withM_def)

lemma guarded_for [guarded_rules]:
  "(\<And>x. x \<in> set xs \<Longrightarrow> guarded E P (f x)) \<Longrightarrow> guarded E P (forM xs f)"
  by (induction xs) (auto intro: guarded_rules)

lemma list_all_map_of:
  "distinct (map fst xs) \<Longrightarrow> list_all (\<lambda>(k, v). P v) xs \<longleftrightarrow> (\<forall>k v. map_of xs k = Some v \<longrightarrow> P v)"
  by (auto simp: list_all_iff)

end
