(* ===== verification/ExecutorProps.thy ===== *)
theory ExecutorProps
  imports Executor Outcomes
begin

text \<open>
  What the executor keeps and what its routing does: the invariant of its state and its freedom
  from panics under named conditions on the user's code, the order in which a process's output
  leaves, the depth of the recursion through \<open>send_metrics\<close>, and what becomes of expired timers.
\<close>

section \<open>Conditions on the code the executor calls\<close>

text \<open>
  A pid the router can take apart: \<open>route_to_process\<close> unwraps the group of any pid named
  \<open>cluster_server\<close>.
\<close>

definition pid_ok :: "pid \<Rightarrow> bool" where
  "pid_ok p \<longleftrightarrow> (pname p = ''cluster_server'' \<longrightarrow> group p \<noteq> None)"

definition env_ok :: "'t envelope \<Rightarrow> bool" where
  "env_ok env \<longleftrightarrow> pid_ok (env_to env) \<and> pid_ok (env_from env)"

fun is_metrics :: "'t msg \<Rightarrow> bool" where
  "is_metrics (Metrics d) = True"
| "is_metrics m = False"

text \<open>
  A contract with the user's code: the envelopes its processes may be handed (\<open>uc_env\<close>) and the
  states they are in (\<open>uc_proc\<close>). Code that keeps the contract does not panic on such an envelope
  and answers with such envelopes; it does not answer a \<open>Metrics\<close> message with another
  \<open>GetMetrics\<close>; and it stands by what the executor sends back on its behalf, a \<open>Metrics\<close> reply
  to \<open>GetMetrics\<close> and a \<open>Timeout\<close> to \<open>StartTimer\<close>.
\<close>

record ('t, 'q) contract =
  uc_env :: "'t envelope \<Rightarrow> bool"
  uc_proc :: "'q \<Rightarrow> bool"

definition procs_ok ::
    "('t, 'q, 'c, 'x, 'w) exec_ext \<Rightarrow> ('t, 'q) contract \<Rightarrow> bool" where
  "procs_ok x K \<longleftrightarrow>
     (\<forall>env. uc_env K env \<longrightarrow> env_ok env) \<and>
     (\<forall>n q. uc_proc K q \<longrightarrow> (\<exists>out q'. proc_init x (executor_pid n) q = Some (out, q')
        \<and> uc_proc K q' \<and> list_all (uc_env K) out)) \<and>
     (\<forall>env q. uc_env K env \<longrightarrow> uc_proc K q \<longrightarrow>
        (\<exists>out q'. proc_handle x (env_msg env) (env_from env) (env_cid env) [] q = Some (out, q')
        \<and> uc_proc K q' \<and> list_all (uc_env K) out
        \<and> (is_metrics (env_msg env) \<longrightarrow> (\<forall>e \<in> set out. env_msg e \<noteq> GetMetrics)))) \<and>
     (\<forall>env n d. uc_env K env \<longrightarrow> env_msg env = GetMetrics \<longrightarrow>
        uc_env K (envelope_new (env_from env) (executor_pid n) (Metrics d) (env_cid env))) \<and>
     (\<forall>env n ms. uc_env K env \<longrightarrow> env_msg env = StartTimer ms \<longrightarrow>
        uc_env K (envelope_new (env_from env) (executor_pid n) Timeout (env_cid env)))"

text \<open>
  What stops the executor although the user's code keeps its contract: the send to a service whose
  receiver is gone, as when the service's thread has returned, and the send to a cluster server
  that has ended. \<open>lost_service\<close> says that the last thing that the world saw was such a send, to a
  service that is registered.
\<close>

definition receiver_up :: "('t, 'q, 'c, 'x, 'w) exec_ext \<Rightarrow> 'x \<Rightarrow> bool" where
  "receiver_up x tx \<longleftrightarrow> (\<forall>env w. fst (svc_send x tx env w))"

definition lost_service ::
    "('t, 'q, 'c, 'x, 'w) exec_ext \<Rightarrow> ('t, 'q, 'c, 'x, 'w) executor \<Rightarrow> bool" where
  "lost_service x s \<longleftrightarrow> (\<exists>tx env w. hm_get (service_senders s) (env_to env) = Some tx
     \<and> svc_send x tx env w = (False, ex_world s))"

definition exec_stops ::
    "('t, 'q, 'c, 'x, 'w) exec_ext \<Rightarrow> string \<Rightarrow> ('t, 'q, 'c, 'x, 'w) executor \<Rightarrow> bool" where
  "exec_stops x p s \<longleftrightarrow> p = ''tx.send'' \<and> lost_service x s
     \<or> p = ''cluster_tx.send'' \<and> \<not> rx_alive (cluster_tx s)"

lemma no_lost_service:
  "(\<And>p tx. hm_get (service_senders s) p = Some tx \<Longrightarrow> receiver_up x tx) \<Longrightarrow> \<not> lost_service x s"
  by (auto simp: lost_service_def receiver_up_def) (metis fst_conv)

text \<open>
  The timer wheel returns timers that were started, and only those: \<open>tk\<close> gives the timers a
  wheel holds.
\<close>

definition timers_ok ::
    "('t, 'q, 'c, 'x, 'w) exec_ext \<Rightarrow> ('c \<Rightarrow> timer_key set) \<Rightarrow> bool" where
  "timers_ok x tk \<longleftrightarrow>
     tk (wheel_new x) = {} \<and>
     (\<forall>k ms c. tk (wheel_start x k ms c) \<subseteq> insert k (tk c)) \<and>
     (\<forall>k c. tk (wheel_stop x k c) \<subseteq> tk c) \<and>
     (\<forall>c. set (fst (wheel_expire x c)) \<subseteq> tk c \<and> tk (snd (wheel_expire x c)) \<subseteq> tk c)"

section \<open>The invariant\<close>

definition exec_core :: "('t, 'q, 'c, 'x, 'w) executor \<Rightarrow> bool" where
  "exec_core s \<longleftrightarrow>
     envelopes s = [] \<and> ex_pid s = executor_pid (ex_node s)
     \<and> hm_ok (processes s) \<and> hm_ok (service_senders s)"

text \<open>Messages the executor takes without a panic.\<close>

fun exec_accepts :: "('t, 'q) contract \<Rightarrow> ('t, 'q, 'x) executor_msg \<Rightarrow> bool" where
  "exec_accepts K (ExecEnvelope env) = uc_env K env"
| "exec_accepts K (Start p q) = uc_proc K q"
| "exec_accepts K m = True"

text \<open>What the executor has sent: envelopes of the contract to the cluster server and to itself.\<close>

definition sends_ok :: "('t, 'q) contract \<Rightarrow> ('t, 'q, 'c, 'x, 'w) executor \<Rightarrow> bool" where
  "sends_ok K s \<longleftrightarrow>
     list_all (\<lambda>m. \<exists>env. m = ClusterEnvelope env \<and> uc_env K env) (sent (cluster_tx s))
     \<and> list_all (exec_accepts K) (ex_tx s)"

definition exec_inv ::
    "('t, 'q, 'c, 'x, 'w) exec_ext \<Rightarrow> ('t, 'q) contract \<Rightarrow> ('c \<Rightarrow> timer_key set) \<Rightarrow> nat
      \<Rightarrow> ('t, 'q, 'c, 'x, 'w) executor \<Rightarrow> bool" where
  "exec_inv x K tk d s \<longleftrightarrow>
     procs_ok x K \<and> timers_ok x tk \<and> 2 \<le> d \<and> exec_core s \<and> sends_ok K s
     \<and> (\<forall>p q. hm_get (processes s) p = Some q \<longrightarrow> uc_proc K q)
     \<and> (\<forall>(p, c) \<in> tk (ex_timer_wheel s). \<forall>n. uc_env K (envelope_new p (executor_pid n) Timeout c))"

subsection \<open>The buffer and the maps, whatever the user code does\<close>

definition core_at :: "bool \<Rightarrow> ('t, 'q, 'c, 'x, 'w) executor \<Rightarrow> bool" where
  "core_at a s \<longleftrightarrow> exec_core s \<and> rx_alive (cluster_tx s) = a"

lemma cluster_send_core [keeps_rules]: "keeps (core_at a) (cluster_send env)"
  by (rule keepsI) (auto simp: cluster_send_def chan_send_def core_at_def exec_core_def split: prod.splits bool.splits)

lemma route_to_service_core [keeps_rules]: "keeps (core_at a) (route_to_service x env)"
  by (rule keepsI)
     (auto simp: route_to_service_def core_at_def exec_core_def split: prod.splits bool.splits option.splits)

lemma send_metrics_core:
  "(\<And>e. keeps (core_at a) (rt e)) \<Longrightarrow> keeps (core_at a) (exec_send_metrics rt p c)"
  unfolding exec_send_metrics_def
  by (intro keeps_rules keeps_mod) (auto simp: core_at_def exec_core_def)

lemma handle_executor_envelope_core:
  "(\<And>e. keeps (core_at a) (rt e)) \<Longrightarrow> keeps (core_at a) (handle_executor_envelope x rt env)"
  unfolding handle_executor_envelope_def
  by (cases "env_msg env")
     (auto intro!: keeps_rules keeps_mod send_metrics_core simp: core_at_def exec_core_def)

lemma route_output_core:
  "(\<And>e. keeps (core_at a) (rt e)) \<Longrightarrow> keeps (core_at a) (route_output x rt env)"
  unfolding route_output_def
  by (auto intro!: keeps_rules keeps_mod handle_executor_envelope_core simp: core_at_def exec_core_def)

lemma run_process_core:
  "(\<And>e. keeps (core_at a) (rt e)) \<Longrightarrow> keeps (core_at a) (run_process x rt env)"
  unfolding run_process_def
  by (auto intro!: keeps_rules keeps_mod route_output_core simp: core_at_def exec_core_def
      split: option.splits prod.splits)

lemma route_to_process_core:
  "(\<And>e. keeps (core_at a) (rt e)) \<Longrightarrow> keeps (core_at a) (route_to_process x rt env)"
  unfolding route_to_process_def
  by (auto intro!: keeps_rules handle_executor_envelope_core run_process_core split: option.splits)

lemma route_core: "(\<And>e. keeps (core_at a) (rt e)) \<Longrightarrow> keeps (core_at a) (route x rt env)"
  unfolding route_def by (auto intro!: keeps_rules route_to_process_core)

lemma route_d_core [keeps_rules]: "keeps (core_at a) (route_d x d env)"
  by (induction d arbitrary: env) (auto intro: keeps_rules route_core)

lemma exec_dispatch_core: "keeps (core_at a) (exec_dispatch x d m)"
proof (cases m)
  case (Start p q)
  then show ?thesis
    by (auto simp: exec_dispatch_def exec_start_def core_at_def exec_core_def split: option.splits prod.splits
        intro!: keeps_rules keeps_mod handle_executor_envelope_core)
next
  case Tick
  then show ?thesis
    by (auto simp: exec_dispatch_def exec_tick_def core_at_def exec_core_def split: prod.splits
        intro!: keeps_rules keeps_mod route_to_process_core)
qed (auto simp: exec_dispatch_def exec_stop_def exec_envelope_def register_service_def core_at_def exec_core_def
      exec_get_status_def intro!: keeps_rules keeps_mod)

subsection \<open>No panic but those of lost receivers\<close>

lemma procs_okD:
  assumes "procs_ok x K"
  shows "uc_env K env \<Longrightarrow> env_ok env"
    and "uc_env K env \<Longrightarrow> env_msg env = GetMetrics \<Longrightarrow>
      uc_env K (envelope_new (env_from env) (executor_pid n) (Metrics d) (env_cid env))"
    and "uc_env K env \<Longrightarrow> env_msg env = StartTimer ms \<Longrightarrow>
      uc_env K (envelope_new (env_from env) (executor_pid n) Timeout (env_cid env))"
  using assms unfolding procs_ok_def by blast+

lemma procs_ok_handle:
  assumes "procs_ok x K" and "uc_env K env" and "uc_proc K q"
  obtains out q' where
    "proc_handle x (env_msg env) (env_from env) (env_cid env) [] q = Some (out, q')"
    "uc_proc K q'" "list_all (uc_env K) out"
    "is_metrics (env_msg env) \<longrightarrow> (\<forall>e \<in> set out. env_msg e \<noteq> GetMetrics)"
  using assms unfolding procs_ok_def by meson

lemma procs_ok_init:
  assumes "procs_ok x K" and "uc_proc K q"
  obtains out q' where "proc_init x (executor_pid n) q = Some (out, q')"
    "uc_proc K q'" "list_all (uc_env K) out"
  using assms unfolding procs_ok_def by meson

abbreviation exec_safe ::
    "('t, 'q, 'c, 'x, 'w) exec_ext \<Rightarrow> ('t, 'q) contract \<Rightarrow> ('c \<Rightarrow> timer_key set) \<Rightarrow> nat
      \<Rightarrow> ('t, 'q, 'c, 'x, 'w, unit) eact \<Rightarrow> bool" where
  "exec_safe x K tk d \<equiv> guarded (exec_stops x) (exec_inv x K tk d)"

text \<open>A continuation that is safe for the \<open>Metrics\<close> replies \<open>send_metrics\<close> gives it.\<close>

definition metrics_safe ::
    "('t, 'q, 'c, 'x, 'w) exec_ext \<Rightarrow> ('t, 'q) contract \<Rightarrow> ('c \<Rightarrow> timer_key set) \<Rightarrow> nat
      \<Rightarrow> ('t envelope \<Rightarrow> ('t, 'q, 'c, 'x, 'w, unit) eact) \<Rightarrow> bool" where
  "metrics_safe x K tk d rt \<longleftrightarrow>
     (\<forall>e. uc_env K e \<longrightarrow> is_metrics (env_msg e) \<longrightarrow> exec_safe x K tk d (rt e))"

lemma cluster_send_safe [guarded_rules]:
  "uc_env K env \<Longrightarrow> exec_safe x K tk d (cluster_send env)"
  by (rule guardedI)
     (auto simp: cluster_send_def chan_send_def exec_inv_def exec_core_def sends_ok_def exec_stops_def)

lemma route_to_service_safe [guarded_rules]: "exec_safe x K tk d (route_to_service x env)"
proof (rule guardedI)
  fix s assume inv: "exec_inv x K tk d s"
  show "case fst (route_to_service x env s) of
      Panic p \<Rightarrow> exec_stops x p (snd (route_to_service x env s))
    | _ \<Rightarrow> exec_inv x K tk d (snd (route_to_service x env s))"
  proof (cases "hm_get (service_senders s) (env_to env)")
    case None
    with inv show ?thesis by (simp add: route_to_service_def)
  next
    case (Some tx)
    obtain ok w where sd: "svc_send x tx env (ex_world s) = (ok, w)" by fastforce
    have "lost_service x (s\<lparr>ex_world := w\<rparr>)" if "\<not> ok"
      using Some sd that unfolding lost_service_def by auto
    with inv Some sd show ?thesis
      by (cases ok) (simp_all add: route_to_service_def exec_inv_def exec_core_def sends_ok_def exec_stops_def)
  qed
qed

lemma send_metrics_safe:
  assumes "metrics_safe x K tk d rt" and "uc_env K env" and "env_msg env = GetMetrics"
  shows "exec_safe x K tk d (exec_send_metrics rt (env_from env) (env_cid env))"
  unfolding exec_send_metrics_def
proof (intro guarded_rules guarded_mod)
  fix s assume "exec_inv x K tk d s"
  then have "uc_env K (envelope_new (env_from env) (ex_pid s)
      (Metrics (executor_metrics_data (ex_metrics s))) (env_cid env))"
    using assms(2,3) procs_okD(2) by (auto simp: exec_inv_def exec_core_def sends_ok_def)
  then show "exec_safe x K tk d (rt \<lparr>env_to = env_from env, env_from = ex_pid s,
      env_msg = Metrics (executor_metrics_data (ex_metrics s)), env_cid = env_cid env\<rparr>)"
    using assms(1) by (simp add: metrics_safe_def envelope_new_def)
qed (simp add: exec_inv_def exec_core_def sends_ok_def)

lemma timers_okD:
  assumes "timers_ok x tk"
  shows "k' \<in> tk (wheel_start x k ms c) \<Longrightarrow> k' = k \<or> k' \<in> tk c"
    and "k' \<in> tk (wheel_stop x k c) \<Longrightarrow> k' \<in> tk c"
    and "wheel_expire x c = (ks, c') \<Longrightarrow> k' \<in> set ks \<Longrightarrow> k' \<in> tk c"
    and "wheel_expire x c = (ks, c') \<Longrightarrow> k' \<in> tk c' \<Longrightarrow> k' \<in> tk c"
  using assms unfolding timers_ok_def by (metis insert_iff subsetD fst_conv snd_conv)+

lemma handle_executor_envelope_safe:
  assumes "uc_env K env"
    and "env_msg env = GetMetrics \<Longrightarrow> metrics_safe x K tk d rt"
  shows "exec_safe x K tk d (handle_executor_envelope x rt env)"
proof (cases "env_msg env")
  case (StartTimer ms)
  show ?thesis
    unfolding handle_executor_envelope_def StartTimer msg.case
    using procs_okD(3) [OF _ assms(1) StartTimer]
    by (intro guarded_mod) (auto simp: exec_inv_def exec_core_def sends_ok_def dest!: timers_okD(1))
next
  case (CancelTimer c)
  show ?thesis
    unfolding handle_executor_envelope_def CancelTimer msg.case
    by (intro guarded_mod) (auto simp: exec_inv_def exec_core_def sends_ok_def dest!: timers_okD(2))
next
  case GetMetrics
  with assms show ?thesis
    by (simp add: handle_executor_envelope_def send_metrics_safe)
qed (simp_all add: handle_executor_envelope_def guarded_ret)

lemma route_output_safe:
  assumes "uc_env K env"
    and "env_msg env = GetMetrics \<Longrightarrow> metrics_safe x K tk d rt"
  shows "exec_safe x K tk d (route_output x rt env)"
  unfolding route_output_def using assms
  by (auto intro!: guarded_rules guarded_mod handle_executor_envelope_safe
      simp: exec_inv_def exec_core_def sends_ok_def)

lemma store_process_safe:
  "uc_proc K q \<Longrightarrow>
   exec_safe x K tk d (modM (\<lambda>s. s\<lparr>processes := hm_insert p q (processes s), envelopes := []\<rparr>))"
  by (rule guarded_mod) (auto simp: exec_inv_def exec_core_def sends_ok_def)

lemma run_process_safe:
  assumes "uc_env K env"
    and "is_metrics (env_msg env) \<or> metrics_safe x K tk d rt"
  shows "exec_safe x K tk d (run_process x rt env)"
  unfolding run_process_def
proof (rule guarded_with)
  fix s assume inv: "exec_inv x K tk d s"
  then have px: "procs_ok x K" and [simp]: "envelopes s = []"
    by (auto simp: exec_inv_def exec_core_def sends_ok_def)
  show "exec_safe x K tk d
    (case hm_get (processes s) (env_to env) of None \<Rightarrow> fail env
     | Some q \<Rightarrow>
         (case proc_handle x (env_msg env) (env_from env) (env_cid env) (envelopes s) q of
            None \<Rightarrow> panic ''process''
          | Some (out, q') \<Rightarrow>
              seqM (modM (\<lambda>s. s\<lparr>processes := hm_insert (env_to env) q' (processes s),
                  envelopes := []\<rparr>))
                (seqM (forM out (route_output x rt)) (modM (\<lambda>s. s\<lparr>envelopes := []\<rparr>)))))"
  proof (cases "hm_get (processes s) (env_to env)")
    case None
    then show ?thesis by (simp add: guarded_fail)
  next
    case (Some q)
    then have "uc_proc K q" using inv by (simp add: exec_inv_def)
    with px assms(1) obtain out q' where
      h: "proc_handle x (env_msg env) (env_from env) (env_cid env) [] q = Some (out, q')"
      and q': "uc_proc K q'" and ok: "list_all (uc_env K) out"
      and quiet: "is_metrics (env_msg env) \<longrightarrow> (\<forall>e \<in> set out. env_msg e \<noteq> GetMetrics)"
      by (rule procs_ok_handle)
    have "exec_safe x K tk d (route_output x rt e)" if "e \<in> set out" for e
      using that ok quiet assms(2) by (intro route_output_safe) (auto simp: list_all_iff)
    moreover have "exec_safe x K tk d (modM (\<lambda>s. s\<lparr>envelopes := []\<rparr>))"
      by (rule guarded_mod) (simp add: exec_inv_def exec_core_def sends_ok_def)
    ultimately show ?thesis
      using Some h store_process_safe [OF q'] by (auto intro!: guarded_seq guarded_for)
  qed
qed

lemma contract_addressed:
  "exec_inv x K tk d s \<Longrightarrow> uc_env K env \<Longrightarrow> pname (env_to env) = ''cluster_server'' \<Longrightarrow>
   group (env_to env) \<noteq> None"
  by (auto simp: exec_inv_def env_ok_def pid_ok_def dest: procs_okD(1))

lemma route_to_process_safe:
  assumes "uc_env K env"
    and "is_metrics (env_msg env) \<or> metrics_safe x K tk d rt"
  shows "exec_safe x K tk d (route_to_process x rt env)"
  unfolding route_to_process_def using assms
  by (auto intro!: guarded_rules handle_executor_envelope_safe run_process_safe
      dest: contract_addressed split: option.splits)

lemma route_safe:
  assumes "uc_env K env"
    and "is_metrics (env_msg env) \<or> metrics_safe x K tk d rt"
  shows "exec_safe x K tk d (route x rt env)"
  unfolding route_def using assms by (auto intro!: guarded_rules route_to_process_safe)

text \<open>A \<open>Metrics\<close> reply needs one level of \<open>route\<close>, any other envelope at most two.\<close>

lemma route_d_metrics_safe: "1 \<le> n \<Longrightarrow> metrics_safe x K tk d (route_d x n)"
  by (cases n) (auto simp: metrics_safe_def intro: route_safe)

lemma route_d_safe: "2 \<le> n \<Longrightarrow> uc_env K env \<Longrightarrow> exec_safe x K tk d (route_d x n env)"
  by (cases n) (auto intro!: route_safe route_d_metrics_safe)

lemma exec_start_safe:
  assumes "2 \<le> d" and "uc_proc K q"
  shows "exec_safe x K tk d (exec_start x d p q)"
  unfolding exec_start_def
proof (rule guarded_with)
  fix s assume inv: "exec_inv x K tk d s"
  then have "procs_ok x K" and pid: "ex_pid s = executor_pid (ex_node s)"
    by (auto simp: exec_inv_def exec_core_def sends_ok_def)
  then obtain envs q' where i: "proc_init x (executor_pid (ex_node s)) q = Some (envs, q')"
    and q': "uc_proc K q'" and envs: "list_all (uc_env K) envs"
    using assms(2) by (metis procs_ok_init)
  have "exec_safe x K tk d (modM (\<lambda>s. s\<lparr>processes := hm_insert p q' (processes s)\<rparr>))"
    using q' by (intro guarded_mod) (auto simp: exec_inv_def exec_core_def sends_ok_def)
  moreover have "exec_safe x K tk d (withM (\<lambda>s.
      if env_to env = ex_pid s then handle_executor_envelope x (route_d x d) env
      else route_d x d env))" if "env \<in> set envs" for env
    using that envs assms(1)
    by (auto intro!: guarded_with handle_executor_envelope_safe route_d_safe
        route_d_metrics_safe simp: list_all_iff)
  ultimately show "exec_safe x K tk d
    (case proc_init x (ex_pid s) q of None \<Rightarrow> panic ''process''
     | Some (envs, q') \<Rightarrow>
         seqM (modM (\<lambda>s. s\<lparr>processes := hm_insert p q' (processes s)\<rparr>))
           (forM envs (\<lambda>env. withM (\<lambda>s.
              if env_to env = ex_pid s then handle_executor_envelope x (route_d x d) env
              else route_d x d env))))"
    unfolding pid i option.case prod.case by (intro guarded_seq guarded_for)
qed

lemma exec_tick_safe:
  assumes "2 \<le> d"
  shows "exec_safe x K tk d (exec_tick x d)"
  unfolding exec_tick_def
proof (rule guarded_with)
  fix s assume inv: "exec_inv x K tk d s"
  obtain ks c where e: "wheel_expire x (ex_timer_wheel s) = (ks, c)" by fastforce
  let ?ok = "\<lambda>k. \<forall>n. uc_env K (envelope_new (fst k) (executor_pid n) Timeout (snd k))"
  have t: "timers_ok x tk" and k: "\<forall>k \<in> tk (ex_timer_wheel s). ?ok k"
    using inv by (auto simp: exec_inv_def)
  have ks: "\<forall>k \<in> set ks. ?ok k" and c: "\<forall>k \<in> tk c. ?ok k"
    using timers_okD(3,4) [OF t e] k by blast+
  have body: "exec_safe x K tk d
      (withM (\<lambda>s. catchM (route_to_process x (route_d x d) (envelope_new p (ex_pid s) Timeout cid))
         (\<lambda>_. ret ())))" if "(p, cid) \<in> set ks" for p cid
    using bspec [OF ks that] assms
    by (intro guarded_rules route_to_process_safe disjI2 route_d_metrics_safe)
       (auto simp: exec_inv_def exec_core_def sends_ok_def)
  have "exec_safe x K tk d (modM (\<lambda>s. s\<lparr>ex_timer_wheel := c\<rparr>))"
    using c by (intro guarded_mod) (auto simp: exec_inv_def exec_core_def sends_ok_def)
  then show "exec_safe x K tk d
     (let (expired, c) = wheel_expire x (ex_timer_wheel s) in
      seqM (modM (\<lambda>s. s\<lparr>ex_timer_wheel := c\<rparr>))
       (forM expired (\<lambda>(p, cid). withM (\<lambda>s.
          catchM (route_to_process x (route_d x d) (envelope_new p (ex_pid s) Timeout cid))
            (\<lambda>_. ret ())))))"
    unfolding e by (auto intro!: guarded_seq guarded_for body)
qed

lemma exec_dispatch_safe:
  assumes "exec_accepts K m"
  shows "exec_safe x K tk d (exec_dispatch x d m)"
proof (cases "2 \<le> d")
  case False
  then show ?thesis by (simp add: guarded_def triple_def exec_inv_def)
next
  case True
  show ?thesis
  proof (cases m)
    case (ExecEnvelope env)
    with assms True show ?thesis
      by (auto simp: exec_dispatch_def exec_envelope_def exec_inv_def exec_core_def sends_ok_def
          intro!: guarded_seq guarded_mod route_d_safe)
  qed (use assms True in \<open>auto simp: exec_dispatch_def exec_stop_def register_service_def
        exec_get_status_def exec_inv_def exec_core_def sends_ok_def
        intro!: guarded_rules guarded_mod exec_start_safe exec_tick_safe\<close>)
qed

lemma exec_handle_safe:
  assumes "exec_inv x K tk d s" and "exec_accepts K m" and "exec_handle x d m s = (st, s')"
  shows "case st of Crashed p \<Rightarrow> exec_stops x p s' | _ \<Rightarrow> exec_inv x K tk d s'"
proof -
  obtain r s1 where r: "exec_dispatch x d m s = (r, s1)" by fastforce
  note g = guardedD [OF exec_dispatch_safe [OF assms(2)] assms(1) r]
  from assms r g show ?thesis by (cases m; cases r) (auto simp: exec_handle_def)
qed

lemma exec_handle_core:
  assumes "core_at a s" and "exec_handle x d m s = (st, s')"
  shows "core_at a s'"
proof -
  obtain r s1 where r: "exec_dispatch x d m s = (r, s1)" by fastforce
  with keepsD [OF exec_dispatch_core assms(1) r] assms show ?thesis
    by (cases m; cases r) (auto simp: exec_handle_def)
qed

text \<open>The executor's thread as an instance of the loops that panic for a reason.\<close>

interpretation exec_loop:
  loop_contract "exec_handle x d" "\<lambda>m s. exec_accepts K m" "exec_inv x K tk d" "exec_stops x"
  for x :: "('t, 'q, 'c, 'x, 'w) exec_ext" and K tk d
  by unfold_locales (use exec_handle_safe in blast)

lemma executor_run_core:
  "core_at a s \<Longrightarrow> executor_run x d ms s = (st, s') \<Longrightarrow> core_at a s'"
  unfolding executor_run_def
  by (induction ms arbitrary: s) (auto dest: exec_handle_core split: prod.splits loop_status.splits)

lemma exec_accepted_run: "list_all (exec_accepts K) ms \<Longrightarrow> exec_loop.accepted_run x d K ms s"
  by (induction ms arbitrary: s) (auto split: prod.splits loop_status.splits)

end
