(* ===== verification/Actors.thy ===== *)
theory Actors
  imports ExecutorProps
begin

text \<open>
  What the processes of a node see of it, as an abstract machine: actors with mailboxes. A letter
  posted to an actor waits in its mailbox until it is taken; the actor then handles it and what it
  answers is posted, sent out of the node, or asked of the executor. Calls of the node's handle
  and ticks wait in the order in which they came. There are no threads, no nested calls and no wheel
  here: instead of the stack of \<open>route\<close> there is a list of jobs still to do, and instead of the
  timer wheel the set of timers that were started and may still fire.

  \<open>ActorSteps\<close> shows that the executor implements this machine, \<open>ActorClaims\<close> that every turn of
  a node is a run of it whose events are those of the turn. What the handlers and the services do
  is that of the same parameters.
\<close>

section \<open>The machine\<close>

text \<open>
  A job is what remains to be done with a letter: \<open>Deliver\<close> finds where it goes, \<open>Direct\<close> runs
  the actor it is for, \<open>Emit\<close> sends on what an actor answered, \<open>Ask\<close> is a request to the
  executor, \<open>Serve\<close> hands it to a service.
\<close>

datatype 't job =
    Deliver "'t envelope" | Direct "'t envelope" | Emit "'t envelope" | Ask "'t envelope"
  | Serve "'t envelope"

record ('t, 'q, 'x, 'w) actors =
  ac_state :: "pid \<Rightarrow> 'q option"
  ac_mail :: "pid \<Rightarrow> 't envelope list"
  ac_calls :: "('t, 'q, 'x) executor_msg list"
  ac_services :: "pid \<Rightarrow> 'x option"
  ac_world :: 'w
  ac_timers :: "timer_key set"
  ac_live :: bool
  ac_outbox :: "'t envelope list"
  ac_jobs :: "'t job list"

datatype ('t, 'q, 'x) actor_event =
    Incoming "'t envelope" | Asked "('t, 'q, 'x) executor_msg"
  | Posted "'t envelope" | Taken "'t envelope" | Handled "'t envelope" | Served "'t envelope"
  | Lost "'t envelope" | SentOut "'t envelope" | Carried "'t envelope"
  | Spawned pid 'q | Killed pid | Registered pid 'x | Reported correlation_id
  | Armed timer_key | Disarmed timer_key | Fired "timer_key list"
  | Ended | Internal

definition to_cluster_server :: "pid \<Rightarrow> bool" where
  "to_cluster_server p \<longleftrightarrow> pname p = ''cluster_server'' \<and> group p = Some ''rabble''"

definition hosted :: "node_id \<Rightarrow> ('t, 'q, 'x, 'w) actors \<Rightarrow> pid \<Rightarrow> bool" where
  "hosted n A p \<longleftrightarrow> p = executor_pid n \<or> to_cluster_server p \<or> ac_state A p \<noteq> None"

definition post :: "'t envelope \<Rightarrow> ('t, 'q, 'x, 'w) actors \<Rightarrow> ('t, 'q, 'x, 'w) actors" where
  "post e A = A\<lparr>ac_mail := (ac_mail A)(env_to e := ac_mail A (env_to e) @ [e])\<rparr>"

definition send_out :: "'t envelope \<Rightarrow> ('t, 'q, 'x, 'w) actors \<Rightarrow> ('t, 'q, 'x, 'w) actors" where
  "send_out e A = A\<lparr>ac_outbox := ac_outbox A @ [e]\<rparr>"

text \<open>
  The machine begins with a letter or with the oldest call only when no job is left, and with
  nothing once it has ended.
\<close>

inductive actor_begin ::
    "('t, 'q, 'c, 'x, 'w) exec_ext \<Rightarrow> node_id \<Rightarrow> ('t, 'q, 'x, 'w) actors \<Rightarrow> ('t, 'q, 'x) actor_event
      \<Rightarrow> ('t, 'q, 'x, 'w) actors \<Rightarrow> bool" for x n where
  take_letter: "ac_live A \<Longrightarrow> ac_jobs A = [] \<Longrightarrow> ac_mail A (env_to e) = e # es \<Longrightarrow>
    actor_begin x n A (Taken e) (A\<lparr>ac_mail := (ac_mail A)(env_to e := es), ac_jobs := [Deliver e]\<rparr>)"
| spawn: "ac_live A \<Longrightarrow> ac_jobs A = [] \<Longrightarrow> ac_calls A = Start p q # cs \<Longrightarrow>
    proc_init x (executor_pid n) q = Some (out, q') \<Longrightarrow>
    actor_begin x n A (Spawned p q)
      (A\<lparr>ac_calls := cs, ac_state := (ac_state A)(p \<mapsto> q'), ac_jobs := map Deliver out\<rparr>)"
| kill: "ac_live A \<Longrightarrow> ac_jobs A = [] \<Longrightarrow> ac_calls A = Stop p # cs \<Longrightarrow>
    actor_begin x n A (Killed p) (A\<lparr>ac_calls := cs, ac_state := (ac_state A)(p := None)\<rparr>)"
| register: "ac_live A \<Longrightarrow> ac_jobs A = [] \<Longrightarrow> ac_calls A = RegisterService p tx # cs \<Longrightarrow>
    actor_begin x n A (Registered p tx) (A\<lparr>ac_calls := cs, ac_services := (ac_services A)(p \<mapsto> tx)\<rparr>)"
| report: "ac_live A \<Longrightarrow> ac_jobs A = [] \<Longrightarrow> ac_calls A = ExecGetStatus cid # cs \<Longrightarrow>
    total_processes st = card (dom (ac_state A)) \<Longrightarrow> set (services st) = dom (ac_services A) \<Longrightarrow>
    actor_begin x n A (Reported cid) (A\<lparr>ac_calls := cs,
      ac_jobs := [Serve (envelope_new (cid_pid cid) (executor_pid n) (ExecutorStatus st) (Some cid))]\<rparr>)"
| fire: "ac_live A \<Longrightarrow> ac_jobs A = [] \<Longrightarrow> ac_calls A = Tick # cs \<Longrightarrow> set ks \<subseteq> ac_timers A \<Longrightarrow>
    ac_timers A - set ks \<subseteq> T \<Longrightarrow> T \<subseteq> ac_timers A \<Longrightarrow>
    actor_begin x n A (Fired ks)
      (A\<lparr>ac_calls := cs, ac_timers := T,
         ac_jobs := map (\<lambda>k. Direct (envelope_new (fst k) (executor_pid n) Timeout (snd k))) ks\<rparr>)"
| finish: "ac_live A \<Longrightarrow> ac_jobs A = [] \<Longrightarrow> ac_calls A = ExecShutdown # cs \<Longrightarrow>
    actor_begin x n A Ended (A\<lparr>ac_calls := cs, ac_live := False\<rparr>)"

text \<open>Each of the other steps does a part of the first job.\<close>

inductive actor_job ::
    "('t, 'q, 'c, 'x, 'w) exec_ext \<Rightarrow> node_id \<Rightarrow> ('t, 'q, 'x, 'w) actors \<Rightarrow> ('t, 'q, 'x) actor_event
      \<Rightarrow> ('t, 'q, 'x, 'w) actors \<Rightarrow> bool" for x n where
  deliver_out: "ac_jobs A = Deliver e # js \<Longrightarrow> node (env_to e) \<noteq> n \<Longrightarrow>
    actor_job x n A (SentOut e) (send_out e (A\<lparr>ac_jobs := js\<rparr>))"
| deliver_direct: "ac_jobs A = Deliver e # js \<Longrightarrow> node (env_to e) = n \<Longrightarrow> hosted n A (env_to e) \<Longrightarrow>
    actor_job x n A Internal (A\<lparr>ac_jobs := Direct e # js\<rparr>)"
| deliver_service: "ac_jobs A = Deliver e # js \<Longrightarrow> node (env_to e) = n \<Longrightarrow> \<not> hosted n A (env_to e) \<Longrightarrow>
    actor_job x n A Internal (A\<lparr>ac_jobs := Serve e # js\<rparr>)"
| direct_ask: "ac_jobs A = Direct e # js \<Longrightarrow> env_to e = executor_pid n \<Longrightarrow>
    actor_job x n A Internal (A\<lparr>ac_jobs := Ask e # js\<rparr>)"
| direct_cluster: "ac_jobs A = Direct e # js \<Longrightarrow> to_cluster_server (env_to e) \<Longrightarrow>
    actor_job x n A (SentOut e) (send_out e (A\<lparr>ac_jobs := js\<rparr>))"
| direct_run: "ac_jobs A = Direct e # js \<Longrightarrow> env_to e \<noteq> executor_pid n \<Longrightarrow>
    \<not> to_cluster_server (env_to e) \<Longrightarrow> ac_state A (env_to e) = Some q \<Longrightarrow>
    proc_handle x (env_msg e) (env_from e) (env_cid e) [] q = Some (out, q') \<Longrightarrow>
    actor_job x n A (Handled e)
      (A\<lparr>ac_state := (ac_state A)(env_to e \<mapsto> q'), ac_jobs := map Emit out @ js\<rparr>)"
| direct_lost: "ac_jobs A = Direct e # js \<Longrightarrow> \<not> hosted n A (env_to e) \<Longrightarrow>
    actor_job x n A (Lost e) (A\<lparr>ac_jobs := js\<rparr>)"
| emit_ask: "ac_jobs A = Emit e # js \<Longrightarrow> env_to e = executor_pid n \<Longrightarrow>
    actor_job x n A Internal (A\<lparr>ac_jobs := Ask e # js\<rparr>)"
| emit_post: "ac_jobs A = Emit e # js \<Longrightarrow> env_to e \<noteq> executor_pid n \<Longrightarrow> node (env_to e) = n \<Longrightarrow>
    actor_job x n A (Posted e) (post e (A\<lparr>ac_jobs := js\<rparr>))"
| emit_out: "ac_jobs A = Emit e # js \<Longrightarrow> node (env_to e) \<noteq> n \<Longrightarrow>
    actor_job x n A (SentOut e) (send_out e (A\<lparr>ac_jobs := js\<rparr>))"
| ask_timer: "ac_jobs A = Ask e # js \<Longrightarrow> env_msg e = StartTimer ms \<Longrightarrow>
    actor_job x n A (Armed (env_from e, env_cid e))
      (A\<lparr>ac_timers := insert (env_from e, env_cid e) (ac_timers A), ac_jobs := js\<rparr>)"
| ask_cancel: "ac_jobs A = Ask e # js \<Longrightarrow> env_msg e = CancelTimer c \<Longrightarrow>
    actor_job x n A (Disarmed (env_from e, c))
      (A\<lparr>ac_timers := ac_timers A - {(env_from e, c)}, ac_jobs := js\<rparr>)"
| ask_metrics: "ac_jobs A = Ask e # js \<Longrightarrow> env_msg e = GetMetrics \<Longrightarrow>
    actor_job x n A Internal
      (A\<lparr>ac_jobs := Deliver (envelope_new (env_from e) (executor_pid n) (Metrics d) (env_cid e)) # js\<rparr>)"
| ask_other: "ac_jobs A = Ask e # js \<Longrightarrow> env_msg e \<noteq> GetMetrics \<Longrightarrow>
    (\<And>ms. env_msg e \<noteq> StartTimer ms) \<Longrightarrow> (\<And>c. env_msg e \<noteq> CancelTimer c) \<Longrightarrow>
    actor_job x n A (Lost e) (A\<lparr>ac_jobs := js\<rparr>)"
| serve: "ac_jobs A = Serve e # js \<Longrightarrow> ac_services A (env_to e) = Some tx \<Longrightarrow>
    svc_send x tx e (ac_world A) = (True, w) \<Longrightarrow>
    actor_job x n A (Served e) (A\<lparr>ac_world := w, ac_jobs := js\<rparr>)"
| serve_lost: "ac_jobs A = Serve e # js \<Longrightarrow> ac_services A (env_to e) = None \<Longrightarrow>
    actor_job x n A (Lost e) (A\<lparr>ac_jobs := js\<rparr>)"

text \<open>Letters and calls come from outside, and what is sent out is carried away, at any time.\<close>

fun queued :: "('t, 'q, 'x) executor_msg \<Rightarrow> 't envelope list" where
  "queued (ExecEnvelope e) = [e]"
| "queued _ = []"

inductive actor_step ::
    "('t, 'q, 'c, 'x, 'w) exec_ext \<Rightarrow> node_id \<Rightarrow> ('t, 'q, 'x, 'w) actors \<Rightarrow> ('t, 'q, 'x) actor_event
      \<Rightarrow> ('t, 'q, 'x, 'w) actors \<Rightarrow> bool" for x n where
  starts: "actor_begin x n A ev A' \<Longrightarrow> actor_step x n A ev A'"
| works: "actor_job x n A ev A' \<Longrightarrow> actor_step x n A ev A'"
| arrives: "actor_step x n A (Incoming e) (post e A)"
| asked: "queued m = [] \<Longrightarrow> actor_step x n A (Asked m) (A\<lparr>ac_calls := ac_calls A @ [m]\<rparr>)"
| carry: "ac_outbox A = e # es \<Longrightarrow> actor_step x n A (Carried e) (A\<lparr>ac_outbox := es\<rparr>)"

inductive runs :: "('a \<Rightarrow> 'e \<Rightarrow> 'a \<Rightarrow> bool) \<Rightarrow> 'a \<Rightarrow> 'e list \<Rightarrow> 'a \<Rightarrow> bool" for R where
  idle: "runs R A [] A"
| move: "R A ev A' \<Longrightarrow> runs R A' tr A'' \<Longrightarrow> runs R A (ev # tr) A''"

abbreviation actor_jobs ::
    "('t, 'q, 'c, 'x, 'w) exec_ext \<Rightarrow> node_id \<Rightarrow> ('t, 'q, 'x, 'w) actors \<Rightarrow> ('t, 'q, 'x) actor_event list
      \<Rightarrow> ('t, 'q, 'x, 'w) actors \<Rightarrow> bool" where
  "actor_jobs x n \<equiv> runs (actor_job x n)"

abbreviation actor_run ::
    "('t, 'q, 'c, 'x, 'w) exec_ext \<Rightarrow> node_id \<Rightarrow> ('t, 'q, 'x, 'w) actors \<Rightarrow> ('t, 'q, 'x) actor_event list
      \<Rightarrow> ('t, 'q, 'x, 'w) actors \<Rightarrow> bool" where
  "actor_run x n \<equiv> runs (actor_step x n)"

lemma runs_append:
  assumes "runs R A tr A'"
  shows "runs R A' tr' A'' \<Longrightarrow> runs R A (tr @ tr') A''"
  using assms by (induction rule: runs.induct) (auto intro: move)

lemma runs1: "R A ev A' \<Longrightarrow> runs R A [ev] A'"
  by (rule move [OF _ idle])

lemmas jobs_idle = idle [of "actor_job x n" for x n]
lemmas jobs_move = move [of "actor_job x n" for x n]
lemmas jobs1 = runs1 [of "actor_job x n" for x n]
lemmas run_idle = idle [of "actor_step x n" for x n]
lemmas run1 = runs1 [of "actor_step x n" for x n]

lemma jobs_run: "actor_jobs x n A tr A' \<Longrightarrow> actor_run x n A tr A'"
  by (induction rule: runs.induct) (auto intro: idle move works)

section \<open>What every run of it guarantees\<close>

text \<open>
  Letters: an actor takes what was posted to it in the order it was posted, each letter once, and
  what it has not taken is in its mailbox. The same holds for what is sent out of the node, and for
  the calls.
\<close>

fun posted_to :: "pid \<Rightarrow> ('t, 'q, 'x) actor_event \<Rightarrow> 't envelope list" where
  "posted_to p (Posted e) = (if env_to e = p then [e] else [])"
| "posted_to p (Incoming e) = (if env_to e = p then [e] else [])"
| "posted_to p _ = []"

fun taken_by :: "pid \<Rightarrow> ('t, 'q, 'x) actor_event \<Rightarrow> 't envelope list" where
  "taken_by p (Taken e) = (if env_to e = p then [e] else [])"
| "taken_by p _ = []"

fun sent_out :: "('t, 'q, 'x) actor_event \<Rightarrow> 't envelope list" where
  "sent_out (SentOut e) = [e]"
| "sent_out _ = []"

fun carried :: "('t, 'q, 'x) actor_event \<Rightarrow> 't envelope list" where
  "carried (Carried e) = [e]"
| "carried _ = []"

fun asked_for :: "('t, 'q, 'x) actor_event \<Rightarrow> ('t, 'q, 'x) executor_msg list" where
  "asked_for (Asked m) = [m]"
| "asked_for _ = []"

fun answered :: "('t, 'q, 'x) actor_event \<Rightarrow> ('t, 'q, 'x) executor_msg list" where
  "answered (Spawned p q) = [Start p q]"
| "answered (Killed p) = [Stop p]"
| "answered (Registered p tx) = [RegisterService p tx]"
| "answered (Reported cid) = [ExecGetStatus cid]"
| "answered (Fired ks) = [Tick]"
| "answered Ended = [ExecShutdown]"
| "answered _ = []"

definition in_order ::
    "('t, 'q, 'x, 'w) actors \<Rightarrow> ('t, 'q, 'x) actor_event list \<Rightarrow> ('t, 'q, 'x, 'w) actors \<Rightarrow> bool" where
  "in_order A tr A' \<longleftrightarrow>
     (\<forall>p. ac_mail A p @ concat (map (posted_to p) tr) = concat (map (taken_by p) tr) @ ac_mail A' p)
     \<and> ac_outbox A @ concat (map sent_out tr) = concat (map carried tr) @ ac_outbox A'
     \<and> ac_calls A @ concat (map asked_for tr) = concat (map answered tr) @ ac_calls A'"

lemma actor_step_in_order:
  assumes "actor_step x n A ev A'"
  shows "ac_mail A p @ posted_to p ev = taken_by p ev @ ac_mail A' p"
    and "ac_outbox A @ sent_out ev = carried ev @ ac_outbox A'"
    and "ac_calls A @ asked_for ev = answered ev @ ac_calls A'"
  using assms by (cases rule: actor_step.cases; (elim actor_begin.cases actor_job.cases)?; simp add: post_def send_out_def)+

lemma actor_run_in_order: "actor_run x n A tr A' \<Longrightarrow> in_order A tr A'"
proof (induction rule: runs.induct)
  case (move A ev A' tr A'')
  note s = actor_step_in_order [OF move.hyps(1)]
  have "ac_mail A p @ posted_to p ev @ concat (map (posted_to p) tr)
      = taken_by p ev @ concat (map (taken_by p) tr) @ ac_mail A'' p" for p
    using s(1) [of p] move.IH unfolding in_order_def by (metis append.assoc)
  moreover have "ac_outbox A @ sent_out ev @ concat (map sent_out tr)
      = carried ev @ concat (map carried tr) @ ac_outbox A''"
    using s(2) move.IH unfolding in_order_def by (metis append.assoc)
  moreover have "ac_calls A @ asked_for ev @ concat (map asked_for tr)
      = answered ev @ concat (map answered tr) @ ac_calls A''"
    using s(3) move.IH unfolding in_order_def by (metis append.assoc)
  ultimately show ?case by (simp add: in_order_def)
qed (simp add: in_order_def)

text \<open>Timers: one fires only if it was started and not cancelled since.\<close>

fun timely :: "timer_key set \<Rightarrow> ('t, 'q, 'x) actor_event list \<Rightarrow> bool" where
  "timely K [] \<longleftrightarrow> True"
| "timely K (Armed k # tr) \<longleftrightarrow> timely (insert k K) tr"
| "timely K (Disarmed k # tr) \<longleftrightarrow> timely (K - {k}) tr"
| "timely K (Fired ks # tr) \<longleftrightarrow> set ks \<subseteq> K \<and> timely K tr"
| "timely K (ev # tr) \<longleftrightarrow> timely K tr"

lemma timely_mono: "timely K tr \<Longrightarrow> K \<subseteq> L \<Longrightarrow> timely L tr"
proof (induction K tr arbitrary: L rule: timely.induct)
  case (2 K k tr)
  then show ?case by (metis insert_mono timely.simps(2))
next
  case (3 K k tr)
  then show ?case by (metis Diff_mono order_refl timely.simps(3))
qed auto

lemma actor_run_timely: "actor_run x n A tr A' \<Longrightarrow> timely (ac_timers A) tr"
proof (induction rule: runs.induct)
  case (move A ev A' tr A'')
  from move.hyps(1) show ?case
  proof cases
    case starts
    then show ?thesis by cases (use move.IH timely_mono in \<open>auto simp: post_def send_out_def\<close>)
  next
    case works
    then show ?thesis by cases (use move.IH timely_mono in \<open>auto simp: post_def send_out_def\<close>)
  qed (use move.IH in \<open>simp_all add: post_def\<close>)
qed simp

end
