(* ===== verification/ActorSteps.thy ===== *)
theory ActorSteps
  imports Actors
begin

text \<open>
  The executor implements the actor machine: whatever it does with a message without a panic is
  matched by steps of the machine, in the same order. The recursion of \<open>route\<close>, through the
  replies of \<open>send_metrics\<close> and the outputs of the processes they run, becomes the list of jobs.
\<close>

section \<open>The executor as an actor machine\<close>

text \<open>
  \<open>q\<close> and \<open>cq\<close> are what the executor's and the cluster server's channels hold already, \<open>G\<close> the
  timers that were started and may still fire.
\<close>

fun outgoing :: "'t cluster_msg \<Rightarrow> 't envelope list" where
  "outgoing (ClusterEnvelope e) = [e]"
| "outgoing _ = []"

definition mailbox :: "('t, 'q, 'x) executor_msg list \<Rightarrow> pid \<Rightarrow> 't envelope list" where
  "mailbox q p = filter (\<lambda>e. env_to e = p) (concat (map queued q))"

lemma mailbox_append [simp]: "mailbox (q @ q') p = mailbox q p @ mailbox q' p"
  by (simp add: mailbox_def)

definition calls_in :: "('t, 'q, 'x) executor_msg list \<Rightarrow> ('t, 'q, 'x) executor_msg list" where
  "calls_in q = filter (\<lambda>m. queued m = []) q"

lemma calls_in_simps [simp]:
  "calls_in [] = []" "calls_in (m # q) = (if queued m = [] then m # calls_in q else calls_in q)"
  "calls_in (q @ q') = calls_in q @ calls_in q'"
  by (simp_all add: calls_in_def)

lemma mailbox_other: "queued m = [] \<Longrightarrow> mailbox (m # q) = mailbox q"
  by (simp add: mailbox_def fun_eq_iff)

lemma mailbox_envelope: "mailbox [ExecEnvelope e] p = (if env_to e = p then [e] else [])"
  by (simp add: mailbox_def)

definition actors_of ::
    "timer_key set \<Rightarrow> ('t, 'q, 'x) executor_msg list \<Rightarrow> 't cluster_msg list
      \<Rightarrow> ('t, 'q, 'c, 'x, 'w) executor \<Rightarrow> 't job list \<Rightarrow> ('t, 'q, 'x, 'w) actors" where
  "actors_of G q cq s js =
     \<lparr>ac_state = hm_get (processes s), ac_mail = mailbox (q @ ex_tx s), ac_calls = calls_in (q @ ex_tx s),
      ac_services = hm_get (service_senders s), ac_world = ex_world s, ac_timers = G, ac_live = True,
      ac_outbox = concat (map outgoing (cq @ sent (cluster_tx s))), ac_jobs = js\<rparr>"

lemma actors_of_sel [simp]:
  "ac_state (actors_of G q cq s js) = hm_get (processes s)"
  "ac_mail (actors_of G q cq s js) = mailbox (q @ ex_tx s)"
  "ac_calls (actors_of G q cq s js) = calls_in (q @ ex_tx s)"
  "ac_services (actors_of G q cq s js) = hm_get (service_senders s)"
  "ac_world (actors_of G q cq s js) = ex_world s"
  "ac_timers (actors_of G q cq s js) = G"
  "ac_live (actors_of G q cq s js)"
  "ac_jobs (actors_of G q cq s js) = js"
  by (simp_all add: actors_of_def)

text \<open>
  The timer wheel fires only timers that were started, and none that was stopped since.
\<close>

definition timers_exact ::
    "('t, 'q, 'c, 'x, 'w) exec_ext \<Rightarrow> ('c \<Rightarrow> timer_key set) \<Rightarrow> bool" where
  "timers_exact x tk \<longleftrightarrow> timers_ok x tk \<and> (\<forall>k c. tk (wheel_stop x k c) \<subseteq> tk c - {k})"

text \<open>
  More generally \<open>R\<close> relates the timers that were started, neither stopped nor fired, to the wheel.
  A wheel that keeps every timer until it fires is described by an equation, one that may lose
  timers by an inclusion.
\<close>

definition timers_sim ::
    "('t, 'q, 'c, 'x, 'w) exec_ext \<Rightarrow> (timer_key set \<Rightarrow> 'c \<Rightarrow> bool) \<Rightarrow> bool" where
  "timers_sim x R \<longleftrightarrow> R {} (wheel_new x)
     \<and> (\<forall>G c k ms. R G c \<longrightarrow> R (insert k G) (wheel_start x k ms c))
     \<and> (\<forall>G c k. R G c \<longrightarrow> R (G - {k}) (wheel_stop x k c))
     \<and> (\<forall>G c. R G c \<longrightarrow> set (fst (wheel_expire x c)) \<subseteq> G
          \<and> (\<exists>G'. G - set (fst (wheel_expire x c)) \<subseteq> G' \<and> G' \<subseteq> G \<and> R G' (snd (wheel_expire x c))))"

lemma timers_simD:
  assumes "timers_sim x R"
  shows "R {} (wheel_new x)"
    and "R G c \<Longrightarrow> R (insert k G) (wheel_start x k ms c)"
    and "R G c \<Longrightarrow> R (G - {k}) (wheel_stop x k c)"
    and "R G c \<Longrightarrow> wheel_expire x c = (ks, c') \<Longrightarrow>
      set ks \<subseteq> G \<and> (\<exists>G'. G - set ks \<subseteq> G' \<and> G' \<subseteq> G \<and> R G' c')"
proof -
  note sim = assms [unfolded timers_sim_def]
  show "R {} (wheel_new x)" by (rule sim [THEN conjunct1])
  show "R G c \<Longrightarrow> R (insert k G) (wheel_start x k ms c)"
    by (rule sim [THEN conjunct2, THEN conjunct1, rule_format])
  show "R G c \<Longrightarrow> R (G - {k}) (wheel_stop x k c)"
    by (rule sim [THEN conjunct2, THEN conjunct2, THEN conjunct1, rule_format])
  assume "R G c" and e: "wheel_expire x c = (ks, c')"
  from sim [THEN conjunct2, THEN conjunct2, THEN conjunct2, rule_format, OF this(1)]
  show "set ks \<subseteq> G \<and> (\<exists>G'. G - set ks \<subseteq> G' \<and> G' \<subseteq> G \<and> R G' c')" by (simp only: e fst_conv snd_conv)
qed

lemma timers_exact_sim:
  assumes "timers_exact x tk"
  shows "timers_sim x (\<lambda>G c. tk c \<subseteq> G)"
proof -
  have tk: "tk (wheel_new x) \<subseteq> {}" "tk (wheel_start x k ms c) \<subseteq> insert k (tk c)"
    "tk (wheel_stop x k c) \<subseteq> tk c - {k}" "set (fst (wheel_expire x c)) \<subseteq> tk c"
    "tk (snd (wheel_expire x c)) \<subseteq> tk c" for k ms c
    using assms unfolding timers_exact_def timers_ok_def by blast+
  have "tk (wheel_start x k ms c) \<subseteq> insert k G" "tk (wheel_stop x k c) \<subseteq> G - {k}"
    "set (fst (wheel_expire x c)) \<subseteq> G" "tk (snd (wheel_expire x c)) \<subseteq> G" if "tk c \<subseteq> G" for G c k ms
    using that tk(2) [of k ms c] tk(3) [of k c] tk(4,5) [of c] by blast+
  note step = this
  show ?thesis
    unfolding timers_sim_def
  proof (intro conjI allI impI)
    fix G c assume "tk c \<subseteq> G"
    with step(4) show "\<exists>G'. G - set (fst (wheel_expire x c)) \<subseteq> G' \<and> G' \<subseteq> G \<and> tk (snd (wheel_expire x c)) \<subseteq> G'"
      by (intro exI [of _ G]) simp
  qed (rule tk(1) step; assumption)+
qed

section \<open>Actions that do a list of jobs\<close>

definition exec_on :: "node_id \<Rightarrow> ('t, 'q, 'c, 'x, 'w) executor \<Rightarrow> bool" where
  "exec_on n s \<longleftrightarrow> exec_core s \<and> ex_node s = n"

lemma exec_on_pid: "exec_on n s \<Longrightarrow> ex_pid s = executor_pid n"
  by (simp add: exec_on_def exec_core_def)

text \<open>From a state of the executor, the action does the jobs \<open>J\<close>, and it returns no error.\<close>

definition does_at ::
    "('t, 'q, 'c, 'x, 'w) exec_ext \<Rightarrow> node_id \<Rightarrow> (timer_key set \<Rightarrow> 'c \<Rightarrow> bool) \<Rightarrow> 't job list
      \<Rightarrow> ('t, 'q, 'c, 'x, 'w, unit) eact \<Rightarrow> ('t, 'q, 'c, 'x, 'w) executor \<Rightarrow> bool" where
  "does_at x n R J m s \<longleftrightarrow> (\<forall>r s'. m s = (r, s') \<longrightarrow> \<not> is_panic r \<longrightarrow>
     r = Ok () \<and> exec_on n s' \<and>
     (\<forall>q cq js G. R G (ex_timer_wheel s) \<longrightarrow> (\<exists>tr G'. R G' (ex_timer_wheel s')
        \<and> actor_jobs x n (actors_of G q cq s (J @ js)) tr (actors_of G' q cq s' js))))"

definition does ::
    "('t, 'q, 'c, 'x, 'w) exec_ext \<Rightarrow> node_id \<Rightarrow> (timer_key set \<Rightarrow> 'c \<Rightarrow> bool) \<Rightarrow> 't job list
      \<Rightarrow> ('t, 'q, 'c, 'x, 'w, unit) eact \<Rightarrow> bool" where
  "does x n R J m \<longleftrightarrow> (\<forall>s. exec_on n s \<longrightarrow> does_at x n R J m s)"

lemma doesI: "(\<And>s. exec_on n s \<Longrightarrow> does_at x n R J m s) \<Longrightarrow> does x n R J m"
  by (simp add: does_def)

lemma does_atD:
  assumes "does_at x n R J m s" and "m s = (r, s')" and "\<not> is_panic r"
  shows "r = Ok ()" and "exec_on n s'"
    and "R G (ex_timer_wheel s) \<Longrightarrow> \<exists>tr G'. R G' (ex_timer_wheel s')
      \<and> actor_jobs x n (actors_of G q cq s (J @ js)) tr (actors_of G' q cq s' js)"
  using assms unfolding does_at_def by blast+

lemma doesD:
  assumes "does x n R J m" and "exec_on n s" and "m s = (r, s')" and "\<not> is_panic r"
  shows "r = Ok ()" and "exec_on n s'"
    and "R G (ex_timer_wheel s) \<Longrightarrow> \<exists>tr G'. R G' (ex_timer_wheel s')
      \<and> actor_jobs x n (actors_of G q cq s (J @ js)) tr (actors_of G' q cq s' js)"
proof -
  have "does_at x n R J m s" using assms(1,2) by (simp add: does_def)
  from does_atD [OF this assms(3,4)] show "r = Ok ()" and "exec_on n s'"
    and "R G (ex_timer_wheel s) \<Longrightarrow> \<exists>tr G'. R G' (ex_timer_wheel s')
      \<and> actor_jobs x n (actors_of G q cq s (J @ js)) tr (actors_of G' q cq s' js)" .
qed

lemma does_with: "(\<And>s. exec_on n s \<Longrightarrow> does_at x n R J (f s) s) \<Longrightarrow> does x n R J (withM f)"
  by (simp add: does_def does_at_def withM_def)

lemma does_at: "does x n R J m \<Longrightarrow> exec_on n s \<Longrightarrow> does_at x n R J m s"
  by (simp add: does_def)

lemma does_at_seq:
  assumes "does_at x n R J m s" and "does x n R K k"
  shows "does_at x n R (J @ K) (seqM m k) s"
  unfolding does_at_def
proof (intro allI impI)
  fix r s' assume r: "seqM m k s = (r, s')" "\<not> is_panic r"
  obtain r1 s1 where m: "m s = (r1, s1)" by fastforce
  with r have p1: "\<not> is_panic r1" by (cases r1) (auto simp: act_defs)
  note d1 = does_atD [OF assms(1) m p1]
  then have k: "k s1 = (r, s')" using m r(1) by (simp add: act_defs)
  note d2 = doesD [OF assms(2) d1(2) k r(2)]
  have "\<exists>tr G'. R G' (ex_timer_wheel s')
      \<and> actor_jobs x n (actors_of G q cq s ((J @ K) @ js)) tr (actors_of G' q cq s' js)"
    if G: "R G (ex_timer_wheel s)" for q cq js G
  proof -
    obtain tr1 G1 where 1: "R G1 (ex_timer_wheel s1)"
      "actor_jobs x n (actors_of G q cq s (J @ K @ js)) tr1 (actors_of G1 q cq s1 (K @ js))"
      using d1(3) [OF G] by blast
    obtain tr2 G2 where 2: "R G2 (ex_timer_wheel s')"
      "actor_jobs x n (actors_of G1 q cq s1 (K @ js)) tr2 (actors_of G2 q cq s' js)"
      using d2(3) [OF 1(1)] by blast
    from runs_append [OF 1(2) 2(2)] 2(1) show ?thesis by (metis append.assoc)
  qed
  with d2(1,2) show "r = Ok () \<and> exec_on n s' \<and>
     (\<forall>q cq js G. R G (ex_timer_wheel s) \<longrightarrow> (\<exists>tr G'. R G' (ex_timer_wheel s')
        \<and> actor_jobs x n (actors_of G q cq s ((J @ K) @ js)) tr (actors_of G' q cq s' js)))"
    by blast
qed

lemma does_seq: "does x n R J m \<Longrightarrow> does x n R K k \<Longrightarrow> does x n R (J @ K) (seqM m k)"
  unfolding does_def using does_at_seq unfolding does_def by blast

lemma does_ret: "does x n R [] (ret ())"
  by (auto simp: does_def does_at_def ret_def intro: jobs_idle)

lemma does_for: "(\<And>y. y \<in> set ys \<Longrightarrow> does x n R [J y] (f y)) \<Longrightarrow> does x n R (map J ys) (forM ys f)"
proof (induction ys)
  case (Cons y ys)
  then show ?case using does_seq [of x n R "[J y]" "f y" "map J ys" "forM ys f"] by simp
qed (simp add: does_ret)

lemma does_panic: "is_panic (fst (m s)) \<Longrightarrow> does_at x n R J m s"
  by (auto simp: does_at_def)

text \<open>One step of the machine may come before the rest.\<close>

lemma does_at_after:
  assumes "\<And>q cq js G. actor_job x n (actors_of G q cq s (J @ js)) ev (actors_of G q cq s1 (K @ js))"
    and "does_at x n R K k s1" and "m s = k s1" and "ex_timer_wheel s1 = ex_timer_wheel s"
  shows "does_at x n R J m s"
  unfolding does_at_def
proof (intro allI impI)
  fix r s' assume r: "m s = (r, s')" "\<not> is_panic r"
  then have "k s1 = (r, s')" using assms(3) by simp
  note d = does_atD [OF assms(2) this r(2)]
  have "\<exists>tr G'. R G' (ex_timer_wheel s')
      \<and> actor_jobs x n (actors_of G q cq s (J @ js)) tr (actors_of G' q cq s' js)"
    if "R G (ex_timer_wheel s)" for q cq js G
    using d(3) [of G q cq js] that assms(4) jobs_move [OF assms(1)] by fastforce
  with d(1,2) show "r = Ok () \<and> exec_on n s' \<and>
     (\<forall>q cq js G. R G (ex_timer_wheel s) \<longrightarrow> (\<exists>tr G'. R G' (ex_timer_wheel s')
        \<and> actor_jobs x n (actors_of G q cq s (J @ js)) tr (actors_of G' q cq s' js)))"
    by blast
qed

lemma does_at_step:
  assumes "\<And>q cq js G. actor_job x n (actors_of G q cq s (J @ js)) ev (actors_of G q cq s (K @ js))"
    and "does_at x n R K m s"
  shows "does_at x n R J m s"
  by (rule does_at_after [OF assms]) simp_all

text \<open>An action that is one step of the machine.\<close>

lemma does_at_timer:
  assumes "\<And>q cq js G. R G (ex_timer_wheel s) \<Longrightarrow> R (g G) (ex_timer_wheel s')"
    and "\<And>q cq js G. actor_job x n (actors_of G q cq s (J @ js)) ev (actors_of (g G) q cq s' js)"
    and "m s = (Ok (), s')" and "exec_on n s'"
  shows "does_at x n R J m s"
  using assms jobs1 [OF assms(2)] unfolding does_at_def by (metis Pair_inject)

lemma does_at_done:
  assumes "\<And>q cq js G. actor_job x n (actors_of G q cq s (J @ js)) ev (actors_of G q cq s' js)"
    and "m s = (Ok (), s')" and "exec_on n s'" and "ex_timer_wheel s' = ex_timer_wheel s"
  shows "does_at x n R J m s"
  using does_at_timer [where g = "\<lambda>G. G" and s' = s', of R s x n J ev m] assms by simp

section \<open>Routing\<close>

lemma exec_on_frame [simp]:
  "exec_on n (s\<lparr>cluster_tx := ch\<rparr>) = exec_on n s" "exec_on n (s\<lparr>ex_world := w\<rparr>) = exec_on n s"
  "exec_on n (s\<lparr>ex_tx := t\<rparr>) = exec_on n s" "exec_on n (s\<lparr>ex_metrics := m\<rparr>) = exec_on n s"
  "exec_on n (s\<lparr>ex_timer_wheel := c\<rparr>) = exec_on n s"
  by (simp_all add: exec_on_def exec_core_def)

lemma actors_of_metrics [simp]:
  "actors_of G q cq (s\<lparr>ex_metrics := m\<rparr>) js = actors_of G q cq s js"
  by (simp add: actors_of_def)

lemma cluster_send_does:
  assumes "\<And>q cq js G. actor_job x n (actors_of G q cq s (J @ js)) (SentOut e)
      (send_out e (actors_of G q cq s (J @ js)\<lparr>ac_jobs := js\<rparr>))"
    and "exec_on n s"
  shows "does_at x n R J (cluster_send e) s"
proof -
  have e: "actors_of G q cq s' js = send_out e (actors_of G q cq s (J @ js)\<lparr>ac_jobs := js\<rparr>)"
    if "cluster_send e s = (Ok (), s')" for s' q cq js G
    using that by (auto simp: cluster_send_def chan_send_def actors_of_def send_out_def split: if_splits)
  show ?thesis
  proof (cases "cluster_send e s")
    case (Pair r s')
    show ?thesis
    proof (cases r)
      case (Ok u)
      with Pair have s': "cluster_send e s = (Ok (), s')" by simp
      show ?thesis
        by (rule does_at_done [where s' = s' and ev = "SentOut e"])
           (use assms e [OF s'] s' in \<open>auto simp: cluster_send_def chan_send_def split: if_splits\<close>)
    qed (use Pair in \<open>auto simp: does_at_def cluster_send_def chan_send_def split: if_splits\<close>)
  qed
qed

lemma route_to_service_does:
  fixes x :: "('t, 'q, 'c, 'x, 'w) exec_ext"
  shows "does x n R [Serve e] (route_to_service x e)"
proof (rule doesI)
  fix s :: "('t, 'q, 'c, 'x, 'w) executor" assume s: "exec_on n s"
  show "does_at x n R [Serve e] (route_to_service x e) s"
  proof (cases "hm_get (service_senders s) (env_to e)")
    case None
    have "actor_job x n (actors_of G q cq s ([Serve e] @ js)) (Lost e) (actors_of G q cq s js)" for q cq js G
      using serve_lost [of "actors_of G q cq s ([Serve e] @ js)" e js x n] None
      by (simp add: actors_of_def)
    with None s show ?thesis
      by (intro does_at_done) (assumption, simp_all add: route_to_service_def)
  next
    case (Some tx)
    obtain ok w where sv: "svc_send x tx e (ex_world s) = (ok, w)" by fastforce
    have "actor_job x n (actors_of G q cq s ([Serve e] @ js)) (Served e)
        (actors_of G q cq (s\<lparr>ex_world := w\<rparr>) js)" if "ok" for q cq js G
      using serve [of "actors_of G q cq s ([Serve e] @ js)" e js tx x w n] Some sv that
      by (simp add: actors_of_def)
    moreover have "route_to_service x e s
        = (if ok then (Ok (), s\<lparr>ex_world := w\<rparr>) else (Panic ''tx.send'', s\<lparr>ex_world := w\<rparr>))"
      using Some sv by (simp add: route_to_service_def)
    ultimately show ?thesis
      using s by (cases ok) (intro does_at_done, assumption, simp_all add: does_at_def)
  qed
qed

lemma send_metrics_does:
  fixes x :: "('t, 'q, 'c, 'x, 'w) exec_ext"
  assumes "\<And>e. does x n R [Deliver e] (rt e)" and "env_msg e = GetMetrics"
  shows "does x n R [Ask e] (exec_send_metrics rt (env_from e) (env_cid e))"
proof (rule doesI)
  fix s :: "('t, 'q, 'c, 'x, 'w) executor" assume s: "exec_on n s"
  let ?s = "s\<lparr>ex_metrics := (ex_metrics s)\<lparr>processes_m := of_nat (length (processes s)),
    services_m := of_nat (length (service_senders s))\<rparr>\<rparr>"
  let ?e = "envelope_new (env_from e) (executor_pid n) (Metrics (executor_metrics_data (ex_metrics ?s)))
    (env_cid e)"
  have "exec_send_metrics rt (env_from e) (env_cid e) s = rt ?e ?s"
    using exec_on_pid [OF s] by (simp add: exec_send_metrics_def act_defs envelope_new_def)
  moreover have "does_at x n R [Ask e] (rt ?e) ?s"
  proof (rule does_at_step)
    show "does_at x n R [Deliver ?e] (rt ?e) ?s" using does_at [OF assms(1)] s by simp
    show "actor_job x n (actors_of G q cq ?s ([Ask e] @ js)) Internal
        (actors_of G q cq ?s ([Deliver ?e] @ js))" for q cq js G
      using ask_metrics [of "actors_of G q cq ?s ([Ask e] @ js)" e js x n "executor_metrics_data (ex_metrics ?s)"]
        assms(2)
      by (simp add: actors_of_def)
  qed
  ultimately show "does_at x n R [Ask e] (exec_send_metrics rt (env_from e) (env_cid e)) s"
    by (simp add: does_at_def)
qed

lemma handle_executor_envelope_does:
  fixes x :: "('t, 'q, 'c, 'x, 'w) exec_ext"
  assumes x: "timers_sim x R" and rt: "\<And>e. does x n R [Deliver e] (rt e)"
  shows "does x n R [Ask e] (handle_executor_envelope x rt e)"
proof -
  have other: "does x n R [Ask e] (ret ())"
    if "env_msg e \<noteq> GetMetrics" "\<And>ms. env_msg e \<noteq> StartTimer ms" "\<And>c. env_msg e \<noteq> CancelTimer c"
  proof (rule doesI)
    fix s :: "('t, 'q, 'c, 'x, 'w) executor" assume "exec_on n s"
    moreover have "actor_job x n (actors_of G q cq s ([Ask e] @ js)) (Lost e) (actors_of G q cq s js)" for q cq js G
      using ask_other [of "actors_of G q cq s ([Ask e] @ js)" e js x n] that by (simp add: actors_of_def)
    ultimately show "does_at x n R [Ask e] (ret ()) s"
      by (intro does_at_done) (assumption, simp_all add: ret_def)
  qed
  show ?thesis
  proof (cases "env_msg e")
    case (StartTimer ms)
    show ?thesis
    proof (rule doesI)
      fix s :: "('t, 'q, 'c, 'x, 'w) executor" assume s: "exec_on n s"
      let ?c = "wheel_start x (env_from e, env_cid e) (sint ms) (ex_timer_wheel s)"
      have "actor_job x n (actors_of G q cq s ([Ask e] @ js)) (Armed (env_from e, env_cid e))
          (actors_of (insert (env_from e, env_cid e) G) q cq (s\<lparr>ex_timer_wheel := ?c, ex_metrics := m\<rparr>) js)"
        for q cq js G m
        using ask_timer [of "actors_of G q cq s ([Ask e] @ js)" e js ms x n] StartTimer
        by (simp add: actors_of_def)
      from does_at_timer [where R = R and g = "insert (env_from e, env_cid e)", OF _ this] timers_simD(2) [OF x]
      show "does_at x n R [Ask e] (handle_executor_envelope x rt e) s"
        by (simp add: handle_executor_envelope_def StartTimer modM_def s)
    qed
  next
    case (CancelTimer c)
    show ?thesis
    proof (rule doesI)
      fix s :: "('t, 'q, 'c, 'x, 'w) executor" assume s: "exec_on n s"
      let ?c = "wheel_stop x (env_from e, c) (ex_timer_wheel s)"
      have "actor_job x n (actors_of G q cq s ([Ask e] @ js)) (Disarmed (env_from e, c))
          (actors_of (G - {(env_from e, c)}) q cq (s\<lparr>ex_timer_wheel := ?c, ex_metrics := m\<rparr>) js)"
        for q cq js G m
        using ask_cancel [of "actors_of G q cq s ([Ask e] @ js)" e js c x n] CancelTimer
        by (simp add: actors_of_def)
      from does_at_timer [where R = R and g = "\<lambda>G. G - {(env_from e, c)}", OF _ this] timers_simD(3) [OF x]
      show "does_at x n R [Ask e] (handle_executor_envelope x rt e) s"
        by (simp add: handle_executor_envelope_def CancelTimer modM_def s)
    qed
  next
    case GetMetrics
    with send_metrics_does [OF rt] show ?thesis by (simp add: handle_executor_envelope_def)
  qed (use other in \<open>simp_all add: handle_executor_envelope_def\<close>)
qed


lemma route_output_does:
  fixes x :: "('t, 'q, 'c, 'x, 'w) exec_ext"
  assumes x: "timers_sim x R" and rt: "\<And>e. does x n R [Deliver e] (rt e)"
  shows "does x n R [Emit e] (route_output x rt e)"
proof (rule doesI)
  fix s :: "('t, 'q, 'c, 'x, 'w) executor" assume s: "exec_on n s"
  note pid = exec_on_pid [OF s] and node = s [unfolded exec_on_def, THEN conjunct2]
  let ?A = "\<lambda>q cq js G. actors_of G q cq s ([Emit e] @ js)"
  consider (ask) "env_to e = executor_pid n"
    | (local) "env_to e \<noteq> executor_pid n" "node (env_to e) = n"
    | (out) "env_to e \<noteq> executor_pid n" "node (env_to e) \<noteq> n" by blast
  then show "does_at x n R [Emit e] (route_output x rt e) s"
  proof cases
    case ask
    have "actor_job x n (?A q cq js G) Internal (actors_of G q cq s ([Ask e] @ js))" for q cq js G
      using emit_ask [of "?A q cq js G" e js n x] ask by (simp add: actors_of_def)
    with does_at [OF handle_executor_envelope_does [OF x rt] s]
    have "does_at x n R [Emit e] (handle_executor_envelope x rt e) s" by (rule does_at_step [rotated])
    then show ?thesis using ask pid by (simp add: route_output_def withM_def does_at_def)
  next
    case local
    have "actor_job x n (?A q cq js G) (Posted e)
        (actors_of G q cq (s\<lparr>ex_tx := ex_tx s @ [ExecEnvelope e]\<rparr>) js)" for q cq js G
    proof -
      have "post e (?A q cq js G\<lparr>ac_jobs := js\<rparr>)
          = actors_of G q cq (s\<lparr>ex_tx := ex_tx s @ [ExecEnvelope e]\<rparr>) js"
        by (auto simp: post_def actors_of_def fun_eq_iff mailbox_envelope)
      with emit_post [of "?A q cq js G" e js n x] local show ?thesis by simp
    qed
    then show ?thesis
      by (rule does_at_done)
         (use local pid node s in \<open>simp_all add: route_output_def withM_def modM_def\<close>)
  next
    case out
    have "does_at x n R [Emit e] (cluster_send e) s"
      by (rule cluster_send_does [OF _ s], rule emit_out) (use out in simp_all)
    with out pid node show ?thesis by (simp add: route_output_def withM_def does_at_def)
  qed
qed

lemma run_process_does:
  fixes x :: "('t, 'q, 'c, 'x, 'w) exec_ext" and s :: "('t, 'q, 'c, 'x, 'w) executor"
  assumes x: "timers_sim x R" and rt: "\<And>e. does x n R [Deliver e] (rt e)"
    and s: "exec_on n s" and p: "hm_get (processes s) (env_to e) = Some p"
    and e: "env_to e \<noteq> executor_pid n" "\<not> to_cluster_server (env_to e)"
  shows "does_at x n R [Direct e] (run_process x rt e) s"
proof (cases "proc_handle x (env_msg e) (env_from e) (env_cid e) [] p")
  case None
  with p s show ?thesis
    by (simp add: run_process_def withM_def exec_on_def exec_core_def does_at_def panic_def)
next
  case (Some res)
  obtain out p' where res: "res = (out, p')" by fastforce
  let ?s = "s\<lparr>processes := hm_insert (env_to e) p' (processes s), envelopes := []\<rparr>"
  let ?rest = "seqM (forM out (route_output x rt)) (modM (\<lambda>s. s\<lparr>envelopes := []\<rparr>))"
  have s': "exec_on n ?s" using s by (simp add: exec_on_def exec_core_def)
  have "does x n R [] (modM (\<lambda>s. s\<lparr>envelopes := []\<rparr>))"
  proof (rule doesI)
    fix t :: "('t, 'q, 'c, 'x, 'w) executor" assume t: "exec_on n t"
    then have "t\<lparr>envelopes := []\<rparr> = t" by (simp add: exec_on_def exec_core_def)
    with t jobs_idle show "does_at x n R [] (modM (\<lambda>s. s\<lparr>envelopes := []\<rparr>)) t"
      by (fastforce simp: does_at_def modM_def)
  qed
  with does_for [of out x n R Emit "route_output x rt"] route_output_does [OF x rt]
  have "does x n R (map Emit out @ []) ?rest" by (intro does_seq) blast+
  then have rest: "does_at x n R (map Emit out) ?rest ?s" using s' by (simp add: does_def)
  have "run_process x rt e s = ?rest ?s"
    using p Some res s by (simp add: run_process_def act_defs exec_on_def exec_core_def)
  moreover have "actor_job x n (actors_of G q cq s ([Direct e] @ js)) (Handled e)
      (actors_of G q cq ?s (map Emit out @ js))" for q cq js G
    using direct_run [of "actors_of G q cq s ([Direct e] @ js)" e js n p x out p'] e p Some res
    by (simp add: actors_of_def)
  ultimately show ?thesis
    by (intro does_at_after [where ?s1.0 = ?s and J = "[Direct e]" and K = "map Emit out" and ev = "Handled e"
        and k = ?rest] rest) simp_all
qed

text \<open>\<open>route_to_process\<close> runs what is hosted here and leaves the rest to its caller.\<close>

lemma route_to_process_does:
  fixes x :: "('t, 'q, 'c, 'x, 'w) exec_ext" and s :: "('t, 'q, 'c, 'x, 'w) executor"
  assumes x: "timers_sim x R" and rt: "\<And>e. does x n R [Deliver e] (rt e)" and s: "exec_on n s"
  shows "hosted n (actors_of G0 q0 cq0 s js0) (env_to e) \<Longrightarrow>
      does_at x n R [Direct e] (route_to_process x rt e) s"
    and "\<not> hosted n (actors_of G0 q0 cq0 s js0) (env_to e) \<Longrightarrow>
      route_to_process x rt e s = (Err e, s) \<or> is_panic (fst (route_to_process x rt e s))"
proof -
  note pid = exec_on_pid [OF s]
  let ?A = "\<lambda>q cq js G. actors_of G q cq s ([Direct e] @ js)"
  assume h: "hosted n (actors_of G0 q0 cq0 s js0) (env_to e)"
  consider (ask) "env_to e = executor_pid n"
    | (cluster) "to_cluster_server (env_to e)" "env_to e \<noteq> executor_pid n"
    | (process) p where "env_to e \<noteq> executor_pid n" "\<not> to_cluster_server (env_to e)"
        "hm_get (processes s) (env_to e) = Some p"
    using h by (auto simp: hosted_def)
  then show "does_at x n R [Direct e] (route_to_process x rt e) s"
  proof cases
    case ask
    have "actor_job x n (?A q cq js G) Internal (actors_of G q cq s ([Ask e] @ js))" for q cq js G
      using direct_ask [of "?A q cq js G" e js n x] ask by (simp add: actors_of_def)
    with does_at [OF handle_executor_envelope_does [OF x rt] s]
    have "does_at x n R [Direct e] (handle_executor_envelope x rt e) s" by (rule does_at_step [rotated])
    then show ?thesis using ask pid by (simp add: route_to_process_def withM_def does_at_def)
  next
    case cluster
    have "does_at x n R [Direct e] (cluster_send e) s"
      by (rule cluster_send_does [OF _ s], rule direct_cluster) (use cluster in simp_all)
    with cluster pid show ?thesis
      by (simp add: route_to_process_def withM_def does_at_def to_cluster_server_def)
  next
    case process
    note run = run_process_does [OF x rt s process(3,1,2)]
    show ?thesis
    proof (cases "pname (env_to e) = ''cluster_server'' \<and> group (env_to e) = None")
      case True
      with process pid show ?thesis
        by (simp add: route_to_process_def withM_def does_at_def panic_def)
    next
      case False
      with process pid have "route_to_process x rt e s = run_process x rt e s"
        by (auto simp: route_to_process_def withM_def to_cluster_server_def)
      with run show ?thesis by (simp add: does_at_def)
    qed
  qed
next
  assume "\<not> hosted n (actors_of G0 q0 cq0 s js0) (env_to e)"
  with exec_on_pid [OF s] show "route_to_process x rt e s = (Err e, s)
      \<or> is_panic (fst (route_to_process x rt e s))"
    by (auto simp: hosted_def route_to_process_def run_process_def act_defs to_cluster_server_def
        split: option.splits)
qed

lemma route_does:
  fixes x :: "('t, 'q, 'c, 'x, 'w) exec_ext"
  assumes x: "timers_sim x R" and rt: "\<And>e. does x n R [Deliver e] (rt e)"
  shows "does x n R [Deliver e] (route x rt e)"
proof (rule doesI)
  fix s :: "('t, 'q, 'c, 'x, 'w) executor" assume s: "exec_on n s"
  then have node: "ex_node s = n" by (simp add: exec_on_def)
  let ?A = "\<lambda>q cq js G. actors_of G q cq s ([Deliver e] @ js)"
  let ?h = "hosted n (actors_of {} [] [] s []) (env_to e)"
  have h: "hosted n (actors_of G q cq s js) (env_to e) = ?h" for q cq js G by (simp add: hosted_def)
  consider (out) "node (env_to e) \<noteq> n" | (here) "node (env_to e) = n" ?h
    | (service) "node (env_to e) = n" "\<not> ?h" by blast
  then show "does_at x n R [Deliver e] (route x rt e) s"
  proof cases
    case out
    have "does_at x n R [Deliver e] (cluster_send e) s"
      by (rule cluster_send_does [OF _ s], rule deliver_out) (use out in simp_all)
    with out node show ?thesis by (simp add: route_def withM_def does_at_def)
  next
    case here
    have "actor_job x n (?A q cq js G) Internal (actors_of G q cq s ([Direct e] @ js))" for q cq js G
      using deliver_direct [of "?A q cq js G" e js n x] here h by (simp add: actors_of_def)
    with route_to_process_does(1) [OF x rt s here(2)]
    have d: "does_at x n R [Deliver e] (route_to_process x rt e) s" by (rule does_at_step [rotated])
    then have "fst (route_to_process x rt e s) = Ok () \<or> is_panic (fst (route_to_process x rt e s))"
      unfolding does_at_def by (metis prod.collapse)
    then have "route x rt e s = route_to_process x rt e s"
      using here node by (auto simp: route_def withM_def catchM_def split: prod.splits result.splits)
    with d show ?thesis by (simp add: does_at_def)
  next
    case service
    have "actor_job x n (?A q cq js G) Internal (actors_of G q cq s ([Serve e] @ js))" for q cq js G
      using deliver_service [of "?A q cq js G" e js n x] service h by (simp add: actors_of_def)
    with does_at [OF route_to_service_does s]
    have d: "does_at x n R [Deliver e] (route_to_service x e) s" by (rule does_at_step [rotated])
    from route_to_process_does(2) [OF x rt s service(2)] show ?thesis
    proof
      assume "route_to_process x rt e s = (Err e, s)"
      then have "route x rt e s = route_to_service x e s"
        using service node by (simp add: route_def withM_def catchM_def)
      with d show ?thesis by (simp add: does_at_def)
    next
      assume "is_panic (fst (route_to_process x rt e s))"
      then show ?thesis
        using service node
        by (auto simp: does_at_def route_def withM_def catchM_def split: prod.splits result.splits)
    qed
  qed
qed

lemma route_d_does:
  fixes x :: "('t, 'q, 'c, 'x, 'w) exec_ext"
  assumes "timers_sim x R"
  shows "does x n R [Deliver e] (route_d x d e)"
proof (induction d arbitrary: e)
  case 0
  show ?case by (rule doesI) (simp add: does_panic panic_def)
next
  case (Suc d)
  from route_does [OF assms Suc.IH] show ?case by simp
qed

end
