(* ===== verification/Errors.thy ===== *)
theory Errors
  imports Messages
begin

text \<open>
  The errors of \<open>src/errors.rs\<close>. An error of the \<open>error_chain\<close> crate is its kind and a
  chain of causes; the causes are only printed, so an error is modelled by its kind, and
  \<open>chain_err\<close> replaces the kind. \<open>ErrorMsg\<close> is the kind a bare string converts to, \<open>IoError\<close>
  the foreign link to \<open>io::Error\<close>; the messages of the codec errors are not kept.
\<close>

datatype io_error_kind = WouldBlock | OtherIo

record io_error =
  io_kind :: io_error_kind
  raw_os_error :: "int option"

datatype error =
    EncodeError "usize option" "node_id option"
  | DecodeError usize "node_id option"
  | RegistrarError "usize option" "node_id option"
  | WriteError usize "node_id option"
  | ReadError usize "node_id option"
  | BroadcastError "error list"
  | PollNotificationErrors "error list"
  | ConnectError node_id
  | SendError string "pid option"
  | ShutdownErr pid
  | ErrorMsg string
  | IoError io_error
  | MsgpackEncode
  | MsgpackDecode
  | ProtobufErr

text \<open>The socket ids an error names.\<close>

fun get_ids :: "error \<Rightarrow> usize list" where
  "get_ids (EncodeError i n) = (case i of None \<Rightarrow> [] | Some i' \<Rightarrow> [i'])"
| "get_ids (DecodeError i n) = [i]"
| "get_ids (RegistrarError i n) = (case i of None \<Rightarrow> [] | Some i' \<Rightarrow> [i'])"
| "get_ids (WriteError i n) = [i]"
| "get_ids (ReadError i n) = [i]"
| "get_ids (BroadcastError es) = concat (map get_ids es)"
| "get_ids (PollNotificationErrors es) = concat (map get_ids es)"
| "get_ids e = []"

text \<open>
  Which ids are collected: those of the leaves of the two nesting kinds, in order, so every
  socket that failed anywhere inside a batch is named.
\<close>

inductive part_of :: "error \<Rightarrow> error \<Rightarrow> bool" where
  self: "part_of e e"
| broadcast: "e' \<in> set es \<Longrightarrow> part_of e e' \<Longrightarrow> part_of e (BroadcastError es)"
| poll: "e' \<in> set es \<Longrightarrow> part_of e e' \<Longrightarrow> part_of e (PollNotificationErrors es)"

fun leaf_id :: "error \<Rightarrow> usize option" where
  "leaf_id (EncodeError i n) = i"
| "leaf_id (DecodeError i n) = Some i"
| "leaf_id (RegistrarError i n) = i"
| "leaf_id (WriteError i n) = Some i"
| "leaf_id (ReadError i n) = Some i"
| "leaf_id e = None"

inductive_simps part_of_broadcast: "part_of e (BroadcastError es)"
inductive_simps part_of_poll: "part_of e (PollNotificationErrors es)"

lemma get_ids_nested:
  "i \<in> set (get_ids (BroadcastError es)) \<longleftrightarrow> (\<exists>e \<in> set es. i \<in> set (get_ids e))"
  "i \<in> set (get_ids (PollNotificationErrors es)) \<longleftrightarrow> (\<exists>e \<in> set es. i \<in> set (get_ids e))"
  by auto

lemma leaf_in_get_ids: "part_of e' e \<Longrightarrow> leaf_id e' = Some i \<Longrightarrow> i \<in> set (get_ids e)"
proof (induction rule: part_of.induct)
  case (self e)
  then show ?case by (cases e) auto
qed auto

lemma get_ids_leaf: "i \<in> set (get_ids e) \<Longrightarrow> \<exists>e'. part_of e' e \<and> leaf_id e' = Some i"
proof (induction e rule: get_ids.induct)
  case (6 es)
  then show ?case by (fastforce intro: part_of.broadcast)
next
  case (7 es)
  then show ?case by (fastforce intro: part_of.poll)
qed (fastforce intro: part_of.self split: option.splits)+

end
