(* ===== verification/Membership.thy ===== *)
theory Membership
  imports Ids
begin

text \<open>
  The membership state of \<open>src/members.rs\<close>. The replicated set itself is the \<open>orset\<close> crate,
  which is not part of the repository: its operations are a parameter, and \<open>orset_laws\<close> names
  the documented behaviour of an observed-remove set that some properties rely on.
\<close>

section \<open>The operations of the \<open>orset\<close> crate\<close>

text \<open>\<open>'s\<close> is a set, \<open>'d\<close> a delta, \<open>'k\<close> what \<open>seen\<close> returns and \<open>remove\<close> takes.\<close>

record ('s, 'd, 'k) orset_ops =
  os_new :: "string \<Rightarrow> 's"
  os_add :: "node_id \<Rightarrow> 's \<Rightarrow> 'd \<times> 's"
  os_elements :: "'s \<Rightarrow> node_id list"
  os_join_state :: "'s \<Rightarrow> 's \<Rightarrow> 's"
  os_seen :: "node_id \<Rightarrow> 's \<Rightarrow> 'k option"
  os_remove :: "node_id \<Rightarrow> 'k \<Rightarrow> 's \<Rightarrow> 'd \<times> 's"
  os_join :: "'d \<Rightarrow> 's \<Rightarrow> bool \<times> 's"

definition orset_laws :: "('s, 'd, 'k) orset_ops \<Rightarrow> bool" where
  "orset_laws ops \<longleftrightarrow>
     (\<forall>a. set (os_elements ops (os_new ops a)) = {}) \<and>
     (\<forall>e s. set (os_elements ops (snd (os_add ops e s))) = insert e (set (os_elements ops s))) \<and>
     (\<forall>e s. e \<in> set (os_elements ops s) \<longrightarrow> os_seen ops e s \<noteq> None) \<and>
     (\<forall>e s k. os_seen ops e s = Some k \<longrightarrow>
        set (os_elements ops (snd (os_remove ops e k s))) = set (os_elements ops s) - {e}) \<and>
     (\<forall>d s. \<not> fst (os_join ops d (snd (os_join ops d s)))) \<and>
     (\<forall>d s. \<not> fst (os_join ops d s) \<longrightarrow> snd (os_join ops d s) = s)"

section \<open>Members\<close>

record 's members =
  me :: node_id
  orset :: 's

definition members_new :: "('s, 'd, 'k) orset_ops \<Rightarrow> node_id \<Rightarrow> 's members" where
  "members_new ops n =
     (let s = os_new ops (node_id_to_string n); (d, s') = os_add ops n s
      in \<lparr>me = n, orset = s'\<rparr>)"

definition members_all :: "('s, 'd, 'k) orset_ops \<Rightarrow> 's members \<Rightarrow> node_id list" where
  "members_all ops m = hs_collect (os_elements ops (orset m))"

definition members_join :: "('s, 'd, 'k) orset_ops \<Rightarrow> 's \<Rightarrow> 's members \<Rightarrow> 's members" where
  "members_join ops other m = m\<lparr>orset := os_join_state ops other (orset m)\<rparr>"

definition members_leave ::
    "('s, 'd, 'k) orset_ops \<Rightarrow> node_id \<Rightarrow> 's members \<Rightarrow> 'd option \<times> 's members" where
  "members_leave ops leaving m =
     (case os_seen ops leaving (orset m) of
        Some dots \<Rightarrow>
          (let (d, s') = os_remove ops leaving dots (orset m) in (Some d, m\<lparr>orset := s'\<rparr>))
      | None \<Rightarrow> (None, m))"

definition members_join_delta ::
    "('s, 'd, 'k) orset_ops \<Rightarrow> 'd \<Rightarrow> 's members \<Rightarrow> bool \<times> 's members" where
  "members_join_delta ops d m =
     (let (changed, s') = os_join ops d (orset m) in (changed, m\<lparr>orset := s'\<rparr>))"

definition members_get_orset :: "'s members \<Rightarrow> 's" where
  "members_get_orset m = orset m"

definition members_add ::
    "('s, 'd, 'k) orset_ops \<Rightarrow> node_id \<Rightarrow> 's members \<Rightarrow> 'd \<times> 's members" where
  "members_add ops e m = (let (d, s') = os_add ops e (orset m) in (d, m\<lparr>orset := s'\<rparr>))"

text \<open>\<open>Display\<close>: the names in the order of the node ids, one per line.\<close>

definition members_to_string :: "('s, 'd, 'k) orset_ops \<Rightarrow> 's members \<Rightarrow> string" where
  "members_to_string ops m =
     concat (map (\<lambda>n. name n @ '' '' @ [CHR 0x0A]) (sort (os_elements ops (orset m))))"

section \<open>What the operations do to the set of members\<close>

abbreviation member_set :: "('s, 'd, 'k) orset_ops \<Rightarrow> 's members \<Rightarrow> node_id set" where
  "member_set ops m \<equiv> set (members_all ops m)"

named_theorems members_simps "effect of the operations on the set of members"

lemma orset_lawsD:
  assumes "orset_laws ops"
  shows "set (os_elements ops (os_new ops a)) = {}"
    and "os_add ops e s = (d, s') \<Longrightarrow>
      set (os_elements ops s') = insert e (set (os_elements ops s))"
    and "e \<in> set (os_elements ops s) \<Longrightarrow> os_seen ops e s \<noteq> None"
    and "os_seen ops e s = Some k \<Longrightarrow> os_remove ops e k s = (d, s') \<Longrightarrow>
      set (os_elements ops s') = set (os_elements ops s) - {e}"
    and "os_join ops d' s = (c, s') \<Longrightarrow> \<not> fst (os_join ops d' s')"
    and "\<not> fst (os_join ops d' s) \<Longrightarrow> snd (os_join ops d' s) = s"
  using assms unfolding orset_laws_def by (metis snd_conv)+

lemma members_new_all [members_simps]: "orset_laws ops \<Longrightarrow> member_set ops (members_new ops n) = {n}"
  by (auto simp: members_all_def members_new_def orset_lawsD Let_def split: prod.splits)

lemma members_add_all [members_simps]:
  "orset_laws ops \<Longrightarrow> member_set ops (snd (members_add ops n m)) = insert n (member_set ops m)"
  by (auto simp: members_all_def members_add_def orset_lawsD split: prod.splits)

lemma members_leave_all [members_simps]:
  assumes "orset_laws ops"
  shows "member_set ops (snd (members_leave ops n m)) = member_set ops m - {n}"
  using orset_lawsD(3) [OF assms, of n "orset m"] orset_lawsD(4) [OF assms, of n "orset m"]
  by (auto simp: members_all_def members_leave_def split: prod.splits option.splits)

lemma members_me [members_simps]:
  "me (members_new ops n) = n" "me (snd (members_add ops e m)) = me m"
  "me (snd (members_leave ops e m)) = me m" "me (snd (members_join_delta ops d m)) = me m"
  "me (members_join ops st m) = me m"
  by (auto simp: members_new_def members_add_def members_leave_def members_join_delta_def
      members_join_def Let_def split: prod.splits option.splits)

lemma members_join_delta_again:
  assumes "orset_laws ops"
  shows "members_join_delta ops d (snd (members_join_delta ops d m))
     = (False, snd (members_join_delta ops d m))"
proof -
  obtain c s' where j: "os_join ops d (orset m) = (c, s')" by fastforce
  from orset_lawsD(5) [OF assms j] have "\<not> fst (os_join ops d s')" .
  with orset_lawsD(6) [OF assms this] have "os_join ops d s' = (False, s')"
    by (metis (full_types) prod.collapse)
  with j show ?thesis by (simp add: members_join_delta_def)
qed

end
