(* ===== verification/TimerWheel.thy ===== *)
theory TimerWheel
  imports Prelude
begin

text \<open>
  The timer wheel of \<open>src/timer_wheel.rs\<close>: a ring of hash sets with a read and a write
  pointer. \<open>None\<close> is a panic: an index out of range, or a wheel of no slots. The locale
  \<open>timeout_ring\<close> is what the cluster server and the TCP handler rely on: which slot holds which
  key, and that a key is in the slot its owner has recorded and in no other.
\<close>

section \<open>The wheel\<close>

record 'a timer_wheel =
  tw_size :: nat
  tw_data :: "'a list list"
  current_read :: nat
  current_write :: nat

text \<open>
  \<open>size - 1\<close> underflows for an empty wheel, which panics in a debug build and in a release build
  leaves a wheel whose first insertion panics; here it is a panic at once. No caller asks for one.
\<close>

definition timer_wheel_new :: "nat \<Rightarrow> 'a timer_wheel option" where
  "timer_wheel_new n =
     (if n = 0 then None
      else Some \<lparr>tw_size = n, tw_data = replicate n [], current_read = 0,
        current_write = n - 1\<rparr>)"

definition tw_insert :: "'a \<Rightarrow> 'a timer_wheel \<Rightarrow> (nat \<times> 'a timer_wheel) option" where
  "tw_insert key w =
     (if current_write w < length (tw_data w) then
        Some (current_write w,
          w\<lparr>tw_data := (tw_data w)[current_write w := hs_insert key (tw_data w ! current_write w)]\<rparr>)
      else None)"

definition tw_remove :: "'a \<Rightarrow> nat \<Rightarrow> 'a timer_wheel \<Rightarrow> 'a timer_wheel option" where
  "tw_remove key slot w =
     (if slot < length (tw_data w) then
        Some (w\<lparr>tw_data := (tw_data w)[slot := hs_remove key (tw_data w ! slot)]\<rparr>)
      else None)"

text \<open>\<open>Vec::swap_remove\<close>: take an element out and put the last one in its place.\<close>

definition swap_remove :: "nat \<Rightarrow> 'b list \<Rightarrow> ('b \<times> 'b list) option" where
  "swap_remove i xs = (if i < length xs then Some (xs ! i, butlast (xs[i := last xs])) else None)"

definition update_pointers :: "'a timer_wheel \<Rightarrow> 'a timer_wheel option" where
  "update_pointers w =
     (if tw_size w = 0 then None
      else Some (w\<lparr>current_write := (current_write w + 1) mod tw_size w,
        current_read := (current_read w + 1) mod tw_size w\<rparr>))"

definition tw_expire :: "'a timer_wheel \<Rightarrow> ('a list \<times> 'a timer_wheel) option" where
  "tw_expire w =
     (case swap_remove (current_read w) (tw_data w @ [[]]) of
        None \<Rightarrow> None
      | Some (expired, data) \<Rightarrow>
          (case update_pointers (w\<lparr>tw_data := data\<rparr>) of
             None \<Rightarrow> None
           | Some w' \<Rightarrow> Some (expired, w')))"

text \<open>Several ticks in a row, with what each of them returned.\<close>

fun tw_ticks :: "nat \<Rightarrow> 'a timer_wheel \<Rightarrow> ('a list list \<times> 'a timer_wheel) option" where
  "tw_ticks 0 w = Some ([], w)"
| "tw_ticks (Suc n) w =
     (case tw_expire w of
        None \<Rightarrow> None
      | Some (xs, w1) \<Rightarrow>
          (case tw_ticks n w1 of None \<Rightarrow> None | Some (xss, w2) \<Rightarrow> Some (xs # xss, w2)))"

section \<open>Invariant\<close>

text \<open>The write pointer is the slot just before the read pointer.\<close>

definition tw_wf :: "'a timer_wheel \<Rightarrow> bool" where
  "tw_wf w \<longleftrightarrow> 0 < tw_size w \<and> length (tw_data w) = tw_size w \<and> current_read w < tw_size w
     \<and> current_write w < tw_size w \<and> (current_write w + 1) mod tw_size w = current_read w
     \<and> list_all distinct (tw_data w)"

definition slot_keys :: "'a timer_wheel \<Rightarrow> nat \<Rightarrow> 'a set" where
  "slot_keys w s = (if s < length (tw_data w) then set (tw_data w ! s) else {})"

lemma timer_wheel_new_wf: "timer_wheel_new n = Some w \<Longrightarrow> tw_wf w \<and> tw_size w = n"
  by (auto simp: timer_wheel_new_def tw_wf_def list_all_length split: if_splits)

lemma timer_wheel_new_keys: "timer_wheel_new n = Some w \<Longrightarrow> slot_keys w s = {}"
  by (auto simp: timer_wheel_new_def slot_keys_def split: if_splits)

lemma tw_insert_Some:
  "tw_wf w \<Longrightarrow> tw_insert k w =
     Some (current_write w,
       w\<lparr>tw_data := (tw_data w)[current_write w := hs_insert k (tw_data w ! current_write w)]\<rparr>)"
  by (simp add: tw_insert_def tw_wf_def)

lemma list_all_update: "list_all P xs \<Longrightarrow> P x \<Longrightarrow> list_all P (xs[i := x])"
  by (auto simp: list_all_iff dest!: subsetD [OF set_update_subset_insert])

lemma tw_insert_wf:
  assumes "tw_wf w" and "tw_insert k w = Some (s, w')"
  shows "tw_wf w'" and "s < tw_size w" and "tw_size w' = tw_size w" and "s = current_write w"
    and "current_read w' = current_read w" and "current_write w' = current_write w"
    and "slot_keys w' = (slot_keys w)(s := insert k (slot_keys w s))"
proof -
  have w': "w' = w\<lparr>tw_data := (tw_data w)[s := hs_insert k (tw_data w ! s)]\<rparr>"
    and s: "s = current_write w"
    using assms by (auto simp: tw_insert_Some)
  show "s < tw_size w" "tw_size w' = tw_size w" "s = current_write w"
    "current_read w' = current_read w" "current_write w' = current_write w"
    using assms(1) w' s by (auto simp: tw_wf_def)
  show "slot_keys w' = (slot_keys w)(s := insert k (slot_keys w s))"
    using assms(1) w' s by (auto simp: tw_wf_def slot_keys_def fun_eq_iff nth_list_update)
  have "s < length (tw_data w)" using assms(1) s by (simp add: tw_wf_def)
  then have "distinct (hs_insert k (tw_data w ! s))"
    using assms(1) by (simp add: tw_wf_def list_all_length)
  then show "tw_wf w'"
    using assms(1) w' by (simp add: tw_wf_def list_all_update)
qed

lemma tw_remove_wf:
  assumes "tw_wf w" and "tw_remove k s w = Some w'"
  shows "tw_wf w'" and "tw_size w' = tw_size w" and "current_read w' = current_read w"
    and "current_write w' = current_write w"
    and "slot_keys w' = (slot_keys w)(s := slot_keys w s - {k})"
proof -
  have w': "w' = w\<lparr>tw_data := (tw_data w)[s := hs_remove k (tw_data w ! s)]\<rparr>"
    and s: "s < length (tw_data w)"
    using assms by (auto simp: tw_remove_def split: if_splits)
  show "tw_size w' = tw_size w" "current_read w' = current_read w"
    "current_write w' = current_write w"
    using w' by auto
  show "slot_keys w' = (slot_keys w)(s := slot_keys w s - {k})"
    using w' s by (auto simp: slot_keys_def fun_eq_iff nth_list_update)
  have "distinct (hs_remove k (tw_data w ! s))"
    using assms(1) s by (simp add: tw_wf_def list_all_length)
  then show "tw_wf w'"
    using assms(1) w' by (simp add: tw_wf_def list_all_update)
qed

lemma swap_remove_push:
  "i < length xs \<Longrightarrow> swap_remove i (xs @ [x]) = Some (xs ! i, xs[i := x])"
  by (simp add: swap_remove_def nth_append list_update_append butlast_append)

lemma tw_expire_Some:
  assumes "tw_wf w"
  shows "tw_expire w = Some (tw_data w ! current_read w,
    w\<lparr>tw_data := (tw_data w)[current_read w := []],
      current_write := (current_write w + 1) mod tw_size w,
      current_read := (current_read w + 1) mod tw_size w\<rparr>)"
  using assms by (simp add: tw_expire_def swap_remove_push update_pointers_def tw_wf_def)

lemma tw_expire_wf:
  assumes "tw_wf w" and "tw_expire w = Some (xs, w')"
  shows "tw_wf w'" and "tw_size w' = tw_size w" and "distinct xs"
    and "set xs = slot_keys w (current_read w)"
    and "slot_keys w' = (slot_keys w)(current_read w := {})"
    and "current_read w' = (current_read w + 1) mod tw_size w"
    and "current_write w' = current_read w"
proof -
  have xs: "xs = tw_data w ! current_read w"
    and w': "w' = w\<lparr>tw_data := (tw_data w)[current_read w := []],
      current_write := (current_write w + 1) mod tw_size w,
      current_read := (current_read w + 1) mod tw_size w\<rparr>"
    using assms by (auto simp: tw_expire_Some)
  show "tw_size w' = tw_size w" "current_read w' = (current_read w + 1) mod tw_size w"
    "current_write w' = current_read w"
    using w' assms(1) by (auto simp: tw_wf_def)
  show "distinct xs" "set xs = slot_keys w (current_read w)"
    using xs assms(1) by (auto simp: tw_wf_def slot_keys_def list_all_length)
  show "slot_keys w' = (slot_keys w)(current_read w := {})"
    using w' assms(1) by (auto simp: tw_wf_def slot_keys_def fun_eq_iff nth_list_update)
  show "tw_wf w'"
    using assms(1) w' by (simp add: tw_wf_def list_all_update)
qed

lemma tw_insert_total: "tw_wf w \<Longrightarrow> \<exists>s w'. tw_insert k w = Some (s, w')"
  by (simp add: tw_insert_Some)

lemma tw_remove_total: "tw_wf w \<Longrightarrow> s < tw_size w \<Longrightarrow> \<exists>w'. tw_remove k s w = Some w'"
  by (simp add: tw_remove_def tw_wf_def)

lemma tw_expire_total: "tw_wf w \<Longrightarrow> \<exists>xs w'. tw_expire w = Some (xs, w')"
  by (simp add: tw_expire_Some)

lemma slot_keys_bound: "tw_wf w \<Longrightarrow> k \<in> slot_keys w s \<Longrightarrow> s < tw_size w"
  by (simp add: slot_keys_def tw_wf_def split: if_splits)

section \<open>The contract of a ring of timeouts\<close>

text \<open>
  \<open>keys w s\<close> are the keys slot \<open>s\<close> holds, \<open>next w\<close> the slot the next tick empties. A client
  records for each of its keys the slot an insertion returned: \<open>owns w own\<close> says that this
  record and the ring agree.
\<close>

locale timeout_ring =
  fixes ins :: "'k \<Rightarrow> 'w \<Rightarrow> (nat \<times> 'w) option"
    and rem :: "'k \<Rightarrow> nat \<Rightarrow> 'w \<Rightarrow> 'w option"
    and expire :: "'w \<Rightarrow> ('k list \<times> 'w) option"
    and keys :: "'w \<Rightarrow> nat \<Rightarrow> 'k set"
    and "next" :: "'w \<Rightarrow> nat"
    and slots :: "'w \<Rightarrow> nat"
    and good :: "'w \<Rightarrow> bool"
  assumes ins_total: "good w \<Longrightarrow> \<exists>s w'. ins k w = Some (s, w')"
    and ins_good: "good w \<Longrightarrow> ins k w = Some (s, w') \<Longrightarrow> good w'"
    and ins_keys: "good w \<Longrightarrow> ins k w = Some (s, w') \<Longrightarrow>
      keys w' = (keys w)(s := insert k (keys w s))"
    and rem_total: "good w \<Longrightarrow> s < slots w \<Longrightarrow> \<exists>w'. rem k s w = Some w'"
    and rem_good: "good w \<Longrightarrow> rem k s w = Some w' \<Longrightarrow> good w'"
    and rem_keys: "good w \<Longrightarrow> rem k s w = Some w' \<Longrightarrow> keys w' = (keys w)(s := keys w s - {k})"
    and expire_total: "good w \<Longrightarrow> \<exists>ks w'. expire w = Some (ks, w')"
    and expire_good: "good w \<Longrightarrow> expire w = Some (ks, w') \<Longrightarrow> good w'"
    and expire_set: "good w \<Longrightarrow> expire w = Some (ks, w') \<Longrightarrow> set ks = keys w (next w)"
    and expire_keys: "good w \<Longrightarrow> expire w = Some (ks, w') \<Longrightarrow> keys w' = (keys w)(next w := {})"
    and keys_bound: "good w \<Longrightarrow> k \<in> keys w s \<Longrightarrow> s < slots w"
begin

definition owns :: "'w \<Rightarrow> ('k \<Rightarrow> nat option) \<Rightarrow> bool" where
  "owns w own \<longleftrightarrow> good w \<and> (\<forall>k s. k \<in> keys w s \<longleftrightarrow> own k = Some s)"

lemma owns_good: "owns w own \<Longrightarrow> good w"
  by (simp add: owns_def)

lemma owns_slot: "owns w own \<Longrightarrow> own k = Some s \<Longrightarrow> s < slots w"
  using keys_bound by (auto simp: owns_def)

lemma arm: "owns w own \<Longrightarrow> own k = None \<Longrightarrow> ins k w = Some (s, w') \<Longrightarrow> owns w' (own(k \<mapsto> s))"
  unfolding owns_def using ins_good [of w k s w'] ins_keys [of w k s w']
  by (auto simp: fun_upd_def split: if_splits)

lemma disarm:
  "owns w own \<Longrightarrow> own k = Some s \<Longrightarrow> rem k s w = Some w' \<Longrightarrow> owns w' (own(k := None))"
  unfolding owns_def using rem_good [of w k s w'] rem_keys [of w k s w']
  by (auto simp: fun_upd_def split: if_splits)

lemma disarm_absent:
  "owns w own \<Longrightarrow> own k = None \<Longrightarrow> rem k s w = Some w' \<Longrightarrow> owns w' own"
  unfolding owns_def using rem_good [of w k s w'] rem_keys [of w k s w']
  by (auto simp: fun_upd_def split: if_splits)

lemma disarm_total: "owns w own \<Longrightarrow> own k = Some s \<Longrightarrow> \<exists>w'. rem k s w = Some w'"
  using rem_total owns_slot owns_good by blast

text \<open>Removing a key from its slot and inserting it again moves it to the write slot.\<close>

lemma rearm:
  assumes "owns w own" and "own k = Some s"
  shows "\<exists>w1 s' w2. rem k s w = Some w1 \<and> ins k w1 = Some (s', w2) \<and> owns w2 (own(k \<mapsto> s'))"
proof -
  obtain w1 where w1: "rem k s w = Some w1" using disarm_total [OF assms] by blast
  with assms have o1: "owns w1 (own(k := None))" by (rule disarm)
  then obtain s' w2 where i: "ins k w1 = Some (s', w2)" using ins_total owns_good by blast
  have "owns w2 ((own(k := None))(k \<mapsto> s'))" by (rule arm [OF o1 _ i]) simp
  then have "owns w2 (own(k \<mapsto> s'))" by simp
  with w1 i show ?thesis by blast
qed

lemma expire_owned:
  assumes "owns w own" and "expire w = Some (ks, w')"
  shows "owns w' (\<lambda>k. if k \<in> set ks then None else own k)"
    and "set ks = {k. own k = Some (next w)}"
proof -
  have ks: "set ks = keys w (next w)" using assms expire_set owns_good by blast
  then show "set ks = {k. own k = Some (next w)}" using assms(1) by (auto simp: owns_def)
  show "owns w' (\<lambda>k. if k \<in> set ks then None else own k)"
    using assms expire_good [of w ks w'] expire_keys [of w ks w'] ks
    by (auto simp: owns_def split: if_splits)
qed

end

interpretation wheel: timeout_ring tw_insert tw_remove tw_expire slot_keys current_read tw_size tw_wf
  by unfold_locales
     (auto intro: tw_insert_total tw_remove_total tw_expire_total tw_insert_wf(1) tw_remove_wf(1)
        tw_expire_wf(1) slot_keys_bound
        simp: tw_insert_wf(7) tw_remove_wf(5) tw_expire_wf(4,5))

section \<open>When a key expires\<close>

text \<open>
  The abstract view of a wheel: the keys due at the \<open>n\<close>-th tick from now, \<open>n\<close> from 0.
\<close>

definition due :: "'a timer_wheel \<Rightarrow> nat \<Rightarrow> 'a set" where
  "due w n = slot_keys w ((current_read w + n) mod tw_size w)"

lemma ring_position:
  "(c::nat) < n \<Longrightarrow> i < n \<Longrightarrow> (c + i) mod n = (if c + i < n then c + i else c + i - n)"
  by (simp add: mod_if)

lemma ring_position_inj:
  "(c::nat) < n \<Longrightarrow> i < n \<Longrightarrow> j < n \<Longrightarrow> (c + i) mod n = (c + j) mod n \<longleftrightarrow> i = j"
  by (auto simp: ring_position split: if_splits)

lemma write_position:
  assumes "tw_wf w"
  shows "current_write w = (current_read w + (tw_size w - 1)) mod tw_size w"
proof -
  have w: "current_write w < tw_size w" "current_read w < tw_size w"
    "(current_write w + 1) mod tw_size w = current_read w"
    using assms by (auto simp: tw_wf_def)
  then show ?thesis
    by (cases "current_write w + 1 < tw_size w") (auto simp: ring_position mod_if)
qed

lemma due_insert:
  assumes "tw_wf w" and "tw_insert k w = Some (s, w')" and "n < tw_size w"
  shows "due w' n = (if n = tw_size w - 1 then insert k (due w n) else due w n)"
proof -
  have r: "current_read w < tw_size w" and l: "tw_size w - 1 < tw_size w"
    using assms(1) by (auto simp: tw_wf_def)
  have "(current_read w + n) mod tw_size w = s \<longleftrightarrow> n = tw_size w - 1"
    unfolding tw_insert_wf(4) [OF assms(1,2)] write_position [OF assms(1)]
    by (rule ring_position_inj [OF r assms(3) l])
  moreover have "due w' n = ((slot_keys w)(s := insert k (slot_keys w s)))
      ((current_read w + n) mod tw_size w)"
    using tw_insert_wf [OF assms(1,2)] by (simp add: due_def)
  ultimately show ?thesis by (auto simp: due_def)
qed

lemma due_expire:
  assumes "tw_wf w" and "tw_expire w = Some (xs, w')"
  shows "set xs = due w 0"
    and "n < tw_size w \<Longrightarrow> due w' n = (if n = tw_size w - 1 then {} else due w (Suc n))"
proof -
  have r: "current_read w < tw_size w" using assms(1) by (simp add: tw_wf_def)
  then show "set xs = due w 0" using tw_expire_wf(4) [OF assms] by (simp add: due_def)
  show "due w' n = (if n = tw_size w - 1 then {} else due w (Suc n))" if n: "n < tw_size w"
  proof -
    let ?i = "(current_read w' + n) mod tw_size w"
    have i: "?i = (current_read w + Suc n) mod tw_size w"
      by (simp add: tw_expire_wf(6) [OF assms] mod_add_left_eq)
    have "?i = current_read w \<longleftrightarrow> n = tw_size w - 1"
    proof (cases "n = tw_size w - 1")
      case True
      with r i show ?thesis by simp
    next
      case False
      with n have "Suc n < tw_size w" by simp
      then have "?i = (current_read w + 0) mod tw_size w \<longleftrightarrow> Suc n = 0"
        unfolding i using r by (simp only: ring_position_inj)
      with False r show ?thesis by simp
    qed
    then show ?thesis
      using tw_expire_wf(2,5) [OF assms] i by (simp add: due_def)
  qed
qed

text \<open>
  \<open>n + 1\<close> ticks return, one after the other, the keys that were due at the ticks \<open>0\<close> to
  \<open>n\<close>, as long as the ring has so many slots.
\<close>

lemma ticks_due:
  "tw_wf w \<Longrightarrow> n \<le> tw_size w \<Longrightarrow>
   \<exists>xss w'. tw_ticks n w = Some (xss, w') \<and> map set xss = map (due w) [0..<n] \<and> tw_wf w'
     \<and> tw_size w' = tw_size w"
proof (induction n arbitrary: w)
  case 0
  then show ?case by simp
next
  case (Suc n)
  obtain xs w1 where e: "tw_expire w = Some (xs, w1)"
    using tw_expire_total [OF Suc.prems(1)] by blast
  have sz: "tw_size w1 = tw_size w" and wf: "tw_wf w1"
    using tw_expire_wf [OF Suc.prems(1) e] by auto
  with Suc obtain xss w2 where t: "tw_ticks n w1 = Some (xss, w2)"
    and xss: "map set xss = map (due w1) [0..<n]" and w2: "tw_wf w2" "tw_size w2 = tw_size w1"
    by fastforce
  have "map (due w1) [0..<n] = map (\<lambda>i. due w (Suc i)) [0..<n]"
    using due_expire(2) [OF Suc.prems(1) e] Suc.prems(2) by auto
  then have "map (due w1) [0..<n] = map (due w) [1..<Suc n]"
    by (simp only: map_Suc_upt [symmetric] map_map comp_def One_nat_def)
  moreover have "set xs = due w 0" by (rule due_expire(1) [OF Suc.prems(1) e])
  moreover have "[0..<Suc n] = 0 # [1..<Suc n]" by (metis One_nat_def upt_conv_Cons zero_less_Suc)
  ultimately have "map set (xs # xss) = map (due w) [0..<Suc n]"
    using xss by (simp only: list.map)
  with e t w2 sz show ?case by simp
qed

end
