(* ===== verification/Cluster.thy ===== *)
theory Cluster
  imports Errors Membership TimerWheel
begin

text \<open>
  The cluster server of \<open>src/cluster/server.rs\<close>: the connections of a node to its peers, the
  membership of the cluster and the routing of envelopes to other nodes. The poller, the framing
  of messages, sockets, message encoding and the replicated set are parameters; \<open>'w\<close> is the
  state of the world they act on (the kernel and \<open>amy\<close>), which the server's \<open>registrar\<close> field
  holds. \<open>'f\<close> is the state of a frame reader or writer.

  The listening socket is the list of results its \<open>accept\<close> will return before it would block.
\<close>

section \<open>Parameters\<close>

type_synonym fd = nat

text \<open>
  \<open>rd_frames\<close> are the complete frames a reader holds and \<open>rd_drop\<close> the reader after so many of
  them were taken from its iterator. The three parts are the registrar and the framing of
  \<open>amy\<close>, the sockets, and the codec of \<open>ExternalMsg\<close> with the replicated set.
\<close>

record ('t, 'w, 'f, 's, 'd, 'k) cluster_env =
  rg_register :: "fd \<Rightarrow> event \<Rightarrow> 'w \<Rightarrow> (io_error + usize) \<times> 'w"
  rg_reregister :: "usize \<Rightarrow> fd \<Rightarrow> event \<Rightarrow> 'w \<Rightarrow> (io_error + unit) \<times> 'w"
  rg_deregister :: "fd \<Rightarrow> 'w \<Rightarrow> (io_error + unit) \<times> 'w"
  rg_register_listener :: "event \<Rightarrow> 'w \<Rightarrow> (io_error + usize) \<times> 'w"
  rg_set_interval :: "nat \<Rightarrow> 'w \<Rightarrow> (io_error + usize) \<times> 'w"
  rd_new :: "nat \<Rightarrow> 'f"
  rd_read :: "fd \<Rightarrow> 'f \<Rightarrow> 'w \<Rightarrow> (io_error + usize) \<times> 'f \<times> 'w"
  rd_frames :: "'f \<Rightarrow> bytes list"
  rd_drop :: "nat \<Rightarrow> 'f \<Rightarrow> 'f"
  wr_new :: 'f
  wr_write :: "fd \<Rightarrow> bytes option \<Rightarrow> 'f \<Rightarrow> 'w \<Rightarrow> (io_error + bool) \<times> 'f \<times> 'w"
  wr_is_writable :: "'f \<Rightarrow> bool"
  wr_writable :: "'f \<Rightarrow> 'f"
  sk_bind :: "string \<Rightarrow> 'w \<Rightarrow> (io_error + (io_error + fd) list) \<times> 'w"
  sk_new_v4 :: "'w \<Rightarrow> (io_error + fd) \<times> 'w"
  sk_to_tcp_stream :: "fd \<Rightarrow> 'w \<Rightarrow> (io_error + fd) \<times> 'w"
  sk_set_nonblocking :: "fd \<Rightarrow> 'w \<Rightarrow> (io_error + unit) \<times> 'w"
  sk_connect :: "fd \<Rightarrow> string \<Rightarrow> 'w \<Rightarrow> (io_error + unit) \<times> 'w"
  einprogress :: int
  msg_encode :: "('t, 's, 'd) external_msg \<Rightarrow> bytes option"
  msg_decode :: "bytes \<Rightarrow> ('t, 's, 'd) external_msg option"
  set_ops :: "('s, 'd, 'k) orset_ops"

definition max_frame_size :: nat where
  "max_frame_size = 100 * 1024 * 1024"

definition tick_time :: nat where
  "tick_time = 1000"

definition request_timeout :: nat where
  "request_timeout = 5000"

definition executor_tick_time :: nat where
  "executor_tick_time = 100"

section \<open>State\<close>

record 'f conn =
  sock :: fd
  conn_node :: "node_id option"
  is_client :: bool
  conn_members_sent :: bool
  timer_wheel_index :: nat
  reader :: 'f
  writer :: 'f

definition conn_new ::
    "('t, 'w, 'f, 's, 'd, 'k) cluster_env \<Rightarrow> fd \<Rightarrow> node_id option \<Rightarrow> bool \<Rightarrow> 'f conn" where
  "conn_new x sk n client =
     \<lparr>sock = sk, conn_node = n, is_client = client, conn_members_sent = False,
      timer_wheel_index = 0, reader = rd_new x max_frame_size, writer = wr_new x\<rparr>"

record ('t, 'q, 'x, 'w, 'f, 's) cluster =
  cs_pid :: pid
  cs_node :: node_id
  executor_tx :: "('t, 'q, 'x) executor_msg chan"
  executor_timer_id :: usize
  timer_id :: usize
  cs_timer_wheel :: "usize timer_wheel"
  listener :: "(io_error + fd) list"
  listener_id :: usize
  cs_members :: "'s members"
  connections :: "(usize, 'f conn) hmap"
  established :: "(node_id, usize) hmap"
  registrar :: 'w
  cs_metrics :: cluster_metrics

type_synonym ('t, 'q, 'x, 'w, 'f, 's, 'a) cact =
  "(('t, 'q, 'x, 'w, 'f, 's) cluster, error, 'a) act"

definition cluster_new ::
    "('t, 'w, 'f, 's, 'd, 'k) cluster_env \<Rightarrow> node_id \<Rightarrow> ('t, 'q, 'x) executor_msg chan \<Rightarrow> 'w
      \<Rightarrow> (error, ('t, 'q, 'x, 'w, 'f, 's) cluster) result" where
  "cluster_new x n etx w =
     (case sk_bind x (addr n) w of
        (Inl e, w') \<Rightarrow> Panic ''bind''
      | (Inr l, w') \<Rightarrow>
          (case timer_wheel_new (request_timeout div tick_time) of
             None \<Rightarrow> Panic ''timer wheel''
           | Some tw \<Rightarrow> Ok
               \<lparr>cs_pid = \<lparr>group = Some ''rabble'', pname = ''cluster_server'', node = n\<rparr>,
                cs_node = n, executor_tx = etx, executor_timer_id = 0, timer_id = 0,
                cs_timer_wheel = tw, listener = l, listener_id = 0,
                cs_members = members_new (set_ops x) n, connections = [], established = [],
                registrar = w', cs_metrics = cluster_metrics_new\<rparr>))"

section \<open>Calls to the outside\<close>

text \<open>A call on the world; \<open>tryIO\<close> is \<open>try!(call.chain_err(|| k))\<close>.\<close>

definition sysM :: "('w \<Rightarrow> (io_error + 'a) \<times> 'w)
    \<Rightarrow> ('t, 'q, 'x, 'w, 'f, 's, io_error + 'a) cact" where
  "sysM f = (\<lambda>s. case f (registrar s) of (r, w) \<Rightarrow> (Ok r, s\<lparr>registrar := w\<rparr>))"

definition tryIO :: "('w \<Rightarrow> (io_error + 'a) \<times> 'w) \<Rightarrow> error
    \<Rightarrow> ('t, 'q, 'x, 'w, 'f, 's, 'a) cact" where
  "tryIO f k = bindM (sysM f) (\<lambda>r. case r of Inl e \<Rightarrow> fail k | Inr a \<Rightarrow> ret a)"

definition wheel_insert :: "usize \<Rightarrow> ('t, 'q, 'x, 'w, 'f, 's, nat) cact" where
  "wheel_insert i = (\<lambda>s. case tw_insert i (cs_timer_wheel s) of
     None \<Rightarrow> (Panic ''timer_wheel.insert'', s)
   | Some (slot, w) \<Rightarrow> (Ok slot, s\<lparr>cs_timer_wheel := w\<rparr>))"

definition wheel_remove :: "usize \<Rightarrow> nat \<Rightarrow> ('t, 'q, 'x, 'w, 'f, 's, unit) cact" where
  "wheel_remove i slot = (\<lambda>s. case tw_remove i slot (cs_timer_wheel s) of
     None \<Rightarrow> (Panic ''timer_wheel.remove'', s)
   | Some w \<Rightarrow> (Ok (), s\<lparr>cs_timer_wheel := w\<rparr>))"

definition cs_wheel_expire :: "('t, 'q, 'x, 'w, 'f, 's, usize list) cact" where
  "cs_wheel_expire = (\<lambda>s. case tw_expire (cs_timer_wheel s) of
     None \<Rightarrow> (Panic ''timer_wheel.expire'', s)
   | Some (ids, w) \<Rightarrow> (Ok ids, s\<lparr>cs_timer_wheel := w\<rparr>))"

definition encode_msg :: "('t, 'w, 'f, 's, 'd, 'k) cluster_env \<Rightarrow> ('t, 's, 'd) external_msg
    \<Rightarrow> error \<Rightarrow> ('t, 'q, 'x, 'w, 'f, 's, bytes) cact" where
  "encode_msg x m k = (case msg_encode x m of None \<Rightarrow> fail k | Some b \<Rightarrow> ret b)"

definition bump :: "(cluster_metrics \<Rightarrow> cluster_metrics) \<Rightarrow> ('t, 'q, 'x, 'w, 'f, 's, unit) cact" where
  "bump f = modM (\<lambda>s. s\<lparr>cs_metrics := f (cs_metrics s)\<rparr>)"

definition executor_send :: "('t, 'q, 'x) executor_msg \<Rightarrow> ('t, 'q, 'x, 'w, 'f, 's, bool) cact" where
  "executor_send m = (\<lambda>s. case chan_send m (executor_tx s) of
     (ok, ch) \<Rightarrow> (Ok ok, s\<lparr>executor_tx := ch\<rparr>))"

section \<open>Writing\<close>

text \<open>\<open>conn_write\<close> works on one borrowed connection and the registrar.\<close>

definition conn_write ::
    "('t, 'w, 'f, 's, 'd, 'k) cluster_env \<Rightarrow> usize \<Rightarrow> 'f conn \<Rightarrow> bytes option \<Rightarrow> 'w
      \<Rightarrow> (error + unit) \<times> 'f conn \<times> 'w" where
  "conn_write x i c m w =
     (case wr_write x (sock c) m (writer c) w of
        (Inl e, wr, w1) \<Rightarrow> (Inl (WriteError i (conn_node c)), c\<lparr>writer := wr\<rparr>, w1)
      | (Inr writable, wr, w1) \<Rightarrow>
          if \<not> writable then
            (case rg_reregister x i (sock c) Both w1 of
               (Inl e, w2) \<Rightarrow> (Inl (RegistrarError (Some i) (conn_node c)), c\<lparr>writer := wr\<rparr>, w2)
             | (Inr u, w2) \<Rightarrow> (Inr (), c\<lparr>writer := wr\<rparr>, w2))
          else (Inr (), c\<lparr>writer := wr\<rparr>, w1))"

text \<open>The same on the connection with a given id, if there is one.\<close>

definition write_conn ::
    "('t, 'w, 'f, 's, 'd, 'k) cluster_env \<Rightarrow> usize \<Rightarrow> bytes option
      \<Rightarrow> ('t, 'q, 'x, 'w, 'f, 's, unit) cact" where
  "write_conn x i m = (\<lambda>s.
     case hm_get (connections s) i of
       None \<Rightarrow> (Ok (), s)
     | Some c \<Rightarrow>
         (case conn_write x i c m (registrar s) of
            (r, c', w) \<Rightarrow>
              (case r of Inl e \<Rightarrow> Err e | Inr u \<Rightarrow> Ok (),
               s\<lparr>connections := hm_insert i c' (connections s), registrar := w\<rparr>)))"

definition update_conn :: "usize \<Rightarrow> ('f conn \<Rightarrow> 'f conn) \<Rightarrow> ('t, 'q, 'x, 'w, 'f, 's, unit) cact" where
  "update_conn i f = modM (\<lambda>s.
     case hm_get (connections s) i of
       None \<Rightarrow> s
     | Some c \<Rightarrow> s\<lparr>connections := hm_insert i (f c) (connections s)\<rparr>)"

definition cs_write ::
    "('t, 'w, 'f, 's, 'd, 'k) cluster_env \<Rightarrow> usize \<Rightarrow> bytes option
      \<Rightarrow> ('t, 'q, 'x, 'w, 'f, 's, unit) cact" where
  "cs_write x i m = withM (\<lambda>s.
     case hm_get (connections s) i of
       None \<Rightarrow> ret ()
     | Some c \<Rightarrow>
         seqM
           (case m of
              None \<Rightarrow>
                seqM (if wr_is_writable x (writer c)
                      then tryIO (rg_reregister x i (sock c) Read)
                             (RegistrarError (Some i) (conn_node c))
                      else ret ())
                  (update_conn i (\<lambda>c. c\<lparr>writer := wr_writable x (writer c)\<rparr>))
            | Some b \<Rightarrow> ret ())
           (write_conn x i m))"

text \<open>
  \<open>broadcast\<close>: the loop over the connections, which skips those whose members were not sent
  and goes on after an error.
\<close>

fun broadcast_conns ::
    "('t, 'w, 'f, 's, 'd, 'k) cluster_env \<Rightarrow> bytes \<Rightarrow> (usize, 'f conn) hmap \<Rightarrow> 'w
      \<Rightarrow> error list \<times> (usize, 'f conn) hmap \<times> 'w" where
  "broadcast_conns x b [] w = ([], [], w)"
| "broadcast_conns x b ((i, c) # cs) w =
     (if \<not> conn_members_sent c then
        (case broadcast_conns x b cs w of (es, cs', w') \<Rightarrow> (es, (i, c) # cs', w'))
      else
        (case conn_write x i c (Some b) w of
           (r, c', w1) \<Rightarrow>
             (case broadcast_conns x b cs w1 of
                (es, cs', w2) \<Rightarrow>
                  ((case r of Inl e \<Rightarrow> e # es | Inr u \<Rightarrow> es), (i, c') # cs', w2))))"

definition cs_broadcast ::
    "('t, 'w, 'f, 's, 'd, 'k) cluster_env \<Rightarrow> bytes \<Rightarrow> ('t, 'q, 'x, 'w, 'f, 's, unit) cact" where
  "cs_broadcast x b = (\<lambda>s.
     case broadcast_conns x b (connections s) (registrar s) of
       (es, cs, w) \<Rightarrow>
         (if es = [] then Ok () else Err (BroadcastError es),
          s\<lparr>connections := cs, registrar := w\<rparr>))"

definition broadcast_delta ::
    "('t, 'w, 'f, 's, 'd, 'k) cluster_env \<Rightarrow> 'd \<Rightarrow> ('t, 'q, 'x, 'w, 'f, 's, unit) cact" where
  "broadcast_delta x d = bindM (encode_msg x (DeltaMsg d) (EncodeError None None)) (cs_broadcast x)"

definition broadcast_pings ::
    "('t, 'w, 'f, 's, 'd, 'k) cluster_env \<Rightarrow> ('t, 'q, 'x, 'w, 'f, 's, unit) cact" where
  "broadcast_pings x = bindM (encode_msg x Ping (EncodeError None None)) (cs_broadcast x)"

definition encode_members ::
    "('t, 'w, 'f, 's, 'd, 'k) cluster_env \<Rightarrow> usize \<Rightarrow> ('t, 'q, 'x, 'w, 'f, 's, bytes) cact" where
  "encode_members x i = withM (\<lambda>s.
     encode_msg x (Members (cs_node s) (members_get_orset (cs_members s))) (EncodeError (Some i) None))"

definition send_members ::
    "('t, 'w, 'f, 's, 'd, 'k) cluster_env \<Rightarrow> usize \<Rightarrow> ('t, 'q, 'x, 'w, 'f, 's, unit) cact" where
  "send_members x i =
     bindM (encode_members x i) (\<lambda>b.
       seqM (write_conn x i (Some b)) (update_conn i (\<lambda>c. c\<lparr>conn_members_sent := True\<rparr>)))"

section \<open>Opening and closing connections\<close>

definition init_connection ::
    "('t, 'w, 'f, 's, 'd, 'k) cluster_env \<Rightarrow> fd \<Rightarrow> node_id option
      \<Rightarrow> ('t, 'q, 'x, 'w, 'f, 's, usize) cact" where
  "init_connection x sk n =
     bindM (tryIO (rg_register x sk Read) (RegistrarError None None)) (\<lambda>i.
       bindM (wheel_insert i) (\<lambda>slot.
         seqM (modM (\<lambda>s. s\<lparr>connections := hm_insert i
                 ((conn_new x sk n (n \<noteq> None))\<lparr>timer_wheel_index := slot\<rparr>) (connections s)\<rparr>))
           (ret i)))"

definition connect ::
    "('t, 'w, 'f, 's, 'd, 'k) cluster_env \<Rightarrow> node_id \<Rightarrow> ('t, 'q, 'x, 'w, 'f, 's, unit) cact" where
  "connect x n =
     bindM (tryIO (sk_new_v4 x) (ErrorMsg ''Failed to create a IPv4 socket'')) (\<lambda>b.
       bindM (tryIO (sk_to_tcp_stream x b) (ErrorMsg ''Failed to create TcpStream'')) (\<lambda>sk.
         seqM (tryIO (sk_set_nonblocking x sk) (ErrorMsg ''Failed to make socket nonblocking''))
           (bindM (sysM (sk_connect x sk (addr n))) (\<lambda>r.
              if (case r of
                    Inl e \<Rightarrow> (case raw_os_error e of None \<Rightarrow> False | Some k \<Rightarrow> k \<noteq> einprogress x)
                  | Inr u \<Rightarrow> False)
              then fail (ConnectError n)
              else seqM (init_connection x sk (Some n)) (ret ())))))"

fun accept_loop ::
    "('t, 'w, 'f, 's, 'd, 'k) cluster_env \<Rightarrow> (io_error + fd) list
      \<Rightarrow> ('t, 'q, 'x, 'w, 'f, 's, unit) cact" where
  "accept_loop x [] = ret ()"
| "accept_loop x (Inl e # rest) = modM (\<lambda>s. s\<lparr>listener := rest\<rparr>)"
| "accept_loop x (Inr sk # rest) =
     seqM (modM (\<lambda>s. s\<lparr>listener := rest\<rparr>))
       (seqM (bump (\<lambda>m. m\<lparr>accepted_connections := accepted_connections m + 1\<rparr>))
         (seqM (tryIO (sk_set_nonblocking x sk) (ErrorMsg ''Failed to make socket nonblocking''))
           (bindM (init_connection x sk None) (\<lambda>i.
              seqM (send_members x i) (accept_loop x rest)))))"

definition accept_connection ::
    "('t, 'w, 'f, 's, 'd, 'k) cluster_env \<Rightarrow> ('t, 'q, 'x, 'w, 'f, 's, unit) cact" where
  "accept_connection x = withM (\<lambda>s. accept_loop x (listener s))"

text \<open>Close an existing connection and remove all related state.\<close>

definition cs_close ::
    "('t, 'w, 'f, 's, 'd, 'k) cluster_env \<Rightarrow> usize \<Rightarrow> ('t, 'q, 'x, 'w, 'f, 's, unit) cact" where
  "cs_close x i = withM (\<lambda>s.
     case hm_get (connections s) i of
       None \<Rightarrow> ret ()
     | Some c \<Rightarrow>
         seqM (modM (\<lambda>s. s\<lparr>connections := hm_remove i (connections s)\<rparr>))
           (seqM (bindM (sysM (rg_deregister x (sock c))) (\<lambda>_. ret ()))
             (seqM (wheel_remove i (timer_wheel_index c))
               (case conn_node c of
                  None \<Rightarrow> ret ()
                | Some n \<Rightarrow> modM (\<lambda>s.
                    case hm_get (established s) n of
                      None \<Rightarrow> s
                    | Some e \<Rightarrow>
                        if e = i then s\<lparr>established := hm_remove n (established s)\<rparr>
                        else s\<lparr>established := hm_insert n e (hm_remove n (established s))\<rparr>)))))"

text \<open>The order on node ids decides which of two connections between the same nodes goes.\<close>

definition choose_connection_to_close ::
    "usize \<Rightarrow> node_id \<Rightarrow> ('t, 'q, 'x, 'w, 'f, 's) cluster \<Rightarrow> usize option" where
  "choose_connection_to_close i from_node s =
     (case hm_get (established s) from_node of
        None \<Rightarrow> None
      | Some saved_id \<Rightarrow>
          (case hm_get (connections s) saved_id of
             None \<Rightarrow> None
           | Some saved_conn \<Rightarrow>
               if (is_client saved_conn \<and> cs_node s < from_node)
                 \<or> (\<not> is_client saved_conn \<and> from_node < cs_node s)
               then Some saved_id else Some i))"

definition mark_established ::
    "usize \<Rightarrow> node_id \<Rightarrow> ('t, 'q, 'x, 'w, 'f, 's, unit) cact" where
  "mark_established i from_node = withM (\<lambda>s.
     case hm_get (connections s) i of
       None \<Rightarrow> ret ()
     | Some c \<Rightarrow>
         seqM (wheel_remove i (timer_wheel_index c))
           (bindM (wheel_insert i) (\<lambda>slot.
              modM (\<lambda>s. s\<lparr>connections := hm_insert i
                    (c\<lparr>conn_node := Some from_node, timer_wheel_index := slot\<rparr>) (connections s),
                  established := hm_insert from_node i (established s)\<rparr>))))"

definition establish_connection ::
    "('t, 'w, 'f, 's, 'd, 'k) cluster_env \<Rightarrow> usize \<Rightarrow> node_id \<Rightarrow> 's
      \<Rightarrow> ('t, 'q, 'x, 'w, 'f, 's, unit) cact" where
  "establish_connection x i from_node other =
     seqM (modM (\<lambda>s. s\<lparr>cs_members := members_join (set_ops x) other (cs_members s)\<rparr>))
       (withM (\<lambda>s.
          case choose_connection_to_close i from_node s of
            None \<Rightarrow> mark_established i from_node
          | Some close_id \<Rightarrow>
              seqM (cs_close x close_id)
                (if close_id = i then ret () else mark_established i from_node)))"

definition reset_timer :: "usize \<Rightarrow> ('t, 'q, 'x, 'w, 'f, 's, unit) cact" where
  "reset_timer i = withM (\<lambda>s.
     case hm_get (connections s) i of
       None \<Rightarrow> ret ()
     | Some c \<Rightarrow>
         seqM (wheel_remove i (timer_wheel_index c))
           (bindM (wheel_insert i) (\<lambda>slot.
              update_conn i (\<lambda>c. c\<lparr>timer_wheel_index := slot\<rparr>))))"

section \<open>Membership and connections\<close>

definition disconnect_all ::
    "('t, 'w, 'f, 's, 'd, 'k) cluster_env \<Rightarrow> ('t, 'q, 'x, 'w, 'f, 's, unit) cact" where
  "disconnect_all x = withM (\<lambda>s.
     seqM (modM (\<lambda>s. s\<lparr>established := [], connections := []\<rparr>))
       (forM (connections s) (\<lambda>(i, c).
          seqM (wheel_remove i (timer_wheel_index c))
            (bindM (sysM (rg_deregister x (sock c))) (\<lambda>_. ret ())))))"

text \<open>The log message of a failed deregistration unwraps the peer's node.\<close>

definition disconnect_node ::
    "('t, 'w, 'f, 's, 'd, 'k) cluster_env \<Rightarrow> node_id \<Rightarrow> ('t, 'q, 'x, 'w, 'f, 's, unit) cact" where
  "disconnect_node x n = withM (\<lambda>s.
     case hm_get (established s) n of
       None \<Rightarrow> ret ()
     | Some i \<Rightarrow>
         seqM (modM (\<lambda>s. s\<lparr>established := hm_remove n (established s)\<rparr>))
           (case hm_get (connections s) i of
              None \<Rightarrow> panic ''connections.remove''
            | Some c \<Rightarrow>
                seqM (modM (\<lambda>s. s\<lparr>connections := hm_remove i (connections s)\<rparr>))
                  (seqM (wheel_remove i (timer_wheel_index c))
                    (bindM (sysM (rg_deregister x (sock c))) (\<lambda>r.
                       case r of
                         Inl e \<Rightarrow> (if conn_node c = None then panic ''conn.node'' else ret ())
                       | Inr u \<Rightarrow> ret ())))))"

definition disconnect_established ::
    "('t, 'w, 'f, 's, 'd, 'k) cluster_env \<Rightarrow> node_id list \<Rightarrow> ('t, 'q, 'x, 'w, 'f, 's, unit) cact" where
  "disconnect_established x to_disconnect = forM to_disconnect (disconnect_node x)"

definition known_peers :: "(usize, 'f conn) hmap \<Rightarrow> node_id list" where
  "known_peers cs = hs_collect (List.map_filter (\<lambda>(i, c). conn_node c) cs)"

definition check_connections ::
    "('t, 'w, 'f, 's, 'd, 'k) cluster_env \<Rightarrow> ('t, 'q, 'x, 'w, 'f, 's, unit) cact" where
  "check_connections x = withM (\<lambda>s.
     let all = members_all (set_ops x) (cs_members s) in
     if cs_node s \<notin> set all then disconnect_all x
     else
       let known = known_peers (connections s);
           to_connect = filter (\<lambda>n. n \<noteq> cs_node s) (hs_difference all known);
           to_disconnect = hs_difference known all
       in seqM
            (forM to_connect (\<lambda>n.
               seqM (bump (\<lambda>m. m\<lparr>connection_attempts := connection_attempts m + 1\<rparr>))
                 (catchM (connect x n) (\<lambda>_. ret ()))))
            (disconnect_established x to_disconnect))"

definition cs_join ::
    "('t, 'w, 'f, 's, 'd, 'k) cluster_env \<Rightarrow> node_id \<Rightarrow> ('t, 'q, 'x, 'w, 'f, 's, unit) cact" where
  "cs_join x n = withM (\<lambda>s.
     case members_add (set_ops x) n (cs_members s) of
       (delta, ms) \<Rightarrow>
         seqM (modM (\<lambda>s. s\<lparr>cs_members := ms\<rparr>))
           (seqM (broadcast_delta x delta)
             (seqM (bump (\<lambda>m. m\<lparr>connection_attempts := connection_attempts m + 1\<rparr>))
               (connect x n))))"

definition cs_leave ::
    "('t, 'w, 'f, 's, 'd, 'k) cluster_env \<Rightarrow> node_id \<Rightarrow> ('t, 'q, 'x, 'w, 'f, 's, unit) cact" where
  "cs_leave x n = withM (\<lambda>s.
     case members_leave (set_ops x) n (cs_members s) of
       (d, ms) \<Rightarrow>
         seqM (modM (\<lambda>s. s\<lparr>cs_members := ms\<rparr>))
           (case d of None \<Rightarrow> ret () | Some delta \<Rightarrow> broadcast_delta x delta))"

section \<open>Reading\<close>

text \<open>
  Frames are decoded one by one; the first that does not decode ends the loop. The number of
  frames taken from the reader comes with the result.
\<close>

fun decode_frames ::
    "('t, 'w, 'f, 's, 'd, 'k) cluster_env \<Rightarrow> bytes list
      \<Rightarrow> nat \<times> ('t, 's, 'd) external_msg list option" where
  "decode_frames x [] = (0, Some [])"
| "decode_frames x (b # bs) =
     (case msg_decode x b of
        None \<Rightarrow> (1, None)
      | Some m \<Rightarrow>
          (case decode_frames x bs of (n, r) \<Rightarrow> (Suc n, map_option (\<lambda>ms. m # ms) r)))"

definition decode_messages ::
    "('t, 'w, 'f, 's, 'd, 'k) cluster_env \<Rightarrow> usize
      \<Rightarrow> ('t, 'q, 'x, 'w, 'f, 's, ('t, 's, 'd) external_msg list) cact" where
  "decode_messages x i = (\<lambda>s.
     case hm_get (connections s) i of
       None \<Rightarrow> (Ok [], s)
     | Some c \<Rightarrow>
         (case rd_read x (sock c) (reader c) (registrar s) of
            (Inl e, rd, w) \<Rightarrow>
              (Err (ReadError i (conn_node c)),
               s\<lparr>connections := hm_insert i (c\<lparr>reader := rd\<rparr>) (connections s), registrar := w\<rparr>)
          | (Inr n, rd, w) \<Rightarrow>
              (case decode_frames x (rd_frames x rd) of
                 (k, r) \<Rightarrow>
                   (case r of None \<Rightarrow> Err (DecodeError i (conn_node c)) | Some ms \<Rightarrow> Ok ms,
                    s\<lparr>connections := hm_insert i (c\<lparr>reader := rd_drop x k rd\<rparr>) (connections s),
                      registrar := w\<rparr>))))"

definition handle_decoded_message ::
    "('t, 'w, 'f, 's, 'd, 'k) cluster_env \<Rightarrow> usize \<Rightarrow> ('t, 's, 'd) external_msg
      \<Rightarrow> ('t, 'q, 'x, 'w, 'f, 's, unit) cact" where
  "handle_decoded_message x i m =
     (case m of
        Members from_node other \<Rightarrow>
          seqM (establish_connection x i from_node other) (check_connections x)
      | Ping \<Rightarrow> reset_timer i
      | RemoteEnvelope env \<Rightarrow>
          seqM (bump (\<lambda>m. m\<lparr>received_remote_envelopes := received_remote_envelopes m + 1\<rparr>))
            (bindM (executor_send (ExecEnvelope env)) (\<lambda>ok.
               if ok then ret ()
               else fail (SendError ''ExecutorMsg::Enelope'' (Some (env_to env)))))
      | DeltaMsg d \<Rightarrow> withM (\<lambda>s.
          case members_join_delta (set_ops x) d (cs_members s) of
            (changed, ms) \<Rightarrow>
              seqM (modM (\<lambda>s. s\<lparr>cs_members := ms\<rparr>))
                (if changed then broadcast_delta x d else ret ())))"

definition members_sent :: "usize \<Rightarrow> ('t, 'q, 'x, 'w, 'f, 's) cluster \<Rightarrow> bool option" where
  "members_sent i s = map_option conn_members_sent (hm_get (connections s) i)"

definition cs_read ::
    "('t, 'w, 'f, 's, 'd, 'k) cluster_env \<Rightarrow> usize \<Rightarrow> ('t, 'q, 'x, 'w, 'f, 's, unit) cact" where
  "cs_read x i = withM (\<lambda>s.
     case members_sent i s of
       Some False \<Rightarrow> send_members x i
     | None \<Rightarrow> ret ()
     | Some True \<Rightarrow>
         bindM (decode_messages x i) (\<lambda>messages. forM messages (handle_decoded_message x i)))"

section \<open>Notifications, requests and the loop\<close>

definition do_socket_io ::
    "('t, 'w, 'f, 's, 'd, 'k) cluster_env \<Rightarrow> notification \<Rightarrow> ('t, 'q, 'x, 'w, 'f, 's, unit) cact" where
  "do_socket_io x n =
     (case n_event n of
        Read \<Rightarrow> cs_read x (n_id n)
      | Write \<Rightarrow> cs_write x (n_id n) None
      | Both \<Rightarrow> seqM (cs_read x (n_id n)) (cs_write x (n_id n) None))"

text \<open>Close the connections that have timed out.\<close>

definition cs_deregister ::
    "('t, 'w, 'f, 's, 'd, 'k) cluster_env \<Rightarrow> usize list \<Rightarrow> ('t, 'q, 'x, 'w, 'f, 's, unit) cact" where
  "cs_deregister x expired = forM expired (cs_close x)"

definition cs_tick ::
    "('t, 'w, 'f, 's, 'd, 'k) cluster_env \<Rightarrow> ('t, 'q, 'x, 'w, 'f, 's, unit) cact" where
  "cs_tick x =
     bindM cs_wheel_expire (\<lambda>expired.
       seqM (cs_deregister x expired) (seqM (broadcast_pings x) (check_connections x)))"

definition tick_executor :: "('t, 'q, 'x, 'w, 'f, 's, unit) cact" where
  "tick_executor = bindM (executor_send Tick) (\<lambda>ok. if ok then ret () else panic ''executor_tx.send'')"

definition handle_notification ::
    "('t, 'w, 'f, 's, 'd, 'k) cluster_env \<Rightarrow> notification \<Rightarrow> ('t, 'q, 'x, 'w, 'f, 's, unit) cact" where
  "handle_notification x n = withM (\<lambda>s.
     if n_id n = listener_id s then accept_connection x
     else if n_id n = timer_id s then cs_tick x
     else if n_id n = executor_timer_id s then tick_executor
     else do_socket_io x n)"

definition handle_poll_notifications ::
    "('t, 'w, 'f, 's, 'd, 'k) cluster_env \<Rightarrow> notification list
      \<Rightarrow> ('t, 'q, 'x, 'w, 'f, 's, unit) cact" where
  "handle_poll_notifications x ns =
     bindM (collectM ns (handle_notification x)) (\<lambda>es.
       if es = [] then ret () else fail (PollNotificationErrors es))"

definition send_remote ::
    "('t, 'w, 'f, 's, 'd, 'k) cluster_env \<Rightarrow> 't envelope \<Rightarrow> ('t, 'q, 'x, 'w, 'f, 's, unit) cact" where
  "send_remote x env = withM (\<lambda>s.
     case hm_get (established s) (node (env_to env)) of
       None \<Rightarrow> ret ()
     | Some i \<Rightarrow>
         bindM (encode_msg x (RemoteEnvelope env) (EncodeError (Some i) (Some (node (env_to env)))))
           (\<lambda>b. cs_write x i (Some b)))"

definition cs_get_status ::
    "('t, 'w, 'f, 's, 'd, 'k) cluster_env \<Rightarrow> correlation_id \<Rightarrow> ('t, 'q, 'x, 'w, 'f, 's, unit) cact" where
  "cs_get_status x cid = withM (\<lambda>s.
     bindM (executor_send (ExecEnvelope
         \<lparr>env_to = cid_pid cid, env_from = cs_pid s,
          env_msg = ClusterStatus
            \<lparr>st_members = members_all (set_ops x) (cs_members s),
             st_established = hs_collect (hm_keys (established s)),
             num_connections = length (connections s)\<rparr>,
          env_cid = Some cid\<rparr>)) (\<lambda>ok.
       if ok then ret () else fail (SendError ''ExecutorMsg::Envelope'' (Some (cid_pid cid)))))"

definition cs_send_metrics :: "'t envelope \<Rightarrow> ('t, 'q, 'x, 'w, 'f, 's, unit) cact" where
  "cs_send_metrics env = withM (\<lambda>s.
     case env_msg env of
       GetMetrics \<Rightarrow>
         bindM (executor_send (ExecEnvelope
           \<lparr>env_to = env_from env, env_from = cs_pid s,
            env_msg = Metrics (cluster_metrics_data (cs_metrics s)),
            env_cid = env_cid env\<rparr>)) (\<lambda>ok. ret ())
     | _ \<Rightarrow> ret ())"

definition handle_cluster_msg ::
    "('t, 'w, 'f, 's, 'd, 'k) cluster_env \<Rightarrow> 't cluster_msg \<Rightarrow> ('t, 'q, 'x, 'w, 'f, 's, unit) cact" where
  "handle_cluster_msg x m =
     (case m of
        PollNotifications ns \<Rightarrow>
          seqM (bump (\<lambda>m. m\<lparr>poll_notifications := poll_notifications m + 1\<rparr>))
            (handle_poll_notifications x ns)
      | Join n \<Rightarrow> seqM (bump (\<lambda>m. m\<lparr>joins := joins m + 1\<rparr>)) (cs_join x n)
      | Leave n \<Rightarrow> seqM (bump (\<lambda>m. m\<lparr>leaves := leaves m + 1\<rparr>)) (cs_leave x n)
      | ClusterEnvelope env \<Rightarrow>
          seqM (bump (\<lambda>m. m\<lparr>received_local_envelopes := received_local_envelopes m + 1\<rparr>))
            (withM (\<lambda>s. if env_to env = cs_pid s then cs_send_metrics env else send_remote x env))
      | ClusterGetStatus cid \<Rightarrow>
          seqM (bump (\<lambda>m. m\<lparr>status_requests := status_requests m + 1\<rparr>)) (cs_get_status x cid)
      | ClusterShutdown \<Rightarrow> withM (\<lambda>s. fail (ShutdownErr (cs_pid s))))"

text \<open>The errors that end the loop.\<close>

fun fatal :: "error \<Rightarrow> bool" where
  "fatal (EncodeError i n) = True"
| "fatal (DecodeError i n) = True"
| "fatal (RegistrarError i n) = True"
| "fatal (SendError m p) = True"
| "fatal (ShutdownErr p) = True"
| "fatal e = False"

text \<open>One turn of \<open>ClusterServer::run\<close>: an error closes the connections it names.\<close>

definition handle_error ::
    "('t, 'w, 'f, 's, 'd, 'k) cluster_env \<Rightarrow> error \<Rightarrow> ('t, 'q, 'x, 'w, 'f, 's, unit) cact" where
  "handle_error x e =
     seqM (bump (\<lambda>m. m\<lparr>errors := errors m + 1\<rparr>)) (forM (get_ids e) (cs_close x))"

definition cluster_handle ::
    "('t, 'w, 'f, 's, 'd, 'k) cluster_env \<Rightarrow> 't cluster_msg \<Rightarrow> ('t, 'q, 'x, 'w, 'f, 's) cluster
      \<Rightarrow> loop_status \<times> ('t, 'q, 'x, 'w, 'f, 's) cluster" where
  "cluster_handle x m s =
     (case handle_cluster_msg x m s of
        (Ok u, s1) \<Rightarrow> (Running, s1)
      | (Panic p, s1) \<Rightarrow> (Crashed p, s1)
      | (Err e, s1) \<Rightarrow>
          (case handle_error x e s1 of
             (Panic p, s2) \<Rightarrow> (Crashed p, s2)
           | (_, s2) \<Rightarrow> (if fatal e then Stopped else Running, s2)))"

text \<open>The timers and the listener are registered before the loop starts.\<close>

definition unwrapM :: "string \<Rightarrow> ('w \<Rightarrow> (io_error + 'a) \<times> 'w)
    \<Rightarrow> ('t, 'q, 'x, 'w, 'f, 's, 'a) cact" where
  "unwrapM p f = bindM (sysM f) (\<lambda>r. case r of Inl e \<Rightarrow> panic p | Inr a \<Rightarrow> ret a)"

definition cluster_start ::
    "('t, 'w, 'f, 's, 'd, 'k) cluster_env \<Rightarrow> ('t, 'q, 'x, 'w, 'f, 's, unit) cact" where
  "cluster_start x =
     bindM (unwrapM ''set_interval'' (rg_set_interval x tick_time)) (\<lambda>t.
       seqM (modM (\<lambda>s. s\<lparr>timer_id := t\<rparr>))
         (bindM (unwrapM ''set_interval'' (rg_set_interval x executor_tick_time)) (\<lambda>t.
            seqM (modM (\<lambda>s. s\<lparr>executor_timer_id := t\<rparr>))
              (bindM (unwrapM ''register'' (rg_register_listener x Read)) (\<lambda>t.
                 modM (\<lambda>s. s\<lparr>listener_id := t\<rparr>))))))"

definition cluster_run ::
    "('t, 'w, 'f, 's, 'd, 'k) cluster_env \<Rightarrow> 't cluster_msg list \<Rightarrow> ('t, 'q, 'x, 'w, 'f, 's) cluster
      \<Rightarrow> loop_status \<times> ('t, 'q, 'x, 'w, 'f, 's) cluster" where
  "cluster_run x ms s =
     (case cluster_start x s of
        (Panic p, s1) \<Rightarrow> (Crashed p, s1)
      | (_, s1) \<Rightarrow> run_loop (cluster_handle x) ms s1)"

end
