(* ===== verification/ClusterInv.thy ===== *)
theory ClusterInv
  imports Cluster
begin

text \<open>
  The invariant of the cluster server's state, and that every handler keeps it without a panic:
  each connection's id is in the timer wheel in exactly the slot the connection records, and
  each established id is a connection to that node over which the members were sent.

  Two facts about the outside are hypotheses. \<open>amy\<close> numbers registrations with a counter, so an
  id it returns was not returned before: \<open>used\<close> gives the ids returned so far. A peer names
  itself the same way in every \<open>Members\<close> message on one socket: \<open>peer\<close> gives the node at the
  other end of a socket.
\<close>

section \<open>Hypotheses\<close>

definition grows :: "('w \<Rightarrow> usize set) \<Rightarrow> ('w \<Rightarrow> 'b \<times> 'w) \<Rightarrow> bool" where
  "grows used f \<longleftrightarrow> (\<forall>w. used w \<subseteq> used (snd (f w)))"

definition ids_fresh ::
    "('t, 'w, 'f, 's, 'd, 'k) cluster_env \<Rightarrow> ('w \<Rightarrow> usize set) \<Rightarrow> bool" where
  "ids_fresh x used \<longleftrightarrow>
     (\<forall>sk ev w i w'. rg_register x sk ev w = (Inr i, w') \<longrightarrow> i \<notin> used w \<and> insert i (used w) \<subseteq> used w') \<and>
     (\<forall>sk ev. grows used (rg_register x sk ev)) \<and>
     (\<forall>i sk ev. grows used (rg_reregister x i sk ev)) \<and>
     (\<forall>sk. grows used (rg_deregister x sk)) \<and>
     (\<forall>ev. grows used (rg_register_listener x ev)) \<and>
     (\<forall>n. grows used (rg_set_interval x n)) \<and>
     grows used (sk_new_v4 x) \<and>
     (\<forall>sk. grows used (sk_to_tcp_stream x sk)) \<and>
     (\<forall>sk. grows used (sk_set_nonblocking x sk)) \<and>
     (\<forall>sk a. grows used (sk_connect x sk a)) \<and>
     (\<forall>sk f. grows used (\<lambda>w. let (r, f', w') = rd_read x sk f w in ((r, f'), w'))) \<and>
     (\<forall>sk m f. grows used (\<lambda>w. let (r, f', w') = wr_write x sk m f w in ((r, f'), w')))"

definition honest_peers ::
    "('t, 'w, 'f, 's, 'd, 'k) cluster_env \<Rightarrow> (fd \<Rightarrow> node_id) \<Rightarrow> bool" where
  "honest_peers x peer \<longleftrightarrow>
     (\<forall>sk f w n f' w' b from_node other.
        rd_read x sk f w = (Inr n, f', w') \<longrightarrow> b \<in> set (rd_frames x f') \<longrightarrow>
        msg_decode x b = Some (Members from_node other) \<longrightarrow> from_node = peer sk)"

section \<open>The invariant\<close>

text \<open>
  \<open>E\<close> are the ids a tick has taken out of the wheel and not closed yet. The last argument pins
  the connection whose messages are being handled to its socket.
\<close>

definition own_slots :: "usize set \<Rightarrow> (usize, 'f conn) hmap \<Rightarrow> usize \<Rightarrow> nat option" where
  "own_slots E cs i = (if i \<in> E then None else map_option timer_wheel_index (hm_get cs i))"

definition pinned :: "('w \<Rightarrow> usize set) \<Rightarrow> (usize \<times> fd) option
    \<Rightarrow> ('t, 'q, 'x, 'w, 'f, 's) cluster \<Rightarrow> bool" where
  "pinned used pin s \<longleftrightarrow> (case pin of None \<Rightarrow> True | Some (i, sk) \<Rightarrow>
     i \<in> used (registrar s) \<and>
     (\<forall>c. hm_get (connections s) i = Some c \<longrightarrow> sock c = sk \<and> conn_members_sent c))"

definition established_ok :: "(fd \<Rightarrow> node_id) \<Rightarrow> ('t, 'q, 'x, 'w, 'f, 's) cluster \<Rightarrow> bool" where
  "established_ok peer s \<longleftrightarrow>
     (\<forall>n i. hm_get (established s) n = Some i \<longrightarrow>
        (\<exists>c. hm_get (connections s) i = Some c \<and> conn_node c = Some n \<and> conn_members_sent c
           \<and> n = peer (sock c)))"

definition cl_inv ::
    "('t, 'w, 'f, 's, 'd, 'k) cluster_env \<Rightarrow> ('w \<Rightarrow> usize set) \<Rightarrow> (fd \<Rightarrow> node_id) \<Rightarrow> usize set
      \<Rightarrow> (usize \<times> fd) option \<Rightarrow> ('t, 'q, 'x, 'w, 'f, 's) cluster \<Rightarrow> bool" where
  "cl_inv x used peer E pin s \<longleftrightarrow>
     ids_fresh x used \<and> honest_peers x peer \<and> rx_alive (executor_tx s)
     \<and> hm_ok (connections s) \<and> hm_ok (established s)
     \<and> wheel.owns (cs_timer_wheel s) (own_slots E (connections s))
     \<and> (\<forall>i c. hm_get (connections s) i = Some c \<longrightarrow> timer_wheel_index c < tw_size (cs_timer_wheel s))
     \<and> established_ok peer s
     \<and> dom (hm_get (connections s)) \<subseteq> used (registrar s)
     \<and> pinned used pin s"

lemma cl_invD:
  assumes "cl_inv x used peer E pin s"
  shows "ids_fresh x used" "honest_peers x peer" "rx_alive (executor_tx s)"
    "hm_ok (connections s)" "hm_ok (established s)"
    "wheel.owns (cs_timer_wheel s) (own_slots E (connections s))"
    "hm_get (connections s) i = Some c \<Longrightarrow> timer_wheel_index c < tw_size (cs_timer_wheel s)"
    "established_ok peer s" "hm_get (connections s) i = Some c \<Longrightarrow> i \<in> used (registrar s)"
    "pinned used pin s"
  using assms by (auto simp: cl_inv_def)

lemma cl_inv_wf: "cl_inv x used peer E pin s \<Longrightarrow> tw_wf (cs_timer_wheel s)"
  by (auto dest: cl_invD(6) wheel.owns_good)

lemma cl_inv_unpin: "cl_inv x used peer E pin s \<Longrightarrow> cl_inv x used peer E None s"
  by (simp add: cl_inv_def pinned_def)

text \<open>Fields the invariant does not read.\<close>

lemma cl_inv_frame [simp]:
  "cl_inv x used peer E pin (s\<lparr>cs_metrics := m\<rparr>) = cl_inv x used peer E pin s"
  "cl_inv x used peer E pin (s\<lparr>cs_members := ms\<rparr>) = cl_inv x used peer E pin s"
  "cl_inv x used peer E pin (s\<lparr>listener := l\<rparr>) = cl_inv x used peer E pin s"
  "cl_inv x used peer E pin (s\<lparr>timer_id := t\<rparr>) = cl_inv x used peer E pin s"
  "cl_inv x used peer E pin (s\<lparr>executor_timer_id := t\<rparr>) = cl_inv x used peer E pin s"
  "cl_inv x used peer E pin (s\<lparr>listener_id := t\<rparr>) = cl_inv x used peer E pin s"
  by (simp_all add: cl_inv_def established_ok_def pinned_def cong: option.case_cong)

lemma cl_inv_executor_tx:
  "cl_inv x used peer E pin s \<Longrightarrow> rx_alive ch \<Longrightarrow> cl_inv x used peer E pin (s\<lparr>executor_tx := ch\<rparr>)"
  by (simp add: cl_inv_def established_ok_def pinned_def cong: option.case_cong)

lemma cl_inv_world:
  "cl_inv x used peer E pin s \<Longrightarrow> used (registrar s) \<subseteq> used w \<Longrightarrow>
   cl_inv x used peer E pin (s\<lparr>registrar := w\<rparr>)"
  by (auto simp: cl_inv_def established_ok_def pinned_def split: option.splits)

text \<open>Connections may change their reader and writer, and have their members marked as sent.\<close>

definition same_conn :: "'f conn \<Rightarrow> 'f conn \<Rightarrow> bool" where
  "same_conn c c' \<longleftrightarrow> sock c' = sock c \<and> conn_node c' = conn_node c
     \<and> (conn_members_sent c \<longrightarrow> conn_members_sent c') \<and> timer_wheel_index c' = timer_wheel_index c"

lemma cl_inv_conns:
  assumes "cl_inv x used peer E pin s" and "hm_ok cs"
    and same: "\<And>i. rel_option same_conn (hm_get (connections s) i) (hm_get cs i)"
  shows "cl_inv x used peer E pin (s\<lparr>connections := cs\<rparr>)"
proof -
  have get: "hm_get (connections s) i = Some c \<Longrightarrow> \<exists>c'. hm_get cs i = Some c' \<and> same_conn c c'"
    "hm_get cs i = Some c' \<Longrightarrow> \<exists>c. hm_get (connections s) i = Some c \<and> same_conn c c'" for i c c'
    using same [of i] by (auto elim: option.rel_cases)
  have "own_slots E cs = own_slots E (connections s)"
  proof
    fix i
    show "own_slots E cs i = own_slots E (connections s) i"
      using same [of i] by (auto simp: own_slots_def same_conn_def elim!: option.rel_cases)
  qed
  moreover have "established_ok peer (s\<lparr>connections := cs\<rparr>)"
    using cl_invD(8) [OF assms(1)] get(1) by (fastforce simp: established_ok_def same_conn_def)
  moreover have "pinned used pin (s\<lparr>connections := cs\<rparr>)"
    using cl_invD(10) [OF assms(1)] get(2)
    by (fastforce simp: pinned_def same_conn_def split: option.splits)
  moreover have "dom (hm_get cs) \<subseteq> used (registrar s)"
    using get(2) cl_invD(9) [OF assms(1)] by blast
  moreover have "hm_get cs i = Some c \<Longrightarrow> timer_wheel_index c < tw_size (cs_timer_wheel s)" for i c
    using get(2) [of i c] cl_invD(7) [OF assms(1)] by (auto simp: same_conn_def)
  ultimately show ?thesis
    using assms(1,2) by (simp add: cl_inv_def)
qed

lemma cl_inv_conn:
  assumes "cl_inv x used peer E pin s" and "hm_get (connections s) i = Some c" and "same_conn c c'"
  shows "cl_inv x used peer E pin (s\<lparr>connections := hm_insert i c' (connections s)\<rparr>)"
  using assms
  by (intro cl_inv_conns) (auto simp: cl_invD(4) same_conn_def option.rel_refl)

lemma same_conn_io [simp]:
  "same_conn c (c\<lparr>writer := wr\<rparr>)" "same_conn c (c\<lparr>reader := rd\<rparr>)"
  "same_conn c (c\<lparr>conn_members_sent := True\<rparr>)" "same_conn c c"
  by (simp_all add: same_conn_def)

section \<open>Calls to the outside\<close>

lemma bump_safe [safe_rules]: "safe (cl_inv x used peer E pin) (bump f)"
  unfolding bump_def by (rule safe_mod) simp

lemma executor_send_safe [safe_rules]: "safe (cl_inv x used peer E pin) (executor_send m)"
  by (rule safeI)
     (auto simp: executor_send_def chan_send_def intro!: cl_inv_executor_tx dest: cl_invD(3))

lemma growsD: "grows used f \<Longrightarrow> f w = (r, w') \<Longrightarrow> used w \<subseteq> used w'"
  by (metis grows_def snd_conv)

lemma sysM_safe: "grows used f \<Longrightarrow> safe (cl_inv x used peer E pin) (sysM f)"
  by (rule safeI) (auto simp: sysM_def intro!: cl_inv_world dest: growsD split: prod.splits)

lemma tryIO_safe: "grows used f \<Longrightarrow> safe (cl_inv x used peer E pin) (tryIO f k)"
  unfolding tryIO_def
  by (auto intro!: safe_bind sysM_safe safe_ret safe_fail split: sum.splits)

lemma encode_msg_safe [safe_rules]: "safe P (encode_msg x m k)"
  unfolding encode_msg_def by (auto intro: safe_rules split: option.splits)

text \<open>The hypothesis on ids, available inside an action.\<close>

lemma safe_fresh:
  "(ids_fresh x used \<Longrightarrow> safe (cl_inv x used peer E pin) m) \<Longrightarrow> safe (cl_inv x used peer E pin) m"
  by (auto simp: safe_def triple_def dest: cl_invD(1))

lemma ids_freshD:
  assumes "ids_fresh x used"
  shows "rg_register x sk ev w = (Inr i, w') \<Longrightarrow> i \<notin> used w \<and> i \<in> used w' \<and> used w \<subseteq> used w'"
    and "grows used (rg_register x sk ev)" "grows used (rg_reregister x i sk ev)"
    "grows used (rg_deregister x sk)" "grows used (rg_register_listener x ev)"
    "grows used (rg_set_interval x n)" "grows used (sk_new_v4 x)"
    "grows used (sk_to_tcp_stream x sk)" "grows used (sk_set_nonblocking x sk)"
    "grows used (sk_connect x sk a)"
    "rd_read x sk f w = (r, f', w') \<Longrightarrow> used w \<subseteq> used w'"
    "wr_write x sk m f w = (r', f', w') \<Longrightarrow> used w \<subseteq> used w'"
proof -
  show "rg_register x sk ev w = (Inr i, w') \<Longrightarrow> i \<notin> used w \<and> i \<in> used w' \<and> used w \<subseteq> used w'"
    using assms unfolding ids_fresh_def by (meson insert_subset)
  show "rd_read x sk f w = (r, f', w') \<Longrightarrow> used w \<subseteq> used w'"
    using assms unfolding ids_fresh_def grows_def Let_def by (metis case_prod_conv snd_conv)
  show "wr_write x sk m f w = (r', f', w') \<Longrightarrow> used w \<subseteq> used w'"
    using assms unfolding ids_fresh_def grows_def Let_def by (metis case_prod_conv snd_conv)
qed (use assms in \<open>simp_all add: ids_fresh_def\<close>)

lemmas ids_fresh_grows = ids_freshD(2-10)

lemma conn_write_same: "conn_write x i c m w = (r, c', w') \<Longrightarrow> same_conn c c'"
  by (auto simp: conn_write_def split: prod.splits sum.splits if_splits)

lemma conn_write_used:
  assumes "ids_fresh x used" and "conn_write x i c m w = (r, c', w')"
  shows "used w \<subseteq> used w'"
proof -
  obtain v wr w1 where wr: "wr_write x (sock c) m (writer c) w = (v, wr, w1)"
    by (metis prod_cases3)
  have "used w \<subseteq> used w1" by (rule ids_freshD(12) [OF assms(1) wr])
  moreover have "used w1 \<subseteq> used (snd (rg_reregister x i (sock c) Both w1))"
    using ids_freshD(3) [OF assms(1)] by (simp add: grows_def)
  ultimately show ?thesis
    using assms(2) wr by (auto simp: conn_write_def split: prod.splits sum.splits if_splits)
qed

lemma write_conn_safe [safe_rules]: "safe (cl_inv x used peer E pin) (write_conn x i m)"
proof (rule safeI)
  fix s assume inv: "cl_inv x used peer E pin s"
  show "cl_inv x used peer E pin (snd (write_conn x i m s)) \<and> \<not> is_panic (fst (write_conn x i m s))"
  proof (cases "hm_get (connections s) i")
    case None
    with inv show ?thesis by (simp add: write_conn_def)
  next
    case (Some c)
    obtain r c' w where w: "conn_write x i c m (registrar s) = (r, c', w)" by (metis prod_cases3)
    have "cl_inv x used peer E pin
        (s\<lparr>connections := hm_insert i c' (connections s)\<rparr>\<lparr>registrar := w\<rparr>)"
      using conn_write_used [OF cl_invD(1) [OF inv] w]
      by (intro cl_inv_world cl_inv_conn [OF inv Some conn_write_same [OF w]]) simp
    with Some w show ?thesis by (auto simp: write_conn_def split: sum.splits)
  qed
qed

lemma update_conn_safe:
  assumes "\<And>c. same_conn c (f c)"
  shows "safe (cl_inv x used peer E pin) (update_conn i f)"
  unfolding update_conn_def using assms
  by (intro safe_mod) (auto intro: cl_inv_conn split: option.splits)

lemma cs_write_safe [safe_rules]: "safe (cl_inv x used peer E pin) (cs_write x i m)"
proof -
  have "safe (cl_inv x used peer E pin) (cs_write x i m)" if f: "ids_fresh x used"
  proof -
    have "safe (cl_inv x used peer E pin) (case hm_get (connections s) i of
         None \<Rightarrow> ret ()
       | Some c \<Rightarrow> seqM (case m of
             None \<Rightarrow> seqM (if wr_is_writable x (writer c)
                 then tryIO (rg_reregister x i (sock c) Read) (RegistrarError (Some i) (conn_node c))
                 else ret ())
               (update_conn i (\<lambda>c. c\<lparr>writer := wr_writable x (writer c)\<rparr>))
           | Some b \<Rightarrow> ret ()) (write_conn x i m))" for s
      by (cases "hm_get (connections s) i"; cases m)
         (simp_all add: safe_ret safe_seq write_conn_safe tryIO_safe update_conn_safe
            ids_freshD(3) [OF f])
    then show ?thesis unfolding cs_write_def by (intro safe_with)
  qed
  then show ?thesis by (rule safe_fresh)
qed

lemma broadcast_conns_step:
  assumes "broadcast_conns x b ((i, c) # cs) w = (es, cs', w')"
  obtains es1 cs1 where "\<not> conn_members_sent c" "broadcast_conns x b cs w = (es1, cs1, w')"
      "es = es1" "cs' = (i, c) # cs1"
    | r c1 w1 es1 cs1 where "conn_members_sent c" "conn_write x i c (Some b) w = (r, c1, w1)"
      "broadcast_conns x b cs w1 = (es1, cs1, w')"
      "es = (case r of Inl e \<Rightarrow> e # es1 | Inr u \<Rightarrow> es1)" "cs' = (i, c1) # cs1"
proof (cases "conn_members_sent c")
  case False
  obtain es1 cs1 w1 where "broadcast_conns x b cs w = (es1, cs1, w1)" by (metis prod_cases3)
  with False assms show thesis by (intro that(1)) auto
next
  case True
  obtain r c1 w1 where 1: "conn_write x i c (Some b) w = (r, c1, w1)" by (metis prod_cases3)
  obtain es1 cs1 w2 where "broadcast_conns x b cs w1 = (es1, cs1, w2)" by (metis prod_cases3)
  with 1 True assms show thesis by (intro that(2)) auto
qed

lemma broadcast_conns_same:
  "broadcast_conns x b cs w = (es, cs', w') \<Longrightarrow>
   list_all2 (\<lambda>(i, c) (i', c'). i' = i \<and> same_conn c c') cs cs'"
proof (induction cs arbitrary: es cs' w w')
  case (Cons ic cs)
  obtain i c where ic: "ic = (i, c)" by fastforce
  from Cons.prems [unfolded ic] show ?case
    by (cases rule: broadcast_conns_step) (auto simp: ic Cons.IH dest: conn_write_same)
qed simp

lemma broadcast_conns_used:
  assumes "ids_fresh x used"
  shows "broadcast_conns x b cs w = (es, cs', w') \<Longrightarrow> used w \<subseteq> used w'"
proof (induction cs arbitrary: es cs' w w')
  case (Cons ic cs)
  obtain i c where ic: "ic = (i, c)" by fastforce
  from Cons.prems [unfolded ic] show ?case
    by (cases rule: broadcast_conns_step)
       (auto dest!: Cons.IH conn_write_used [OF assms])
qed simp

lemma list_all2_map_of:
  "list_all2 (\<lambda>(i, c) (i', c'). i' = i \<and> R c c') xs ys \<Longrightarrow>
   map fst ys = map fst xs \<and> rel_option R (map_of xs k) (map_of ys k)"
  by (induction rule: list_all2_induct) auto

lemma cs_broadcast_safe [safe_rules]: "safe (cl_inv x used peer E pin) (cs_broadcast x b)"
proof (rule safeI)
  fix s assume inv: "cl_inv x used peer E pin s"
  obtain es cs w where b: "broadcast_conns x b (connections s) (registrar s) = (es, cs, w)"
    by (metis prod_cases3)
  note same = list_all2_map_of [OF broadcast_conns_same [OF b]]
  have "hm_ok cs" using same cl_invD(4) [OF inv] by (simp add: hm_ok_def)
  then have "cl_inv x used peer E pin (s\<lparr>connections := cs\<rparr>\<lparr>registrar := w\<rparr>)"
    using broadcast_conns_used [OF cl_invD(1) [OF inv] b] same
    by (intro cl_inv_world cl_inv_conns [OF inv]) auto
  with b show "cl_inv x used peer E pin (snd (cs_broadcast x b s))
      \<and> \<not> is_panic (fst (cs_broadcast x b s))"
    by (simp add: cs_broadcast_def)
qed

lemma broadcasts_safe [safe_rules]:
  "safe (cl_inv x used peer E pin) (broadcast_delta x d)"
  "safe (cl_inv x used peer E pin) (broadcast_pings x)"
  unfolding broadcast_delta_def broadcast_pings_def by (intro safe_rules)+

lemma send_members_safe [safe_rules]: "safe (cl_inv x used peer E pin) (send_members x i)"
  unfolding send_members_def encode_members_def by (intro safe_rules update_conn_safe) simp

end
