(* ===== verification/ClusterSafe.thy ===== *)
theory ClusterSafe
  imports ClusterInv
begin

text \<open>
  Opening, closing and re-arming connections, and every handler of the cluster server keeps
  its invariant and does not panic. The last section is the interpretation of the message
  loop on the server.
\<close>

section \<open>Changes of one connection\<close>

lemma own_slots_simps [simp]:
  "own_slots {} (hm_insert i c cs) = (own_slots {} cs)(i \<mapsto> timer_wheel_index c)"
  "own_slots E (hm_remove i cs) = (own_slots E cs)(i := None)"
  "own_slots E [] = (\<lambda>i. None)"
  by (auto simp: own_slots_def)

lemma own_slots_closed:
  "\<forall>i \<in> E. hm_get cs i = None \<Longrightarrow> own_slots E cs = own_slots {} cs"
  by (auto simp: own_slots_def fun_eq_iff)

lemma cl_inv_closed:
  "cl_inv x used peer E pin s \<Longrightarrow> \<forall>i \<in> E. hm_get (connections s) i = None \<Longrightarrow>
   cl_inv x used peer {} pin s"
proof -
  assume inv: "cl_inv x used peer E pin s" and "\<forall>i \<in> E. hm_get (connections s) i = None"
  from own_slots_closed [OF this(2)] inv show ?thesis unfolding cl_inv_def by simp
qed

lemma cl_inv_pin:
  "cl_inv x used peer E pin s \<Longrightarrow> hm_get (connections s) i = Some c \<Longrightarrow> conn_members_sent c \<Longrightarrow>
   cl_inv x used peer E (Some (i, sock c)) s"
proof -
  assume inv: "cl_inv x used peer E pin s" and c: "hm_get (connections s) i = Some c"
    and sent: "conn_members_sent c"
  have "pinned used (Some (i, sock c)) s"
    using cl_invD(9) [OF inv c] c sent by (simp add: pinned_def)
  with inv show ?thesis unfolding cl_inv_def by blast
qed

lemma established_okD:
  assumes "established_ok peer s" and "hm_get (established s) n = Some i"
  shows "hm_get (connections s) i \<noteq> None"
    and "hm_get (connections s) i = Some c \<Longrightarrow>
      conn_node c = Some n \<and> conn_members_sent c \<and> n = peer (sock c)"
proof -
  obtain c' where c': "hm_get (connections s) i = Some c'" "conn_node c' = Some n"
    "conn_members_sent c'" "n = peer (sock c')"
    using assms unfolding established_ok_def by blast
  then show "hm_get (connections s) i \<noteq> None" by simp
  show "conn_node c = Some n \<and> conn_members_sent c \<and> n = peer (sock c)"
    if "hm_get (connections s) i = Some c"
    using c' that by simp
qed

lemma cl_inv_open:
  assumes inv: "cl_inv x used peer {} pin s"
    and i: "i \<notin> used (registrar s)" "i \<in> used w" "used (registrar s) \<subseteq> used w"
    and ins: "tw_insert i (cs_timer_wheel s) = Some (slot, tw)"
  shows "cl_inv x used peer {} pin (s\<lparr>registrar := w, cs_timer_wheel := tw,
     connections := hm_insert i (c\<lparr>timer_wheel_index := slot\<rparr>) (connections s)\<rparr>)" (is "cl_inv _ _ _ _ _ ?s")
proof -
  note D = cl_invD [OF inv]
  have new: "hm_get (connections s) i = None"
    using D(9) [of i] i(1) by (cases "hm_get (connections s) i") auto
  have "wheel.owns tw ((own_slots {} (connections s))(i \<mapsto> slot))"
    by (rule wheel.arm [OF D(6) _ ins]) (simp add: own_slots_def new)
  moreover have "slot < tw_size tw" "tw_size tw = tw_size (cs_timer_wheel s)"
    using tw_insert_wf [OF cl_inv_wf [OF inv] ins] by auto
  moreover have "established_ok peer ?s"
    using D(8) new by (fastforce simp: established_ok_def)
  moreover have "pinned used pin ?s"
    using D(10) i by (auto simp: pinned_def split: option.splits)
  moreover have "dom (hm_get (connections ?s)) \<subseteq> used w" using D(9) i by auto
  ultimately show ?thesis using D i(3) by (auto simp: cl_inv_def)
qed

lemma cl_inv_remove:
  assumes inv: "cl_inv x used peer E pin s" and c: "hm_get (connections s) i = Some c"
    and rem: "tw_remove i (timer_wheel_index c) (cs_timer_wheel s) = Some tw"
    and w: "used (registrar s) \<subseteq> used w" and ok: "hm_ok est"
    and est: "hm_get est = (\<lambda>n. if hm_get (established s) n = Some i then None
        else hm_get (established s) n)"
  shows "cl_inv x used peer E pin (s\<lparr>connections := hm_remove i (connections s), registrar := w,
     cs_timer_wheel := tw, established := est\<rparr>)" (is "cl_inv _ _ _ _ _ ?s")
proof -
  note D = cl_invD [OF inv]
  have "wheel.owns tw ((own_slots E (connections s))(i := None))"
  proof (cases "i \<in> E")
    case True
    then have "own_slots E (connections s) i = None" by (simp add: own_slots_def)
    moreover from this have "(own_slots E (connections s))(i := None) = own_slots E (connections s)"
      by auto
    ultimately show ?thesis using wheel.disarm_absent [OF D(6) _ rem] by simp
  next
    case False
    then show ?thesis using wheel.disarm [OF D(6) _ rem] c by (simp add: own_slots_def)
  qed
  moreover have "tw_size tw = tw_size (cs_timer_wheel s)"
    using tw_remove_wf [OF cl_inv_wf [OF inv] rem] by auto
  moreover have "established_ok peer ?s"
    using D(8) by (auto simp: established_ok_def est)
  moreover have "pinned used pin ?s"
    using D(10) w by (auto simp: pinned_def split: option.splits)
  moreover have "dom (hm_get (connections ?s)) \<subseteq> used w" using D(9) w by auto
  ultimately show ?thesis using D ok by (auto simp: cl_inv_def)
qed

lemma cl_inv_rearm:
  assumes inv: "cl_inv x used peer {} pin s" and c: "hm_get (connections s) i = Some c"
    and rem: "tw_remove i (timer_wheel_index c) (cs_timer_wheel s) = Some tw1"
    and ins: "tw_insert i tw1 = Some (slot, tw)" and ok: "hm_ok est"
    and est: "\<And>n j. hm_get est n = Some j \<Longrightarrow>
      if j = i then nd = Some n \<and> conn_members_sent c \<and> n = peer (sock c)
      else hm_get (established s) n = Some j"
  shows "cl_inv x used peer {} pin (s\<lparr>cs_timer_wheel := tw,
     connections := hm_insert i (c\<lparr>conn_node := nd, timer_wheel_index := slot\<rparr>) (connections s),
     established := est\<rparr>)" (is "cl_inv _ _ _ _ _ ?s")
proof -
  note D = cl_invD [OF inv]
  have own: "own_slots {} (connections s) i = Some (timer_wheel_index c)"
    using c by (simp add: own_slots_def)
  have o1: "wheel.owns tw1 ((own_slots {} (connections s))(i := None))"
    by (rule wheel.disarm [OF D(6) own rem])
  have "wheel.owns tw ((own_slots {} (connections s))(i := None, i \<mapsto> slot))"
    by (rule wheel.arm [OF o1 _ ins]) simp
  moreover have "slot < tw_size tw" "tw_size tw = tw_size (cs_timer_wheel s)"
    using tw_insert_wf [OF wheel.owns_good [OF o1] ins] tw_remove_wf [OF cl_inv_wf [OF inv] rem]
    by auto
  moreover have "established_ok peer ?s"
    using D(8) est by (fastforce simp: established_ok_def split: if_splits)
  moreover have "pinned used pin ?s"
    using D(10) c by (auto simp: pinned_def split: option.splits)
  moreover have "dom (hm_get (connections ?s)) \<subseteq> used (registrar s)"
    using D(9) c by auto
  ultimately show ?thesis using D ok by (auto simp: cl_inv_def)
qed

section \<open>Opening connections\<close>

lemma init_connection_safe [safe_rules]:
  "safe (cl_inv x used peer {} pin) (init_connection x sk n)"
proof (rule safeI)
  fix s assume inv: "cl_inv x used peer {} pin s"
  obtain r w where reg: "rg_register x sk Read (registrar s) = (r, w)" by fastforce
  note f = cl_invD(1) [OF inv]
  show "cl_inv x used peer {} pin (snd (init_connection x sk n s))
      \<and> \<not> is_panic (fst (init_connection x sk n s))"
  proof (cases r)
    case (Inl e)
    have "cl_inv x used peer {} pin (s\<lparr>registrar := w\<rparr>)"
      by (rule cl_inv_world [OF inv growsD [OF ids_freshD(2) [OF f] reg]])
    with reg Inl show ?thesis by (simp add: init_connection_def tryIO_def sysM_def act_defs)
  next
    case (Inr i)
    obtain slot tw where ins: "tw_insert i (cs_timer_wheel s) = Some (slot, tw)"
      using tw_insert_total [OF cl_inv_wf [OF inv]] by blast
    with reg Inr ids_freshD(1) [OF f, of sk Read "registrar s" i w]
    show ?thesis
      using cl_inv_open [OF inv _ _ _ ins, of w "conn_new x sk n (n \<noteq> None)"]
      by (simp add: init_connection_def tryIO_def sysM_def wheel_insert_def act_defs)
  qed
qed

lemma connect_safe [safe_rules]: "safe (cl_inv x used peer {} pin) (connect x n)"
proof -
  have "safe (cl_inv x used peer {} pin) (connect x n)" if f: "ids_fresh x used"
    unfolding connect_def
    by (intro safe_bind safe_seq tryIO_safe sysM_safe ids_fresh_grows [OF f])
       (auto intro!: safe_rules)
  then show ?thesis by (rule safe_fresh)
qed

lemma accept_loop_safe: "safe (cl_inv x used peer {} pin) (accept_loop x ss)"
proof (induction x ss rule: accept_loop.induct)
  case (3 x sk rest)
  note IH = 3
  have ?case if f: "ids_fresh x used"
    unfolding accept_loop.simps
    by (intro safe_bind safe_seq tryIO_safe ids_fresh_grows [OF f] IH init_connection_safe
        send_members_safe bump_safe safe_mod) simp
  then show ?case by (rule safe_fresh)
qed (auto intro!: safe_rules safe_mod)

lemma accept_connection_safe [safe_rules]:
  "safe (cl_inv x used peer {} pin) (accept_connection x)"
  unfolding accept_connection_def by (intro safe_with accept_loop_safe)

section \<open>Closing connections\<close>

text \<open>\<open>close\<close> removes the connection and what refers to it, and nothing else.\<close>

lemma cs_close_absent:
  "hm_get (connections s) i = None \<Longrightarrow> cs_close x i s = (Ok (), s)"
  by (simp add: cs_close_def act_defs)

lemma cs_close_present:
  assumes inv: "cl_inv x used peer E pin s" and c: "hm_get (connections s) i = Some c"
  shows "\<exists>tw w est. cs_close x i s = (Ok (), s\<lparr>connections := hm_remove i (connections s),
       registrar := w, cs_timer_wheel := tw, established := est\<rparr>)
     \<and> tw_remove i (timer_wheel_index c) (cs_timer_wheel s) = Some tw
     \<and> used (registrar s) \<subseteq> used w \<and> hm_ok est
     \<and> hm_get est = (\<lambda>n. if hm_get (established s) n = Some i then None
          else hm_get (established s) n)"
proof -
  note D = cl_invD [OF inv]
  obtain r w where dereg: "rg_deregister x (sock c) (registrar s) = (r, w)" by fastforce
  have w: "used (registrar s) \<subseteq> used w" by (rule growsD [OF ids_freshD(4) [OF D(1)] dereg])
  obtain tw where tw: "tw_remove i (timer_wheel_index c) (cs_timer_wheel s) = Some tw"
    using tw_remove_total [OF cl_inv_wf [OF inv] D(7) [OF c]] by blast
  have only: "conn_node c = Some n" if "hm_get (established s) n = Some i" for n
    using established_okD(2) [OF D(8) that c] by simp
  consider "\<forall>n. hm_get (established s) n \<noteq> Some i"
    | n where "conn_node c = Some n" "hm_get (established s) n = Some i"
    using only by blast
  then show ?thesis
  proof cases
    case 1
    obtain est where "cs_close x i s = (Ok (), s\<lparr>connections := hm_remove i (connections s),
        registrar := w, cs_timer_wheel := tw, established := est\<rparr>)"
      and "hm_ok est" "hm_get est = hm_get (established s)"
    proof (cases "conn_node c")
      case None
      with c dereg tw D(5) show thesis
        by (intro that [of "established s"]) (auto simp: cs_close_def sysM_def wheel_remove_def act_defs)
    next
      case (Some m)
      show thesis
      proof (cases "hm_get (established s) m")
        case None
        with Some c dereg tw D(5) show thesis
          by (intro that [of "established s"])
             (auto simp: cs_close_def sysM_def wheel_remove_def act_defs)
      next
        case (Some e)
        with \<open>conn_node c = Some m\<close> c dereg tw D(5) 1 show thesis
          by (intro that [of "hm_insert m e (hm_remove m (established s))"])
             (auto simp: cs_close_def sysM_def wheel_remove_def act_defs)
      qed
    qed
    with 1 w tw show ?thesis by (intro exI [of _ tw] exI [of _ w] exI [of _ est]) auto
  next
    case (2 n)
    then have "hm_get (hm_remove n (established s)) = (\<lambda>n. if hm_get (established s) n = Some i
        then None else hm_get (established s) n)"
      using only by (fastforce simp: fun_eq_iff)
    with 2 c dereg tw w D(5) show ?thesis
      by (intro exI [of _ tw] exI [of _ w] exI [of _ "hm_remove n (established s)"])
         (auto simp: cs_close_def sysM_def wheel_remove_def act_defs)
  qed
qed

lemma cs_close_effect:
  assumes inv: "cl_inv x used peer E pin s"
  shows "\<exists>s'. cs_close x i s = (Ok (), s') \<and> cl_inv x used peer E pin s'
     \<and> hm_get (connections s') = (hm_get (connections s))(i := None)
     \<and> hm_get (established s') = (\<lambda>n. if hm_get (established s) n = Some i then None
          else hm_get (established s) n)
     \<and> cs_members s' = cs_members s \<and> cs_node s' = cs_node s \<and> executor_tx s' = executor_tx s
     \<and> cs_metrics s' = cs_metrics s \<and> cs_pid s' = cs_pid s \<and> listener s' = listener s
     \<and> used (registrar s) \<subseteq> used (registrar s')"
proof (cases "hm_get (connections s) i")
  case None
  then have "hm_get (established s) n \<noteq> Some i" for n
    using established_okD(1) [OF cl_invD(8) [OF inv], of n i] by auto
  with inv None show ?thesis by (auto simp: cs_close_absent fun_eq_iff)
next
  case (Some c)
  from cs_close_present [OF inv Some] cl_inv_remove [OF inv Some] show ?thesis by fastforce
qed

lemma cs_close_safe [safe_rules]: "safe (cl_inv x used peer E pin) (cs_close x i)"
proof (rule safeI)
  fix s assume "cl_inv x used peer E pin s"
  from cs_close_effect [OF this, of i]
  show "cl_inv x used peer E pin (snd (cs_close x i s)) \<and> \<not> is_panic (fst (cs_close x i s))"
    by auto
qed

lemma closes_effect:
  assumes "cl_inv x used peer E pin s"
  shows "\<exists>s'. forM is (cs_close x) s = (Ok (), s') \<and> cl_inv x used peer E pin s'
     \<and> hm_get (connections s') = (\<lambda>i. if i \<in> set is then None else hm_get (connections s) i)
     \<and> cs_members s' = cs_members s \<and> cs_node s' = cs_node s
     \<and> used (registrar s) \<subseteq> used (registrar s')"
  using assms
proof (induction "is" arbitrary: s)
  case Nil
  then show ?case by (simp add: ret_def)
next
  case (Cons i "is")
  from cs_close_effect [OF Cons.prems, of i] obtain s1 where
    s1: "cs_close x i s = (Ok (), s1)" "cl_inv x used peer E pin s1"
      "hm_get (connections s1) = (hm_get (connections s))(i := None)"
      "cs_members s1 = cs_members s" "cs_node s1 = cs_node s"
      "used (registrar s) \<subseteq> used (registrar s1)"
    by blast
  from Cons.IH [OF s1(2)] s1 show ?case by (fastforce simp: seqM_def bindM_def fun_eq_iff)
qed

section \<open>Establishing connections and timeouts\<close>

lemma conn_unchanged: "c\<lparr>conn_node := conn_node c, timer_wheel_index := j\<rparr> = c\<lparr>timer_wheel_index := j\<rparr>"
  by (cases c) simp

lemma cluster_unchanged:
  "s\<lparr>cs_timer_wheel := tw, connections := cs, established := established s\<rparr>
   = s\<lparr>cs_timer_wheel := tw, connections := cs\<rparr>"
  by (cases s) simp

lemma rearm_parts:
  assumes inv: "cl_inv x used peer {} pin s" and c: "hm_get (connections s) i = Some c"
  obtains tw1 slot tw where "tw_remove i (timer_wheel_index c) (cs_timer_wheel s) = Some tw1"
    "tw_insert i tw1 = Some (slot, tw)"
proof -
  have "own_slots {} (connections s) i = Some (timer_wheel_index c)"
    using c by (simp add: own_slots_def)
  from wheel.rearm [OF cl_invD(6) [OF inv] this] that show thesis by blast
qed

lemma mark_established_safe:
  "safe (cl_inv x used peer {} (Some (i, sk))) (mark_established i (peer sk))"
proof (rule safeI)
  let ?I = "cl_inv x used peer {} (Some (i, sk))"
  fix s assume inv: "?I s"
  show "?I (snd (mark_established i (peer sk) s)) \<and> \<not> is_panic (fst (mark_established i (peer sk) s))"
  proof (cases "hm_get (connections s) i")
    case None
    with inv show ?thesis by (simp add: mark_established_def act_defs)
  next
    case (Some c)
    obtain tw1 slot tw where rem: "tw_remove i (timer_wheel_index c) (cs_timer_wheel s) = Some tw1"
      and ins: "tw_insert i tw1 = Some (slot, tw)"
      using rearm_parts [OF inv Some] .
    have c: "sock c = sk" "conn_members_sent c"
      using cl_invD(10) [OF inv] Some by (auto simp: pinned_def)
    have est: "if j = i then Some (peer sk) = Some n \<and> conn_members_sent c \<and> n = peer (sock c)
        else hm_get (established s) n = Some j"
      if "hm_get (hm_insert (peer sk) i (established s)) n = Some j" for n j
      using that established_okD(2) [OF cl_invD(8) [OF inv], of n j c] Some c
      by (auto split: if_splits)
    have ok: "hm_ok (hm_insert (peer sk) i (established s))" using cl_invD(5) [OF inv] by simp
    from cl_inv_rearm [OF inv Some rem ins ok est] show ?thesis
      using Some rem ins
      by (simp add: mark_established_def wheel_remove_def wheel_insert_def act_defs)
  qed
qed

lemma establish_connection_safe:
  "safe (cl_inv x used peer {} (Some (i, sk))) (establish_connection x i (peer sk) other)"
  unfolding establish_connection_def
  by (intro safe_seq safe_mod safe_with)
     (auto intro!: safe_seq safe_ret cs_close_safe mark_established_safe split: option.splits)

lemma reset_timer_safe [safe_rules]: "safe (cl_inv x used peer {} pin) (reset_timer i)"
proof (rule safeI)
  fix s assume inv: "cl_inv x used peer {} pin s"
  show "cl_inv x used peer {} pin (snd (reset_timer i s)) \<and> \<not> is_panic (fst (reset_timer i s))"
  proof (cases "hm_get (connections s) i")
    case None
    with inv show ?thesis by (simp add: reset_timer_def act_defs)
  next
    case (Some c)
    obtain tw1 slot tw where rem: "tw_remove i (timer_wheel_index c) (cs_timer_wheel s) = Some tw1"
      and ins: "tw_insert i tw1 = Some (slot, tw)"
      using rearm_parts [OF inv Some] .
    have "if j = i then conn_node c = Some n \<and> conn_members_sent c \<and> n = peer (sock c)
        else hm_get (established s) n = Some j"
      if "hm_get (established s) n = Some j" for n j
      using that established_okD(2) [OF cl_invD(8) [OF inv] that, of c] Some
      by (cases "j = i") simp_all
    from cl_inv_rearm [OF inv Some rem ins cl_invD(5) [OF inv] this]
    have "cl_inv x used peer {} pin (s\<lparr>cs_timer_wheel := tw, connections := hm_insert i
        (c\<lparr>timer_wheel_index := slot\<rparr>) (connections s)\<rparr>)"
      by (simp add: conn_unchanged cluster_unchanged)
    then show ?thesis
      using Some rem ins
      by (simp add: reset_timer_def update_conn_def wheel_remove_def wheel_insert_def act_defs)
  qed
qed

section \<open>Membership\<close>

lemma drain_effect:
  assumes "cl_inv x used peer {} pin s0"
  shows "hm_ok cs \<Longrightarrow> wheel.owns tw (own_slots {} cs) \<Longrightarrow>
    used (registrar s0) \<subseteq> used w \<Longrightarrow>
    \<exists>s'. forM cs (\<lambda>(i, c). seqM (wheel_remove i (timer_wheel_index c))
        (bindM (sysM (rg_deregister x (sock c))) (\<lambda>_. ret ())))
      (s0\<lparr>established := [], connections := [], cs_timer_wheel := tw, registrar := w\<rparr>) = (Ok (), s')
      \<and> (\<exists>tw' w'. s' = s0\<lparr>established := [], connections := [], cs_timer_wheel := tw',
            registrar := w'\<rparr> \<and> wheel.owns tw' (\<lambda>i. None) \<and> used w \<subseteq> used w')"
proof (induction cs arbitrary: tw w)
  case Nil
  then show ?case by (auto simp: ret_def)
next
  case (Cons ic cs)
  obtain i c where ic: "ic = (i, c)" by fastforce
  have own: "own_slots {} (ic # cs) i = Some (timer_wheel_index c)" by (simp add: own_slots_def ic)
  obtain tw1 where rem: "tw_remove i (timer_wheel_index c) tw = Some tw1"
    using wheel.disarm_total [OF Cons.prems(2) own] by blast
  have "(own_slots {} (ic # cs))(i := None) = own_slots {} cs"
    using Cons.prems(1) by (auto simp: own_slots_def ic hm_ok_Cons fun_eq_iff)
  with wheel.disarm [OF Cons.prems(2) own rem] have o1: "wheel.owns tw1 (own_slots {} cs)" by simp
  obtain r w1 where dereg: "rg_deregister x (sock c) w = (r, w1)" by fastforce
  have w1: "used w \<subseteq> used w1"
    by (rule growsD [OF ids_freshD(4) [OF cl_invD(1) [OF assms]] dereg])
  have ok: "hm_ok cs" using Cons.prems(1) by (simp add: ic hm_ok_Cons)
  have "used (registrar s0) \<subseteq> used w1" using w1 Cons.prems(3) by blast
  from Cons.IH [OF ok o1 this] rem dereg w1 show ?case
    by (fastforce simp: ic sysM_def wheel_remove_def act_defs)
qed

lemma disconnect_all_effect:
  assumes inv: "cl_inv x used peer {} pin s"
  shows "\<exists>tw w. disconnect_all x s =
      (Ok (), s\<lparr>established := [], connections := [], cs_timer_wheel := tw, registrar := w\<rparr>)
    \<and> cl_inv x used peer {} pin
        (s\<lparr>established := [], connections := [], cs_timer_wheel := tw, registrar := w\<rparr>)"
proof -
  have 1: "disconnect_all x s = forM (connections s)
      (\<lambda>(i, c). seqM (wheel_remove i (timer_wheel_index c))
        (bindM (sysM (rg_deregister x (sock c))) (\<lambda>_. ret ())))
      (s\<lparr>established := [], connections := [], cs_timer_wheel := cs_timer_wheel s,
        registrar := registrar s\<rparr>)"
    by (simp add: disconnect_all_def withM_def seqM_def bindM_def modM_def)
  from drain_effect [OF inv cl_invD(4) [OF inv] cl_invD(6) [OF inv] subset_refl]
  obtain tw w where 2: "disconnect_all x s =
      (Ok (), s\<lparr>established := [], connections := [], cs_timer_wheel := tw, registrar := w\<rparr>)"
    and own: "wheel.owns tw (\<lambda>i. None)" and w: "used (registrar s) \<subseteq> used w"
    unfolding 1 by blast
  have "cl_inv x used peer {} pin
      (s\<lparr>established := [], connections := [], cs_timer_wheel := tw, registrar := w\<rparr>)"
    using cl_invD [OF inv] own w
    by (auto simp: cl_inv_def established_ok_def pinned_def split: option.splits)
  with 2 show ?thesis by blast
qed

lemma disconnect_all_safe [safe_rules]: "safe (cl_inv x used peer {} pin) (disconnect_all x)"
proof (rule safeI)
  fix s assume "cl_inv x used peer {} pin s"
  from disconnect_all_effect [OF this]
  show "cl_inv x used peer {} pin (snd (disconnect_all x s)) \<and> \<not> is_panic (fst (disconnect_all x s))"
    by auto
qed

lemma cluster_update_order:
  "s\<lparr>established := est, connections := cs, cs_timer_wheel := tw, registrar := w\<rparr>
   = s\<lparr>connections := cs, registrar := w, cs_timer_wheel := tw, established := est\<rparr>"
  by (cases s) simp

lemma disconnect_node_effect:
  assumes inv: "cl_inv x used peer E pin s"
  shows "\<exists>s'. disconnect_node x n s = (Ok (), s') \<and> cl_inv x used peer E pin s'
     \<and> hm_get (established s') = (hm_get (established s))(n := None)
     \<and> hm_get (connections s') = (case hm_get (established s) n of
          None \<Rightarrow> hm_get (connections s) | Some i \<Rightarrow> (hm_get (connections s))(i := None))
     \<and> cs_members s' = cs_members s \<and> cs_node s' = cs_node s"
proof (cases "hm_get (established s) n")
  case None
  with inv show ?thesis by (auto simp: disconnect_node_def act_defs fun_eq_iff)
next
  case (Some i)
  note D = cl_invD [OF inv]
  obtain c where c: "hm_get (connections s) i = Some c"
    using established_okD(1) [OF D(8) Some] by blast
  have n: "conn_node c = Some n" using established_okD(2) [OF D(8) Some c] by simp
  obtain r w where dereg: "rg_deregister x (sock c) (registrar s) = (r, w)" by fastforce
  have w: "used (registrar s) \<subseteq> used w" by (rule growsD [OF ids_freshD(4) [OF D(1)] dereg])
  obtain tw where tw: "tw_remove i (timer_wheel_index c) (cs_timer_wheel s) = Some tw"
    using tw_remove_total [OF cl_inv_wf [OF inv] D(7) [OF c]] by blast
  have ne: "m \<noteq> n \<Longrightarrow> hm_get (established s) m \<noteq> Some i" for m
    using established_okD(2) [OF D(8) _ c, of m] n by auto
  have est: "hm_get (hm_remove n (established s)) = (\<lambda>m. if hm_get (established s) m = Some i
      then None else hm_get (established s) m)"
    by (rule ext) (simp add: Some ne)
  have ok: "hm_ok (hm_remove n (established s))" using D(5) by simp
  from cl_inv_remove [OF inv c tw w ok est] Some c n dereg tw show ?thesis
    by (auto simp: disconnect_node_def sysM_def wheel_remove_def act_defs cluster_update_order
        split: sum.splits)
qed

lemma disconnect_established_safe [safe_rules]:
  "safe (cl_inv x used peer E pin) (disconnect_established x ns)"
  unfolding disconnect_established_def
proof (intro safe_for safeI)
  fix n s assume "cl_inv x used peer E pin s"
  from disconnect_node_effect [OF this, of n]
  show "cl_inv x used peer E pin (snd (disconnect_node x n s)) \<and> \<not> is_panic (fst (disconnect_node x n s))"
    by auto
qed

lemma check_connections_safe [safe_rules]:
  "safe (cl_inv x used peer {} pin) (check_connections x)"
  unfolding check_connections_def Let_def
  by (intro safe_with) (auto intro!: safe_rules)

lemma cs_join_safe [safe_rules]: "safe (cl_inv x used peer {} pin) (cs_join x n)"
  unfolding cs_join_def
  by (intro safe_with) (auto intro!: safe_rules safe_mod split: prod.splits)

lemma cs_leave_safe [safe_rules]: "safe (cl_inv x used peer {} pin) (cs_leave x n)"
  unfolding cs_leave_def
  by (intro safe_with) (auto intro!: safe_rules safe_mod split: prod.splits option.splits)

section \<open>Reading\<close>

text \<open>The name a \<open>Members\<close> message gives is the one of the peer on the socket.\<close>

definition honest_msg :: "(fd \<Rightarrow> node_id) \<Rightarrow> fd \<Rightarrow> ('t, 's, 'd) external_msg \<Rightarrow> bool" where
  "honest_msg peer sk m \<longleftrightarrow> (case m of Members from_node other \<Rightarrow> from_node = peer sk | _ \<Rightarrow> True)"

lemma decode_frames_msgs:
  "decode_frames x bs = (k, Some ms) \<Longrightarrow> m \<in> set ms \<Longrightarrow> \<exists>b \<in> set bs. msg_decode x b = Some m"
  by (induction x bs arbitrary: k ms rule: decode_frames.induct)
     (fastforce split: option.splits prod.splits)+

lemma honest_peersD:
  assumes "honest_peers x peer" and "rd_read x sk f w = (Inr n, f', w')"
    and "b \<in> set (rd_frames x f')" and "msg_decode x b = Some m"
  shows "honest_msg peer sk m"
proof (cases m)
  case (Members from_node other)
  with assms show ?thesis unfolding honest_peers_def honest_msg_def by simp blast
qed (simp_all add: honest_msg_def)

lemma decode_messages_safe:
  "triple (cl_inv x used peer E (Some (i, sk))) (decode_messages x i)
     (\<lambda>r s. cl_inv x used peer E (Some (i, sk)) s \<and> \<not> is_panic r
        \<and> (\<forall>ms. r = Ok ms \<longrightarrow> (\<forall>m \<in> set ms. honest_msg peer sk m)))"
proof (rule tripleI)
  let ?I = "cl_inv x used peer E (Some (i, sk))"
  fix s assume inv: "?I s"
  let ?r = "decode_messages x i s"
  show "?I (snd ?r) \<and> \<not> is_panic (fst ?r)
      \<and> (\<forall>ms. fst ?r = Ok ms \<longrightarrow> (\<forall>m \<in> set ms. honest_msg peer sk m))"
  proof (cases "hm_get (connections s) i")
    case None
    with inv show ?thesis by (simp add: decode_messages_def)
  next
    case (Some c)
    have sk: "sock c = sk" using cl_invD(10) [OF inv] Some by (simp add: pinned_def)
    obtain r rd w where read: "rd_read x sk (reader c) (registrar s) = (r, rd, w)"
      by (metis prod_cases3)
    have inv': "?I (s\<lparr>connections := hm_insert i (c\<lparr>reader := rd'\<rparr>) (connections s), registrar := w\<rparr>)"
      for rd'
      using ids_freshD(11) [OF cl_invD(1) [OF inv] read]
      by (intro cl_inv_world cl_inv_conn [OF inv Some]) simp_all
    show ?thesis
    proof (cases r)
      case (Inl e)
      with read Some sk inv' show ?thesis by (simp add: decode_messages_def)
    next
      case (Inr n)
      obtain k ms where frames: "decode_frames x (rd_frames x rd) = (k, ms)" by fastforce
      have "honest_msg peer sk m" if h: "ms = Some l" "m \<in> set l" for l m
      proof -
        obtain b where "b \<in> set (rd_frames x rd)" "msg_decode x b = Some m"
          using decode_frames_msgs [of x "rd_frames x rd" k l m] frames h by auto
        then show ?thesis using honest_peersD [OF cl_invD(2) [OF inv] read [unfolded Inr]] by simp
      qed
      with read Some sk inv' Inr frames show ?thesis
        by (auto simp: decode_messages_def split: option.splits)
    qed
  qed
qed

lemma handle_decoded_message_safe:
  "honest_msg peer sk m \<Longrightarrow>
   safe (cl_inv x used peer {} (Some (i, sk))) (handle_decoded_message x i m)"
  unfolding handle_decoded_message_def
  by (cases m)
     (auto simp: honest_msg_def intro!: safe_rules safe_mod establish_connection_safe
        split: prod.splits)

lemma handle_messages_safe:
  "\<forall>m \<in> set ms. honest_msg peer sk m \<Longrightarrow>
   safe (cl_inv x used peer {} (Some (i, sk))) (forM ms (handle_decoded_message x i))"
  by (intro safe_for handle_decoded_message_safe) simp

lemma cs_read_safe [safe_rules]: "safe (cl_inv x used peer {} None) (cs_read x i)"
proof (rule safeI)
  fix s assume inv: "cl_inv x used peer {} None s"
  show "cl_inv x used peer {} None (snd (cs_read x i s)) \<and> \<not> is_panic (fst (cs_read x i s))"
  proof (cases "members_sent i s")
    case None
    with inv show ?thesis by (simp add: cs_read_def act_defs)
  next
    case (Some b)
    then obtain c where c: "hm_get (connections s) i = Some c" "conn_members_sent c = b"
      by (auto simp: members_sent_def)
    show ?thesis
    proof (cases b)
      case False
      with Some have "cs_read x i s = send_members x i s" by (simp add: cs_read_def withM_def)
      then show ?thesis
        using safeD [OF send_members_safe inv] by (metis prod.collapse)
    next
      case True
      let ?P = "cl_inv x used peer {} (Some (i, sock c))"
      have P: "?P s" using cl_inv_pin [OF inv c(1)] c(2) True by simp
      have "triple ?P (bindM (decode_messages x i)
          (\<lambda>messages. forM messages (handle_decoded_message x i)))
        (\<lambda>r s. ?P s \<and> \<not> is_panic r)"
      proof (rule triple_bind [OF decode_messages_safe])
        fix ms
        show "triple (\<lambda>s. ?P s \<and> \<not> is_panic (Ok ms :: (error, _) result)
            \<and> (\<forall>ms'. Ok ms = (Ok ms' :: (error, _) result) \<longrightarrow>
                 (\<forall>m \<in> set ms'. honest_msg peer (sock c) m)))
          (forM ms (handle_decoded_message x i)) (\<lambda>r s. ?P s \<and> \<not> is_panic r)"
        proof (rule tripleI)
          fix s'
          assume "?P s' \<and> \<not> is_panic (Ok ms :: (error, _) result)
            \<and> (\<forall>ms'. Ok ms = (Ok ms' :: (error, _) result) \<longrightarrow>
                 (\<forall>m \<in> set ms'. honest_msg peer (sock c) m))"
          then have P': "?P s'" and honest: "\<forall>m \<in> set ms. honest_msg peer (sock c) m" by auto
          show "?P (snd (forM ms (handle_decoded_message x i) s'))
            \<and> \<not> is_panic (fst (forM ms (handle_decoded_message x i) s'))"
            using handle_messages_safe [OF honest] P' unfolding safe_def triple_def by blast
        qed
      qed auto
      from this [unfolded triple_def, rule_format, OF P] True Some show ?thesis
        by (auto simp: cs_read_def withM_def intro: cl_inv_unpin)
    qed
  qed
qed

section \<open>Requests and the loop\<close>

lemma do_socket_io_safe [safe_rules]: "safe (cl_inv x used peer {} None) (do_socket_io x n)"
  unfolding do_socket_io_def by (cases "n_event n") (auto intro!: safe_rules)

text \<open>After the wheel has expired its next slot, until the connections in it are closed.\<close>

lemma expired_inv:
  assumes inv: "cl_inv x used peer {} None s" and e: "tw_expire (cs_timer_wheel s) = Some (ids, tw)"
  shows "cl_inv x used peer (set ids) None (s\<lparr>cs_timer_wheel := tw\<rparr>)"
proof -
  have eq: "own_slots (set ids) cs = (\<lambda>k. if k \<in> set ids then None else own_slots {} cs k)" for cs
    by (simp add: own_slots_def fun_eq_iff)
  have "wheel.owns tw (own_slots (set ids) (connections s))"
    using wheel.expire_owned(1) [OF cl_invD(6) [OF inv] e] by (simp only: eq)
  moreover have "tw_size tw = tw_size (cs_timer_wheel s)"
    using tw_expire_wf(2) [OF cl_inv_wf [OF inv] e] .
  ultimately show ?thesis
    using cl_invD [OF inv] by (auto simp: cl_inv_def established_ok_def pinned_def)
qed

lemma expired_closed:
  assumes inv: "cl_inv x used peer {} None s" and e: "tw_expire (cs_timer_wheel s) = Some (ids, tw)"
  obtains s2 where "forM ids (cs_close x) (s\<lparr>cs_timer_wheel := tw\<rparr>) = (Ok (), s2)"
    and "cl_inv x used peer {} None s2" and "used (registrar s) \<subseteq> used (registrar s2)"
    and "hm_get (connections s2) = (\<lambda>i. if i \<in> set ids then None else hm_get (connections s) i)"
    and "cs_tick x s = seqM (broadcast_pings x) (check_connections x) s2"
proof -
  let ?s1 = "s\<lparr>cs_timer_wheel := tw\<rparr>"
  from closes_effect [OF expired_inv [OF inv e], of ids] obtain s2 where
    s2: "forM ids (cs_close x) ?s1 = (Ok (), s2)" "cl_inv x used peer (set ids) None s2"
      "hm_get (connections s2) = (\<lambda>i. if i \<in> set ids then None else hm_get (connections ?s1) i)"
      "used (registrar ?s1) \<subseteq> used (registrar s2)"
    by blast
  have "cl_inv x used peer {} None s2" by (rule cl_inv_closed [OF s2(2)]) (simp add: s2(3))
  moreover have "cs_tick x s = seqM (broadcast_pings x) (check_connections x) s2"
    using e s2(1) by (simp add: cs_tick_def cs_deregister_def cs_wheel_expire_def bindM_def seqM_def)
  ultimately show thesis using that s2 by (simp cong: if_cong)
qed

lemma cs_tick_safe [safe_rules]: "safe (cl_inv x used peer {} None) (cs_tick x)"
proof (rule safeI)
  fix s assume inv: "cl_inv x used peer {} None s"
  obtain ids tw where e: "tw_expire (cs_timer_wheel s) = Some (ids, tw)"
    using tw_expire_total [OF cl_inv_wf [OF inv]] by blast
  obtain s2 where "cl_inv x used peer {} None s2"
    and "cs_tick x s = seqM (broadcast_pings x) (check_connections x) s2"
    using expired_closed [OF inv e] by metis
  then show "cl_inv x used peer {} None (snd (cs_tick x s)) \<and> \<not> is_panic (fst (cs_tick x s))"
    using safe_seq [OF broadcasts_safe(2) check_connections_safe]
    unfolding safe_def triple_def by metis
qed

lemma tick_executor_safe [safe_rules]: "safe (cl_inv x used peer E pin) tick_executor"
proof (rule safeI)
  fix s assume inv: "cl_inv x used peer E pin s"
  show "cl_inv x used peer E pin (snd (tick_executor s)) \<and> \<not> is_panic (fst (tick_executor s))"
    using cl_invD(3) [OF inv] cl_inv_executor_tx [OF inv]
    by (simp add: tick_executor_def executor_send_def chan_send_def act_defs)
qed

lemma handle_poll_notifications_safe [safe_rules]:
  "safe (cl_inv x used peer {} None) (handle_poll_notifications x ns)"
proof -
  have "safe (cl_inv x used peer {} None) (handle_notification x n)" for n
    unfolding handle_notification_def by (intro safe_with) (auto intro!: safe_rules)
  then show ?thesis
    unfolding handle_poll_notifications_def by (auto intro!: safe_rules)
qed

lemma handle_cluster_msg_safe [safe_rules]:
  "safe (cl_inv x used peer {} None) (handle_cluster_msg x m)"
proof -
  have "safe (cl_inv x used peer {} None) (send_remote x env)" for env
    unfolding send_remote_def by (intro safe_with) (auto intro!: safe_rules split: option.splits)
  moreover have "safe (cl_inv x used peer {} None) (cs_get_status x cid)" for cid
    unfolding cs_get_status_def by (intro safe_with) (auto intro!: safe_rules)
  moreover have "safe (cl_inv x used peer {} None) (cs_send_metrics env)" for env
    unfolding cs_send_metrics_def
    by (intro safe_with) (auto intro!: safe_rules split: msg.splits)
  ultimately show ?thesis
    unfolding handle_cluster_msg_def by (cases m) (auto intro!: safe_rules)
qed

lemma handle_error_safe [safe_rules]: "safe (cl_inv x used peer {} None) (handle_error x e)"
  unfolding handle_error_def by (intro safe_rules)

lemma cluster_handle_inv:
  assumes "cl_inv x used peer {} None s" and "cluster_handle x m s = (st, s')"
  shows "cl_inv x used peer {} None s'" and "st \<noteq> Crashed p"
  using assms(2) safeD [OF handle_cluster_msg_safe assms(1), of m] safeD [OF handle_error_safe]
  by (fastforce simp: cluster_handle_def split: prod.splits result.splits if_splits)+

interpretation cl_loop: message_loop "cluster_handle x" "\<lambda>m s. True" "cl_inv x used peer {} None"
  for x used peer
  by unfold_locales (auto dest: cluster_handle_inv split: loop_status.splits)

end
