(* ===== verification/ClusterSends.thy ===== *)
theory ClusterSends
  imports ClusterSafe
begin

text \<open>
  What the cluster server sends to the executor: envelopes that came in from other nodes, replies
  to requests for its status and its metrics, and ticks. Every other operation leaves the channel
  alone. \<open>Q\<close> is what the receiver expects of a message.
\<close>

section \<open>The channel\<close>

definition sends :: "(('t, 'q, 'x) executor_msg \<Rightarrow> bool) \<Rightarrow> pid
    \<Rightarrow> ('t, 'q, 'x, 'w, 'f, 's) cluster \<Rightarrow> bool" where
  "sends Q p s \<longleftrightarrow> list_all Q (sent (executor_tx s)) \<and> cs_pid s = p"

lemma sends_frame [simp]:
  "sends Q p (s\<lparr>connections := cs\<rparr>) = sends Q p s"
  "sends Q p (s\<lparr>established := es\<rparr>) = sends Q p s"
  "sends Q p (s\<lparr>registrar := w\<rparr>) = sends Q p s"
  "sends Q p (s\<lparr>cs_timer_wheel := tw\<rparr>) = sends Q p s"
  "sends Q p (s\<lparr>cs_members := ms\<rparr>) = sends Q p s"
  "sends Q p (s\<lparr>cs_metrics := m\<rparr>) = sends Q p s"
  "sends Q p (s\<lparr>listener := l\<rparr>) = sends Q p s"
  "sends Q p (s\<lparr>timer_id := i\<rparr>) = sends Q p s"
  "sends Q p (s\<lparr>executor_timer_id := i\<rparr>) = sends Q p s"
  "sends Q p (s\<lparr>listener_id := i\<rparr>) = sends Q p s"
  by (simp_all add: sends_def)

named_theorems sends_rules "operations that send only what the executor expects"

lemma sends_executor_send: "Q m \<Longrightarrow> keeps (sends Q p) (executor_send m)"
  by (rule keepsI) (auto simp: executor_send_def chan_send_def sends_def)

lemma sends_leaves [sends_rules]:
  "keeps (sends Q p) (sysM f)" "keeps (sends Q p) (wheel_insert i)"
  "keeps (sends Q p) (wheel_remove i k)" "keeps (sends Q p) cs_wheel_expire"
  "keeps (sends Q p) (encode_msg x m e)" "keeps (sends Q p) (bump g)"
  "keeps (sends Q p) (write_conn x i b)" "keeps (sends Q p) (update_conn i h)"
  "keeps (sends Q p) (cs_broadcast x d)" "keeps (sends Q p) (decode_messages x i)"
  by (auto intro!: keepsI simp: sysM_def wheel_insert_def wheel_remove_def cs_wheel_expire_def
      encode_msg_def bump_def write_conn_def update_conn_def cs_broadcast_def decode_messages_def
      act_defs split: prod.splits option.splits sum.splits)

lemma sends_mod: "(\<And>s. sends Q p (f s) = sends Q p s) \<Longrightarrow> keeps (sends Q p) (modM f)"
  by (rule keeps_mod) simp

section \<open>Operations that do not send\<close>

lemma sends_tryIO [sends_rules]: "keeps (sends Q p) (tryIO f k)"
  unfolding tryIO_def by (auto intro!: keeps_rules sends_rules split: sum.splits)

lemma sends_broadcasts [sends_rules]:
  "keeps (sends Q p) (broadcast_delta x d)" "keeps (sends Q p) (broadcast_pings x)"
  unfolding broadcast_delta_def broadcast_pings_def by (intro keeps_rules sends_rules)+

lemma sends_send_members [sends_rules]: "keeps (sends Q p) (send_members x i)"
  unfolding send_members_def encode_members_def by (intro keeps_rules sends_rules)

lemma sends_cs_write [sends_rules]: "keeps (sends Q p) (cs_write x i b)"
  unfolding cs_write_def by (auto intro!: keeps_rules sends_rules split: option.splits)

lemma sends_init_connection [sends_rules]: "keeps (sends Q p) (init_connection x sk n)"
  unfolding init_connection_def by (intro keeps_rules sends_rules sends_mod) simp

lemma sends_connect [sends_rules]: "keeps (sends Q p) (connect x n)"
  unfolding connect_def by (auto intro!: keeps_rules sends_rules)

lemma sends_accept_loop [sends_rules]: "keeps (sends Q p) (accept_loop x l)"
  by (induction l rule: accept_loop.induct) (auto intro!: keeps_rules sends_rules sends_mod)

lemma sends_cs_close [sends_rules]: "keeps (sends Q p) (cs_close x i)"
  unfolding cs_close_def
  by (auto intro!: keeps_rules sends_rules sends_mod split: option.splits if_splits)

lemma sends_establish [sends_rules]:
  "keeps (sends Q p) (mark_established i n)" "keeps (sends Q p) (establish_connection x i n other)"
  "keeps (sends Q p) (reset_timer i)"
  unfolding establish_connection_def mark_established_def reset_timer_def
  by (auto intro!: keeps_rules sends_rules sends_mod split: option.splits)

lemma sends_disconnect [sends_rules]:
  "keeps (sends Q p) (disconnect_all x)" "keeps (sends Q p) (disconnect_node x n)"
  "keeps (sends Q p) (disconnect_established x ns)"
  unfolding disconnect_all_def disconnect_established_def disconnect_node_def
  by (auto intro!: keeps_rules sends_rules sends_mod split: option.splits sum.splits)

lemma sends_check_connections [sends_rules]: "keeps (sends Q p) (check_connections x)"
  unfolding check_connections_def Let_def by (auto intro!: keeps_rules sends_rules)

lemma sends_membership [sends_rules]: "keeps (sends Q p) (cs_join x n)" "keeps (sends Q p) (cs_leave x n)"
  unfolding cs_join_def cs_leave_def
  by (auto intro!: keeps_rules sends_rules sends_mod split: prod.splits option.splits)

lemma sends_cs_tick [sends_rules]: "keeps (sends Q p) (cs_tick x)"
  unfolding cs_tick_def cs_deregister_def by (intro keeps_rules sends_rules)

lemma sends_send_remote [sends_rules]: "keeps (sends Q p) (send_remote x env)"
  unfolding send_remote_def by (auto intro!: keeps_rules sends_rules split: option.splits)

section \<open>Operations that send\<close>

text \<open>A frame that some read of some socket completes, and what the envelopes of peers are like.\<close>

definition arriving :: "('t, 'w, 'f, 's, 'd, 'k) cluster_env \<Rightarrow> bytes \<Rightarrow> bool" where
  "arriving x b \<longleftrightarrow> (\<exists>sk f w n f' w'. rd_read x sk f w = (Inr n, f', w') \<and> b \<in> set (rd_frames x f'))"

definition peers_send :: "('t, 'w, 'f, 's, 'd, 'k) cluster_env \<Rightarrow> ('t envelope \<Rightarrow> bool) \<Rightarrow> bool" where
  "peers_send x V \<longleftrightarrow>
     (\<forall>b env. arriving x b \<longrightarrow> msg_decode x b = Some (RemoteEnvelope env) \<longrightarrow> V env)"

lemma decode_frames_decoded:
  "decode_frames x bs = (k, Some ms) \<Longrightarrow> m \<in> set ms \<Longrightarrow> \<exists>b \<in> set bs. msg_decode x b = Some m"
  by (induction bs arbitrary: k ms) (auto split: option.splits prod.splits)

lemma decode_messages_decoded:
  assumes "decode_messages x i s = (Ok ms, s')" and "m \<in> set ms"
  shows "\<exists>b. arriving x b \<and> msg_decode x b = Some m"
proof -
  obtain sk f w n f' w' k where "rd_read x sk f w = (Inr n, f', w')"
    "decode_frames x (rd_frames x f') = (k, Some ms)"
    using assms by (auto simp: decode_messages_def split: option.splits prod.splits sum.splits)
  with decode_frames_decoded [OF this(2) assms(2)] show ?thesis unfolding arriving_def by blast
qed

lemma keeps_bind_result:
  assumes "keeps P m" and "\<And>a s s'. m s = (Ok a, s') \<Longrightarrow> keeps P (f a)"
  shows "keeps P (bindM m f)"
proof (rule keepsI, goal_cases)
  case (1 s)
  obtain r s' where m: "m s = (r, s')" by fastforce
  show ?case
    using keepsD [OF assms(1) 1 m] assms(2) [of s _ s'] m
    by (cases r) (auto simp: bindM_def keeps_def triple_def)
qed

lemma sends_decoded:
  assumes "peers_send x (\<lambda>env. Q (ExecEnvelope env))" and "arriving x b" and "msg_decode x b = Some m"
  shows "keeps (sends Q p) (handle_decoded_message x i m)"
  using assms unfolding handle_decoded_message_def peers_send_def
  by (cases m)
     (auto intro!: keeps_rules sends_rules sends_mod sends_executor_send split: prod.splits)

lemma sends_cs_read: "peers_send x (\<lambda>env. Q (ExecEnvelope env)) \<Longrightarrow> keeps (sends Q p) (cs_read x i)"
  unfolding cs_read_def
  by (auto intro!: keeps_with sends_rules keeps_ret keeps_bind_result keeps_for
      dest!: decode_messages_decoded intro: sends_decoded split: option.splits bool.splits)

lemma sends_notification:
  assumes "peers_send x (\<lambda>env. Q (ExecEnvelope env))" and "Q Tick"
  shows "keeps (sends Q p) (handle_notification x n)"
  unfolding handle_notification_def accept_connection_def tick_executor_def do_socket_io_def
  using assms
  by (auto intro!: keeps_rules sends_rules sends_cs_read sends_executor_send split: event.splits)

text \<open>The requests whose replies the receiver expects.\<close>

fun reply_ok :: "('t envelope \<Rightarrow> bool) \<Rightarrow> pid \<Rightarrow> 't cluster_msg \<Rightarrow> bool" where
  "reply_ok V p (ClusterEnvelope env) \<longleftrightarrow> (env_msg env = GetMetrics \<longrightarrow>
     (\<forall>d. V (envelope_new (env_from env) p (Metrics d) (env_cid env))))"
| "reply_ok V p (ClusterGetStatus cid) \<longleftrightarrow>
     (\<forall>st. V (envelope_new (cid_pid cid) p (ClusterStatus st) (Some cid)))"
| "reply_ok V p m \<longleftrightarrow> True"

lemma sends_status:
  "reply_ok (\<lambda>env. Q (ExecEnvelope env)) p (ClusterGetStatus cid) \<Longrightarrow> keeps (sends Q p) (cs_get_status x cid)"
  unfolding cs_get_status_def
  by (auto intro!: keeps_rules sends_executor_send simp: sends_def envelope_new_def)

lemma sends_metrics:
  "reply_ok (\<lambda>env. Q (ExecEnvelope env)) p (ClusterEnvelope env) \<Longrightarrow> keeps (sends Q p) (cs_send_metrics env)"
  unfolding cs_send_metrics_def
  by (auto intro!: keeps_rules sends_executor_send simp: sends_def envelope_new_def split: msg.splits)

lemma sends_handle_msg:
  assumes "peers_send x (\<lambda>env. Q (ExecEnvelope env))" and "Q Tick" and "reply_ok (\<lambda>env. Q (ExecEnvelope env)) p m"
  shows "keeps (sends Q p) (handle_cluster_msg x m)"
  using assms unfolding handle_cluster_msg_def handle_poll_notifications_def
  by (cases m)
     (auto intro!: keeps_rules sends_rules sends_notification sends_status sends_metrics)

lemma sends_handle:
  assumes "peers_send x (\<lambda>env. Q (ExecEnvelope env))" and "Q Tick" and "reply_ok (\<lambda>env. Q (ExecEnvelope env)) p m" and "sends Q p s"
    and "cluster_handle x m s = (st, s')"
  shows "sends Q p s'"
proof -
  have e: "keeps (sends Q p) (handle_error x e)" for e
    unfolding handle_error_def by (intro keeps_rules sends_rules)
  obtain r s1 where h: "handle_cluster_msg x m s = (r, s1)" by fastforce
  have s1: "sends Q p s1" by (rule keepsD [OF sends_handle_msg [OF assms(1-3)] assms(4) h])
  show ?thesis
    using assms(5) h s1 keepsD [OF e s1]
    by (cases r) (auto simp: cluster_handle_def split: prod.splits result.splits)
qed

end
