(* ===== verification/NodeApi.thy ===== *)
theory NodeApi
  imports Errors
begin

text \<open>
  The handle of \<open>src/node.rs\<close> through which services and the user talk to a node: every request
  is one message on the executor's or on the cluster server's channel. The \<open>Debug\<close> text of a
  node id, which is quoted in an error message, is a parameter.
\<close>

section \<open>The node\<close>

record ('t, 'q, 'x) node_handle =
  nd_id :: node_id
  nd_executor_tx :: "('t, 'q, 'x) executor_msg chan"
  nd_cluster_tx :: "'t cluster_msg chan"

definition node_new :: "node_id \<Rightarrow> ('t, 'q, 'x) executor_msg chan \<Rightarrow> 't cluster_msg chan
    \<Rightarrow> ('t, 'q, 'x) node_handle" where
  "node_new i etx ctx = \<lparr>nd_id = i, nd_executor_tx = etx, nd_cluster_tx = ctx\<rparr>"

type_synonym ('t, 'q, 'x, 'a) nact = "(('t, 'q, 'x) node_handle, error, 'a) act"

text \<open>The macro \<open>send!\<close> on either channel.\<close>

definition send_executor :: "('t, 'q, 'x) executor_msg \<Rightarrow> pid option \<Rightarrow> string
    \<Rightarrow> ('t, 'q, 'x, unit) nact" where
  "send_executor m p txt = (\<lambda>s. case chan_send m (nd_executor_tx s) of
     (True, ch) \<Rightarrow> (Ok (), s\<lparr>nd_executor_tx := ch\<rparr>)
   | (False, ch) \<Rightarrow> (Err (SendError txt p), s))"

definition send_cluster :: "'t cluster_msg \<Rightarrow> pid option \<Rightarrow> string
    \<Rightarrow> ('t, 'q, 'x, unit) nact" where
  "send_cluster m p txt = (\<lambda>s. case chan_send m (nd_cluster_tx s) of
     (True, ch) \<Rightarrow> (Ok (), s\<lparr>nd_cluster_tx := ch\<rparr>)
   | (False, ch) \<Rightarrow> (Err (SendError txt p), s))"

definition node_join :: "(node_id \<Rightarrow> string) \<Rightarrow> node_id \<Rightarrow> ('t, 'q, 'x, unit) nact" where
  "node_join dbg n = send_cluster (Join n) None (''ClusterMsg::Join('' @ dbg n @ '')'')"

definition node_leave :: "(node_id \<Rightarrow> string) \<Rightarrow> node_id \<Rightarrow> ('t, 'q, 'x, unit) nact" where
  "node_leave dbg n = send_cluster (Leave n) None (''ClusterMsg::Leave('' @ dbg n @ '')'')"

definition node_spawn :: "pid \<Rightarrow> 'q \<Rightarrow> ('t, 'q, 'x, unit) nact" where
  "node_spawn p q =
     send_executor (Start p q) (Some p) (''ExecutorMsg::Start('' @ pid_to_string p @ '', ..)'')"

definition node_stop :: "pid \<Rightarrow> ('t, 'q, 'x, unit) nact" where
  "node_stop p =
     send_executor (Stop p) (Some p) (''ExecutorMsg::Start('' @ pid_to_string p @ '', ..)'')"

text \<open>\<open>try_clone\<close> of \<open>amy\<close>'s sender may fail; then nothing is sent.\<close>

definition node_register_service ::
    "('x \<Rightarrow> io_error + 'x) \<Rightarrow> pid \<Rightarrow> 'x \<Rightarrow> ('t, 'q, 'x, unit) nact" where
  "node_register_service clone p tx =
     (case clone tx of
        Inl e \<Rightarrow> fail (IoError e)
      | Inr tx' \<Rightarrow> send_executor (RegisterService p tx') (Some p)
          (''ExecutorMsg::RegisterService('' @ pid_to_string p @ '', ..)''))"

definition node_send :: "'t envelope \<Rightarrow> ('t, 'q, 'x, unit) nact" where
  "node_send env =
     send_executor (ExecEnvelope env) (Some (env_to env)) ''ExecutorMsg::Envelope(envelope)''"

definition node_executor_status :: "correlation_id \<Rightarrow> ('t, 'q, 'x, unit) nact" where
  "node_executor_status cid =
     send_executor (ExecGetStatus cid) (Some (cid_pid cid)) ''ExecutorMsg::GetStatus''"

definition node_cluster_status :: "correlation_id \<Rightarrow> ('t, 'q, 'x, unit) nact" where
  "node_cluster_status cid =
     send_cluster (ClusterGetStatus cid) (Some (cid_pid cid)) ''ClusterMsg::GetStatus''"

text \<open>\<open>shutdown\<close> unwraps both sends, the executor's first.\<close>

definition node_shutdown :: "('t, 'q, 'x, unit) nact" where
  "node_shutdown =
     seqM (catchM (send_executor ExecShutdown None []) (\<lambda>e. panic ''executor_tx.send''))
       (catchM (send_cluster ClusterShutdown None []) (\<lambda>e. panic ''cluster_tx.send'') :: ('t, 'q, 'x, unit) nact)"

section \<open>What a request does\<close>

lemma send_executor_result:
  "send_executor m p txt s =
     (if rx_alive (nd_executor_tx s)
      then (Ok (), s\<lparr>nd_executor_tx := (nd_executor_tx s)\<lparr>sent := sent (nd_executor_tx s) @ [m]\<rparr>\<rparr>)
      else (Err (SendError txt p), s))"
  by (simp add: send_executor_def chan_send_def)

lemma send_cluster_result:
  "send_cluster m p txt s =
     (if rx_alive (nd_cluster_tx s)
      then (Ok (), s\<lparr>nd_cluster_tx := (nd_cluster_tx s)\<lparr>sent := sent (nd_cluster_tx s) @ [m]\<rparr>\<rparr>)
      else (Err (SendError txt p), s))"
  by (simp add: send_cluster_def chan_send_def)

lemmas node_requests = node_join_def node_leave_def node_spawn_def node_stop_def node_send_def
  node_executor_status_def node_cluster_status_def node_register_service_def

end
