(* ===== verification/NodeSystem.thy ===== *)
theory NodeSystem
  imports ClusterSends ExecutorProps NodeApi
begin

text \<open>
  A whole node: \<open>rouse\<close> of \<open>src/lib.rs\<close> starts the executor, the cluster server and the poller
  in a thread each and returns the handle of \<open>src/node.rs\<close>. The threads share nothing but the
  two channels. A turn of the system is a message handled by one thread, a batch of
  notifications from the poller, or a request through the handle, by the user or a service; a
  run is any sequence of turns.

  A thread handles a message as one turn: what it sends meanwhile is appended to the other
  thread's queue at the end of the turn. The receiving end of a channel lives as long as its
  thread runs, so a send to a thread that has ended fails.
\<close>

section \<open>The system\<close>

record ('t, 'q, 'c, 'x, 'v, 'w, 'f, 's, 'd, 'k) node_env =
  ne_exec :: "('t, 'q, 'c, 'x, 'v) exec_ext"
  ne_depth :: nat
  ne_cluster :: "('t, 'w, 'f, 's, 'd, 'k) cluster_env"
  ne_debug :: "node_id \<Rightarrow> string"
  ne_clone :: "'x \<Rightarrow> io_error + 'x"

record ('t, 'q, 'c, 'x, 'v, 'w, 'f, 's) node_system =
  ns_id :: node_id
  ns_exec :: "('t, 'q, 'c, 'x, 'v) executor"
  ns_exec_rx :: "('t, 'q, 'x) executor_msg list"
  ns_exec_status :: loop_status
  ns_cluster :: "('t, 'q, 'x, 'w, 'f, 's) cluster"
  ns_cluster_rx :: "'t cluster_msg list"
  ns_cluster_status :: loop_status
  ns_poller :: bool

definition empty_chan :: "bool \<Rightarrow> 'm chan" where
  "empty_chan alive = \<lparr>sent = [], rx_alive = alive\<rparr>"

text \<open>
  \<open>po\<close> is what creating the poller and its registrar gave. The registrations the cluster server
  makes before its loop do not touch the channels and are made here.
\<close>

definition rouse ::
    "('t, 'q, 'c, 'x, 'v, 'w, 'f, 's, 'd, 'k) node_env \<Rightarrow> node_id \<Rightarrow> io_error + unit \<Rightarrow> 'v \<Rightarrow> 'w
      \<Rightarrow> (error, ('t, 'q, 'c, 'x, 'v, 'w, 'f, 's) node_system) result" where
  "rouse e n po v w =
     (case po of
        Inl er \<Rightarrow> Panic ''Poller::new''
      | Inr u \<Rightarrow>
          (case cluster_new (ne_cluster e) n (empty_chan True) w of
             Panic m \<Rightarrow> Panic m
           | Err er \<Rightarrow> Err er
           | Ok c \<Rightarrow>
               (case cluster_start (ne_cluster e) c of
                  (r, c1) \<Rightarrow> Ok
                    \<lparr>ns_id = n, ns_exec = executor_new (ne_exec e) n (empty_chan True) v,
                     ns_exec_rx = [], ns_exec_status = Running,
                     ns_cluster = c1, ns_cluster_rx = [],
                     ns_cluster_status = (case r of Panic p \<Rightarrow> Crashed p | _ \<Rightarrow> Running),
                     ns_poller = True\<rparr>)))"

section \<open>Turns\<close>

definition executor_turn ::
    "('t, 'q, 'c, 'x, 'v, 'w, 'f, 's, 'd, 'k) node_env \<Rightarrow> ('t, 'q, 'x) executor_msg
      \<Rightarrow> ('t, 'q, 'c, 'x, 'v, 'w, 'f, 's) node_system
      \<Rightarrow> ('t, 'q, 'c, 'x, 'v, 'w, 'f, 's) node_system" where
  "executor_turn e m S =
     (case exec_handle (ne_exec e) (ne_depth e) m
         ((ns_exec S)\<lparr>ex_tx := [], cluster_tx := empty_chan (ns_cluster_status S = Running)\<rparr>) of
        (st, ex) \<Rightarrow>
          S\<lparr>ns_exec := ex, ns_exec_status := st, ns_exec_rx := tl (ns_exec_rx S) @ ex_tx ex,
            ns_cluster_rx := ns_cluster_rx S @ sent (cluster_tx ex)\<rparr>)"

definition cluster_turn ::
    "('t, 'q, 'c, 'x, 'v, 'w, 'f, 's, 'd, 'k) node_env \<Rightarrow> 't cluster_msg
      \<Rightarrow> ('t, 'q, 'c, 'x, 'v, 'w, 'f, 's) node_system
      \<Rightarrow> ('t, 'q, 'c, 'x, 'v, 'w, 'f, 's) node_system" where
  "cluster_turn e m S =
     (case cluster_handle (ne_cluster e) m
         ((ns_cluster S)\<lparr>executor_tx := empty_chan (ns_exec_status S = Running)\<rparr>) of
        (st, c) \<Rightarrow>
          S\<lparr>ns_cluster := c, ns_cluster_status := st, ns_cluster_rx := tl (ns_cluster_rx S),
            ns_exec_rx := ns_exec_rx S @ sent (executor_tx c)\<rparr>)"

text \<open>The poller's thread ends when its send fails.\<close>

definition poller_turn ::
    "notification list \<Rightarrow> ('t, 'q, 'c, 'x, 'v, 'w, 'f, 's) node_system
      \<Rightarrow> ('t, 'q, 'c, 'x, 'v, 'w, 'f, 's) node_system" where
  "poller_turn ns S =
     (if ns_cluster_status S = Running
      then S\<lparr>ns_cluster_rx := ns_cluster_rx S @ [PollNotifications ns]\<rparr>
      else S\<lparr>ns_poller := False\<rparr>)"

datatype ('t, 'q, 'x) node_request =
    ReqJoin node_id
  | ReqLeave node_id
  | ReqSpawn pid 'q
  | ReqStop pid
  | ReqRegister pid 'x
  | ReqSend "'t envelope"
  | ReqExecutorStatus correlation_id
  | ReqClusterStatus correlation_id
  | ReqShutdown

fun request_action ::
    "('t, 'q, 'c, 'x, 'v, 'w, 'f, 's, 'd, 'k) node_env \<Rightarrow> ('t, 'q, 'x) node_request
      \<Rightarrow> ('t, 'q, 'x, unit) nact" where
  "request_action e (ReqJoin n) = node_join (ne_debug e) n"
| "request_action e (ReqLeave n) = node_leave (ne_debug e) n"
| "request_action e (ReqSpawn p q) = node_spawn p q"
| "request_action e (ReqStop p) = node_stop p"
| "request_action e (ReqRegister p tx) = node_register_service (ne_clone e) p tx"
| "request_action e (ReqSend env) = node_send env"
| "request_action e (ReqExecutorStatus cid) = node_executor_status cid"
| "request_action e (ReqClusterStatus cid) = node_cluster_status cid"
| "request_action e ReqShutdown = node_shutdown"

definition request_turn ::
    "('t, 'q, 'c, 'x, 'v, 'w, 'f, 's, 'd, 'k) node_env \<Rightarrow> ('t, 'q, 'x) node_request
      \<Rightarrow> ('t, 'q, 'c, 'x, 'v, 'w, 'f, 's) node_system
      \<Rightarrow> ('t, 'q, 'c, 'x, 'v, 'w, 'f, 's) node_system" where
  "request_turn e r S =
     (let n = snd (request_action e r (node_new (ns_id S)
        (empty_chan (ns_exec_status S = Running)) (empty_chan (ns_cluster_status S = Running)))) in
      S\<lparr>ns_exec_rx := ns_exec_rx S @ sent (nd_executor_tx n),
        ns_cluster_rx := ns_cluster_rx S @ sent (nd_cluster_tx n)\<rparr>)"

section \<open>Runs\<close>

datatype ('t, 'q, 'x) node_turn =
    ExecutorTurn
  | ClusterTurn
  | PollerTurn "notification list"
  | Request "('t, 'q, 'x) node_request"

inductive node_step ::
    "('t, 'q, 'c, 'x, 'v, 'w, 'f, 's, 'd, 'k) node_env
      \<Rightarrow> ('t, 'q, 'c, 'x, 'v, 'w, 'f, 's) node_system \<Rightarrow> ('t, 'q, 'x) node_turn
      \<Rightarrow> ('t, 'q, 'c, 'x, 'v, 'w, 'f, 's) node_system \<Rightarrow> bool" for e where
  executor: "ns_exec_status S = Running \<Longrightarrow> ns_exec_rx S = m # rest \<Longrightarrow>
    node_step e S ExecutorTurn (executor_turn e m S)"
| cluster: "ns_cluster_status S = Running \<Longrightarrow> ns_cluster_rx S = m # rest \<Longrightarrow>
    node_step e S ClusterTurn (cluster_turn e m S)"
| poller: "ns_poller S \<Longrightarrow> node_step e S (PollerTurn ns) (poller_turn ns S)"
| request: "node_step e S (Request r) (request_turn e r S)"

inductive node_steps ::
    "('t, 'q, 'c, 'x, 'v, 'w, 'f, 's, 'd, 'k) node_env
      \<Rightarrow> ('t, 'q, 'c, 'x, 'v, 'w, 'f, 's) node_system \<Rightarrow> ('t, 'q, 'x) node_turn list
      \<Rightarrow> ('t, 'q, 'c, 'x, 'v, 'w, 'f, 's) node_system \<Rightarrow> bool" for e where
  none: "node_steps e S [] S"
| turn: "node_step e S t S' \<Longrightarrow> node_steps e S' ts S'' \<Longrightarrow> node_steps e S (t # ts) S''"

inductive_cases executor_turnE: "node_step e S ExecutorTurn S'"
inductive_cases cluster_turnE: "node_step e S ClusterTurn S'"
inductive_cases node_stepE: "node_step e S t S'"
inductive_simps poller_turn_iff: "node_step e S (PollerTurn ns) S'"
inductive_simps request_turn_iff: "node_step e S (Request r) S'"

section \<open>Hypotheses\<close>

text \<open>
  Those of the executor's and of the cluster server's invariants, and that the envelopes of other
  nodes and the cluster server's replies keep the contract of the user's code.
\<close>

definition cluster_pid :: "node_id \<Rightarrow> pid" where
  "cluster_pid n = \<lparr>group = Some ''rabble'', pname = ''cluster_server'', node = n\<rparr>"

definition node_env_ok ::
    "('t, 'q, 'c, 'x, 'v, 'w, 'f, 's, 'd, 'k) node_env \<Rightarrow> ('t, 'q) contract
      \<Rightarrow> ('c \<Rightarrow> timer_key set) \<Rightarrow> ('w \<Rightarrow> usize set) \<Rightarrow> (fd \<Rightarrow> node_id) \<Rightarrow> bool" where
  "node_env_ok e K tk used peer \<longleftrightarrow>
     procs_ok (ne_exec e) K \<and> timers_ok (ne_exec e) tk \<and> 2 \<le> ne_depth e
     \<and> ids_fresh (ne_cluster e) used \<and> honest_peers (ne_cluster e) peer
     \<and> peers_send (ne_cluster e) (uc_env K)
     \<and> (\<forall>env n d. uc_env K env \<longrightarrow> env_msg env = GetMetrics \<longrightarrow>
          uc_env K (envelope_new (env_from env) (cluster_pid n) (Metrics d) (env_cid env)))"

fun turn_ok :: "('t, 'q) contract \<Rightarrow> node_id \<Rightarrow> ('t, 'q, 'x) node_turn \<Rightarrow> bool" where
  "turn_ok K n (Request (ReqSend env)) \<longleftrightarrow> uc_env K env"
| "turn_ok K n (Request (ReqSpawn p q)) \<longleftrightarrow> uc_proc K q"
| "turn_ok K n (Request (ReqClusterStatus cid)) \<longleftrightarrow>
     (\<forall>st. uc_env K (envelope_new (cid_pid cid) (cluster_pid n) (ClusterStatus st) (Some cid)))"
| "turn_ok K n t \<longleftrightarrow> True"

section \<open>The invariant\<close>

text \<open>
  While both threads run, each keeps its invariant and each finds only messages in its queue
  that it accepts. A thread does not panic as long as the other one runs, except that the executor
  does when it sends to a service whose receiver is gone.
\<close>

definition both_run :: "('t, 'q, 'c, 'x, 'v, 'w, 'f, 's) node_system \<Rightarrow> bool" where
  "both_run S \<longleftrightarrow> ns_exec_status S = Running \<and> ns_cluster_status S = Running"

definition healthy ::
    "('t, 'q, 'c, 'x, 'v, 'w, 'f, 's, 'd, 'k) node_env \<Rightarrow> ('t, 'q) contract
      \<Rightarrow> ('c \<Rightarrow> timer_key set) \<Rightarrow> ('w \<Rightarrow> usize set) \<Rightarrow> (fd \<Rightarrow> node_id)
      \<Rightarrow> ('t, 'q, 'c, 'x, 'v, 'w, 'f, 's) node_system \<Rightarrow> bool" where
  "healthy e K tk used peer S \<longleftrightarrow>
     exec_inv (ne_exec e) K tk (ne_depth e) (ns_exec S)
     \<and> cl_inv (ne_cluster e) used peer {} None (ns_cluster S)
     \<and> cs_pid (ns_cluster S) = cluster_pid (ns_id S)
     \<and> list_all (exec_accepts K) (ns_exec_rx S)
     \<and> list_all (reply_ok (uc_env K) (cluster_pid (ns_id S))) (ns_cluster_rx S)"

definition node_inv ::
    "('t, 'q, 'c, 'x, 'v, 'w, 'f, 's, 'd, 'k) node_env \<Rightarrow> ('t, 'q) contract
      \<Rightarrow> ('c \<Rightarrow> timer_key set) \<Rightarrow> ('w \<Rightarrow> usize set) \<Rightarrow> (fd \<Rightarrow> node_id)
      \<Rightarrow> ('t, 'q, 'c, 'x, 'v, 'w, 'f, 's) node_system \<Rightarrow> bool" where
  "node_inv e K tk used peer S \<longleftrightarrow>
     (both_run S \<longrightarrow> healthy e K tk used peer S)
     \<and> (\<forall>p. ns_exec_status S = Crashed p \<longrightarrow> ns_cluster_status S \<noteq> Running
          \<or> p = ''tx.send'' \<and> lost_service (ne_exec e) (ns_exec S))
     \<and> (\<forall>p. ns_cluster_status S = Crashed p \<longrightarrow> ns_exec_status S \<noteq> Running)"

lemma exec_inv_channels:
  "exec_inv x K tk d s \<Longrightarrow> exec_inv x K tk d (s\<lparr>ex_tx := [], cluster_tx := empty_chan True\<rparr>)"
  by (simp add: exec_inv_def exec_core_def sends_ok_def empty_chan_def)

lemma cluster_envelope_ok:
  assumes "node_env_ok e K tk used peer" and "uc_env K env"
  shows "reply_ok (uc_env K) (cluster_pid n) (ClusterEnvelope env)"
  using assms unfolding node_env_ok_def by simp

lemma executor_turn_healthy:
  assumes env: "node_env_ok e K tk used peer" and h: "healthy e K tk used peer S" and both: "both_run S"
    and rx: "ns_exec_rx S = m # rest"
  shows "(\<And>p. ns_exec_status (executor_turn e m S) \<noteq> Crashed p) \<Longrightarrow> healthy e K tk used peer (executor_turn e m S)"
    and "ns_exec_status (executor_turn e m S) = Crashed p \<Longrightarrow>
      p = ''tx.send'' \<and> lost_service (ne_exec e) (ns_exec (executor_turn e m S))"
proof -
  let ?s = "(ns_exec S)\<lparr>ex_tx := [], cluster_tx := empty_chan True\<rparr>"
  obtain st ex where ex: "exec_handle (ne_exec e) (ne_depth e) m ?s = (st, ex)" by fastforce
  have inv: "exec_inv (ne_exec e) K tk (ne_depth e) ?s" and m: "exec_accepts K m"
    using h rx by (auto simp: healthy_def intro: exec_inv_channels)
  note out = exec_handle_safe [OF inv m ex]
  have turn: "executor_turn e m S = S\<lparr>ns_exec := ex, ns_exec_status := st, ns_exec_rx := rest @ ex_tx ex,
      ns_cluster_rx := ns_cluster_rx S @ sent (cluster_tx ex)\<rparr>"
    using ex both rx by (simp add: executor_turn_def both_run_def)
  have "core_at True ?s" using inv by (simp add: core_at_def exec_inv_def empty_chan_def)
  from exec_handle_core [OF this ex] have "rx_alive (cluster_tx ex)" by (simp add: core_at_def)
  with out show "p = ''tx.send'' \<and> lost_service (ne_exec e) (ns_exec (executor_turn e m S))"
    if "ns_exec_status (executor_turn e m S) = Crashed p"
    using that unfolding turn by (simp add: exec_stops_def)
  assume "\<And>p. ns_exec_status (executor_turn e m S) \<noteq> Crashed p"
  with out have ex': "exec_inv (ne_exec e) K tk (ne_depth e) ex"
    unfolding turn by (cases st) auto
  have "sends_ok K ex" using ex' by (simp add: exec_inv_def)
  then have "list_all (exec_accepts K) (ex_tx ex)"
    and sent: "\<forall>m' \<in> set (sent (cluster_tx ex)). \<exists>env. m' = ClusterEnvelope env \<and> uc_env K env"
    unfolding sends_ok_def list_all_iff by auto
  moreover have "list_all (reply_ok (uc_env K) (cluster_pid (ns_id S))) (sent (cluster_tx ex))"
    unfolding list_all_iff
  proof
    fix m' assume "m' \<in> set (sent (cluster_tx ex))"
    with sent obtain env' where "m' = ClusterEnvelope env'" "uc_env K env'" by blast
    with cluster_envelope_ok [OF env] show "reply_ok (uc_env K) (cluster_pid (ns_id S)) m'" by blast
  qed
  ultimately show "healthy e K tk used peer (executor_turn e m S)"
    using h rx ex' unfolding turn by (simp add: healthy_def)
qed

lemma cluster_turn_healthy:
  assumes env: "node_env_ok e K tk used peer" and h: "healthy e K tk used peer S" and both: "both_run S"
    and rx: "ns_cluster_rx S = m # rest"
  shows "healthy e K tk used peer (cluster_turn e m S)"
    and "ns_cluster_status (cluster_turn e m S) \<noteq> Crashed p"
proof -
  let ?s = "(ns_cluster S)\<lparr>executor_tx := empty_chan True\<rparr>"
  let ?x = "ne_cluster e" and ?p = "cluster_pid (ns_id S)"
  obtain st c where c: "cluster_handle ?x m ?s = (st, c)" by fastforce
  have inv: "cl_inv ?x used peer {} None ?s"
    using h by (auto simp: healthy_def empty_chan_def intro: cl_inv_executor_tx)
  note c' = cluster_handle_inv [OF inv c]
  have "peers_send ?x (\<lambda>env. exec_accepts K (ExecEnvelope env))" "reply_ok (uc_env K) ?p m" "sends (exec_accepts K) ?p ?s"
    using env h rx by (simp_all add: node_env_ok_def healthy_def sends_def empty_chan_def)
  with sends_handle [OF this(1) _ _ this(3) c] have sent: "sends (exec_accepts K) ?p c" by simp
  have turn: "cluster_turn e m S = S\<lparr>ns_cluster := c, ns_cluster_status := st, ns_cluster_rx := rest,
      ns_exec_rx := ns_exec_rx S @ sent (executor_tx c)\<rparr>"
    using c both rx by (simp add: cluster_turn_def both_run_def)
  show "healthy e K tk used peer (cluster_turn e m S)"
    using h rx c'(1) sent unfolding turn by (simp add: healthy_def sends_def)
  show "ns_cluster_status (cluster_turn e m S) \<noteq> Crashed p"
    unfolding turn using c'(2) by simp
qed

lemma request_turn_healthy:
  assumes h: "healthy e K tk used peer S" and both: "both_run S" and ok: "turn_ok K (ns_id S) (Request r)"
  shows "healthy e K tk used peer (request_turn e r S)"
  using assms
  by (cases r)
     (auto simp: request_turn_def healthy_def both_run_def node_requests node_shutdown_def node_new_def
        send_executor_result send_cluster_result empty_chan_def act_defs split: sum.splits)

lemma turns_exec [simp]:
  "ns_exec (request_turn e r S) = ns_exec S" "ns_exec (poller_turn ns S) = ns_exec S"
  "ns_exec (cluster_turn e cm S) = ns_exec S"
  by (simp_all add: request_turn_def poller_turn_def cluster_turn_def Let_def split: prod.splits)

lemma other_turns_status [simp]:
  "ns_exec_status (request_turn e r S) = ns_exec_status S"
  "ns_cluster_status (request_turn e r S) = ns_cluster_status S"
  "ns_exec_status (poller_turn ns S) = ns_exec_status S"
  "ns_cluster_status (poller_turn ns S) = ns_cluster_status S"
  "ns_cluster_status (executor_turn e m S) = ns_cluster_status S"
  "ns_exec_status (cluster_turn e cm S) = ns_exec_status S"
  by (simp_all add: request_turn_def poller_turn_def executor_turn_def cluster_turn_def Let_def
      split: prod.splits)

lemma turns_id [simp]:
  "ns_id (request_turn e r S) = ns_id S" "ns_id (poller_turn ns S) = ns_id S"
  "ns_id (executor_turn e m S) = ns_id S" "ns_id (cluster_turn e cm S) = ns_id S"
  by (simp_all add: request_turn_def poller_turn_def executor_turn_def cluster_turn_def Let_def
      split: prod.splits)

lemma node_step_id: "node_step e S t S' \<Longrightarrow> ns_id S' = ns_id S"
  by (auto elim!: node_stepE)

lemma node_step_inv:
  assumes env: "node_env_ok e K tk used peer" and inv: "node_inv e K tk used peer S"
    and ok: "turn_ok K (ns_id S) t" and step: "node_step e S t S'"
  shows "node_inv e K tk used peer S'"
  using step
proof cases
  case (executor m rest)
  show ?thesis
  proof (cases "both_run S")
    case True
    then have "healthy e K tk used peer S" using inv by (simp add: node_inv_def)
    note turn = executor_turn_healthy [OF env this True executor(4)]
    from turn(2) have "p = ''tx.send'' \<and> lost_service (ne_exec e) (ns_exec S')" if "ns_exec_status S' = Crashed p" for p
      using executor that by blast
    moreover have "healthy e K tk used peer S'" if "both_run S'"
      using turn(1) executor that by (simp add: both_run_def)
    ultimately show ?thesis using executor inv True by (auto simp: node_inv_def both_run_def)
  qed (use executor inv in \<open>auto simp: node_inv_def both_run_def\<close>)
next
  case (cluster m rest)
  show ?thesis
  proof (cases "both_run S")
    case True
    then have "healthy e K tk used peer S" using inv by (simp add: node_inv_def)
    from cluster_turn_healthy [OF env this True cluster(4)] show ?thesis
      using cluster inv True by (auto simp: node_inv_def both_run_def)
  qed (use cluster inv in \<open>auto simp: node_inv_def both_run_def\<close>)
next
  case (poller ns)
  with inv show ?thesis
    by (auto simp: node_inv_def both_run_def poller_turn_def healthy_def)
next
  case (request r)
  with inv ok request_turn_healthy [of e K tk used peer S r] show ?thesis
    by (auto simp: node_inv_def both_run_def)
qed

lemma node_steps_inv:
  assumes "node_steps e S ts S'" and "node_env_ok e K tk used peer" and "node_inv e K tk used peer S"
    and "list_all (turn_ok K (ns_id S)) ts"
  shows "node_inv e K tk used peer S'"
  using assms(1,3,4)
proof (induction rule: node_steps.induct)
  case (turn S t S' ts S'')
  have "node_inv e K tk used peer S'"
    using node_step_inv [OF assms(2) turn.prems(1) _ turn.hyps(1)] turn.prems(2) by simp
  with turn.IH turn.prems(2) node_step_id [OF turn.hyps(1)] show ?case by simp
qed simp

end
