(* ===== verification/Replica.thy ===== *)
theory Replica
  imports ExecutorProps
begin

text \<open>
  The chain replication process of \<open>tests/utils/replica.rs\<close> with the messages of
  \<open>tests/utils/messages.rs\<close>: a process of the repository's own, on which the contract of
  \<open>ExecutorProps\<close> is discharged and the executor's properties are evaluated. The platform it
  runs on here is a concrete one: a timer wheel that fires every timer at the next tick, and
  services that record what they are sent.
\<close>

section \<open>The process\<close>

datatype rabble_user_msg = Op usize | OpComplete | GetHistory | History "usize list"

record replica =
  r_pid :: pid
  r_next :: "pid option"
  r_history :: "usize list"

definition replica_new :: "pid \<Rightarrow> pid option \<Rightarrow> replica" where
  "replica_new p n = \<lparr>r_pid = p, r_next = n, r_history = []\<rparr>"

text \<open>\<open>correlation_id.as_ref().unwrap()\<close> comes first, for every message.\<close>

definition replica_handle ::
    "rabble_user_msg msg \<Rightarrow> pid \<Rightarrow> correlation_id option \<Rightarrow> rabble_user_msg envelope list
      \<Rightarrow> replica \<Rightarrow> (rabble_user_msg envelope list \<times> replica) option" where
  "replica_handle m f cid out r =
     (case cid of
        None \<Rightarrow> None
      | Some c \<Rightarrow>
          (let to_pid = cid_pid c; from_pid = r_pid r in
           case m of
             User (Op val) \<Rightarrow>
               (let reply = envelope_new to_pid from_pid (User OpComplete) cid;
                    env = (case r_next r of
                             None \<Rightarrow> reply
                           | Some t \<Rightarrow> envelope_new t (r_pid r) (User (Op val)) cid)
                in Some (out @ [env], r\<lparr>r_history := r_history r @ [val]\<rparr>))
           | User GetHistory \<Rightarrow>
               Some (out @ [envelope_new to_pid from_pid (User (History (r_history r))) cid], r)
           | _ \<Rightarrow> Some (out, r)))"

section \<open>A platform to run it on\<close>

type_synonym sample_wheel = "(timer_key \<times> int) list"
type_synonym sample_world = "(nat \<times> rabble_user_msg envelope) list"

definition replica_ext ::
    "(rabble_user_msg, replica, sample_wheel, nat, sample_world) exec_ext" where
  "replica_ext =
     \<lparr>proc_init = (\<lambda>p r. Some ([], r)),
      proc_handle = replica_handle,
      wheel_new = [],
      wheel_start = (\<lambda>k ms c. c @ [(k, ms)]),
      wheel_stop = (\<lambda>k c. filter (\<lambda>e. fst e \<noteq> k) c),
      wheel_expire = (\<lambda>c. (map fst c, [])),
      svc_send = (\<lambda>tx env w. (True, w @ [(tx, env)]))\<rparr>"

definition sample_timers :: "sample_wheel \<Rightarrow> timer_key set" where
  "sample_timers c = set (map fst c)"

definition replica_contract :: "(rabble_user_msg, replica) contract" where
  "replica_contract =
     \<lparr>uc_env = (\<lambda>env. env_ok env \<and> (\<exists>c. env_cid env = Some c \<and> pid_ok (cid_pid c))),
      uc_proc = (\<lambda>r. pid_ok (r_pid r) \<and> (\<forall>p. r_next r = Some p \<longrightarrow> pid_ok p))\<rparr>"

lemma executor_pid_ok [simp]: "pid_ok (executor_pid n)"
  by (simp add: pid_ok_def executor_pid_def)

lemma envelope_new_simps [simp]:
  "env_to (envelope_new t f m c) = t" "env_from (envelope_new t f m c) = f"
  "env_msg (envelope_new t f m c) = m" "env_cid (envelope_new t f m c) = c"
  by (simp_all add: envelope_new_def)

lemma replica_handle_ok:
  assumes "uc_env replica_contract env" and "uc_proc replica_contract r"
  shows "\<exists>out r'. replica_handle (env_msg env) (env_from env) (env_cid env) [] r = Some (out, r')
    \<and> uc_proc replica_contract r' \<and> list_all (uc_env replica_contract) out
    \<and> (is_metrics (env_msg env) \<longrightarrow> (\<forall>e \<in> set out. env_msg e \<noteq> GetMetrics))"
proof -
  obtain c where c: "env_cid env = Some c" "pid_ok (cid_pid c)"
    using assms(1) by (auto simp: replica_contract_def)
  show ?thesis
  proof (cases "env_msg env")
    case (User u)
    with c assms show ?thesis
      by (cases u)
         (auto simp: replica_handle_def Let_def replica_contract_def env_ok_def split: option.splits)
  qed (use c assms in \<open>auto simp: replica_handle_def Let_def replica_contract_def\<close>)
qed

lemma replica_procs_ok: "procs_ok replica_ext replica_contract"
  unfolding procs_ok_def
proof (intro conjI allI impI)
  fix env r
  assume "uc_env replica_contract env" and "uc_proc replica_contract r"
  then show "\<exists>out q'. proc_handle replica_ext (env_msg env) (env_from env) (env_cid env) [] r
        = Some (out, q') \<and> uc_proc replica_contract q' \<and> list_all (uc_env replica_contract) out
      \<and> (is_metrics (env_msg env) \<longrightarrow> (\<forall>e \<in> set out. env_msg e \<noteq> GetMetrics))"
    using replica_handle_ok by (simp add: replica_ext_def)
qed (auto simp: replica_contract_def replica_ext_def env_ok_def)

lemma replica_receiver_up: "receiver_up replica_ext tx"
  by (simp add: receiver_up_def replica_ext_def)

lemma replica_timers_ok: "timers_ok replica_ext sample_timers"
  by (auto simp: timers_ok_def replica_ext_def sample_timers_def)

section \<open>A chain of three replicas on one node\<close>

definition node1 :: node_id where
  "node1 = \<lparr>name = ''node1'', addr = ''127.0.0.1:11001''\<rparr>"

definition node2 :: node_id where
  "node2 = \<lparr>name = ''node2'', addr = ''127.0.0.1:11002''\<rparr>"

definition local_pid :: "string \<Rightarrow> pid" where
  "local_pid n = \<lparr>group = None, pname = n, node = node1\<rparr>"

definition remote_pid :: "string \<Rightarrow> pid" where
  "remote_pid n = \<lparr>group = None, pname = n, node = node2\<rparr>"

definition sample_executor ::
    "(rabble_user_msg, replica, sample_wheel, nat, sample_world) executor" where
  "sample_executor =
     (executor_new replica_ext node1 \<lparr>sent = [], rx_alive = True\<rparr> [])
       \<lparr>processes := [(local_pid ''r1'', replica_new (local_pid ''r1'') (Some (local_pid ''r2''))),
          (local_pid ''r2'', replica_new (local_pid ''r2'') (Some (remote_pid ''r3'')))],
        service_senders := [(local_pid ''api'', 7)]\<rparr>"

lemmas sample_simps = sample_executor_def executor_new_def local_pid_def remote_pid_def
  node1_def node2_def replica_new_def executor_pid_def executor_metrics_new_def

lemma replica_wheel_new: "wheel_new replica_ext = []"
  by (simp add: replica_ext_def)

lemma sample_executor_inv: "2 \<le> d \<Longrightarrow> exec_inv replica_ext replica_contract sample_timers d sample_executor"
  unfolding exec_inv_def
  by (intro conjI replica_procs_ok replica_timers_ok)
     (auto simp: exec_core_def sends_ok_def sample_simps sample_timers_def replica_wheel_new
      replica_contract_def pid_ok_def hm_ok_def split: if_splits)

end
