(* ===== verification/Chain.thy ===== *)
theory Chain
  imports NodeSystem Replica "HOL-Library.Sublist"
begin

text \<open>
  Chain replication on one node, as \<open>tests/single_node_chain_replication.rs\<close> sets it up: replicas
  spawned in a chain, operations sent to its head. Each replica records an operation and sends it
  to its successor through the executor's queue, the last one answers. So the history of a replica
  is that of its successor, followed by the operations still in the queue between the two.
\<close>

section \<open>Setting up a chain\<close>

definition create_replica_pids :: "node_id \<Rightarrow> pid list" where
  "create_replica_pids n =
     map (\<lambda>p. \<lparr>group = None, pname = p, node = n\<rparr>) [''replica1'', ''replica2'', ''replica3'']"

definition replica_at :: "pid list \<Rightarrow> nat \<Rightarrow> replica" where
  "replica_at ps i =
     replica_new (ps ! i) (if i = length ps - 1 then None else Some (ps ! (i + 1)))"

definition spawn_replicas :: "pid list \<Rightarrow> ('t, replica, 'x, unit) nact" where
  "spawn_replicas ps = forM [0..<length ps] (\<lambda>i.
     catchM (node_spawn (ps ! i) (replica_at ps i)) (\<lambda>e. panic ''spawn.unwrap''))"

text \<open>A process without an \<open>init\<close> of its own.\<close>

definition process_init :: "pid \<Rightarrow> 'q \<Rightarrow> ('t envelope list \<times> 'q) option" where
  "process_init p q = Some ([], q)"

definition runs_replicas :: "(rabble_user_msg, replica, 'c, 'x, 'v) exec_ext \<Rightarrow> bool" where
  "runs_replicas x \<longleftrightarrow> proc_handle x = replica_handle \<and> proc_init x = process_init"

section \<open>Links and messages\<close>

definition link :: "pid list \<Rightarrow> pid \<Rightarrow> pid \<Rightarrow> bool" where
  "link ps p t \<longleftrightarrow> (\<exists>us vs. ps = us @ p # t # vs)"

lemma tl_mem: "t \<in> set (tl ps) \<Longrightarrow> t \<in> set ps"
  by (cases ps) auto

lemma link_mem: "link ps p t \<Longrightarrow> p \<in> set ps \<and> t \<in> set (tl ps) \<and> t \<in> set ps"
  unfolding link_def by (auto simp: tl_append split: list.splits)

lemma link_into: "t \<in> set (tl ps) \<Longrightarrow> \<exists>p. link ps p t"
proof (induction ps)
  case (Cons a ps)
  show ?case
  proof (cases ps)
    case (Cons b qs)
    show ?thesis
    proof (cases "t = b")
      case True
      with Cons show ?thesis unfolding link_def by (metis append_Nil)
    next
      case False
      with Cons.prems Cons have "t \<in> set (tl ps)" by simp
      from Cons.IH [OF this] show ?thesis unfolding link_def by (metis append_Cons)
    qed
  qed (use Cons.prems in simp)
qed simp

lemma link_nth: "link ps p t \<longleftrightarrow> (\<exists>i. Suc i < length ps \<and> p = ps ! i \<and> t = ps ! Suc i)"
proof
  assume "link ps p t"
  then obtain us vs where "ps = us @ p # t # vs" unfolding link_def by blast
  then show "\<exists>i. Suc i < length ps \<and> p = ps ! i \<and> t = ps ! Suc i"
    by (intro exI [of _ "length us"]) (simp add: nth_append)
next
  assume "\<exists>i. Suc i < length ps \<and> p = ps ! i \<and> t = ps ! Suc i"
  then obtain i where "Suc i < length ps" "p = ps ! i" "t = ps ! Suc i" by blast
  then show "link ps p t"
    unfolding link_def by (metis Cons_nth_drop_Suc Suc_lessD id_take_nth_drop)
qed

lemma link_unique:
  assumes "distinct ps"
  shows "link ps p t \<Longrightarrow> link ps p' t \<Longrightarrow> p' = p" and "link ps p t \<Longrightarrow> link ps p t' \<Longrightarrow> t' = t"
    and "link ps p t \<Longrightarrow> t \<noteq> p"
  using assms unfolding link_nth by (auto simp: nth_eq_iff_index_eq)

text \<open>\<open>inner ps env\<close>: an operation for a replica that has a predecessor.\<close>

definition inner :: "pid list \<Rightarrow> rabble_user_msg envelope \<Rightarrow> bool" where
  "inner ps env \<longleftrightarrow> env_to env \<in> set (tl ps) \<and> (\<exists>v. env_msg env = User (Op v))"

definition op_for :: "pid \<Rightarrow> (rabble_user_msg, 'q, 'x) executor_msg \<Rightarrow> usize list" where
  "op_for p m = (case m of
     ExecEnvelope env \<Rightarrow>
       (if env_to env = p then (case env_msg env of User (Op v) \<Rightarrow> [v] | _ \<Rightarrow> []) else [])
   | _ \<Rightarrow> [])"

definition in_flight :: "pid \<Rightarrow> (rabble_user_msg, 'q, 'x) executor_msg list \<Rightarrow> usize list" where
  "in_flight p q = concat (map (op_for p) q)"

lemma in_flight_simps [simp]:
  "in_flight p [] = []" "in_flight p (m # q) = op_for p m @ in_flight p q"
  "in_flight p (q @ q') = in_flight p q @ in_flight p q'"
  by (simp_all add: in_flight_def)

text \<open>Messages that neither start nor stop a replica of the chain, nor link into it.\<close>

fun calm :: "pid list \<Rightarrow> (rabble_user_msg, replica, 'x) executor_msg \<Rightarrow> bool" where
  "calm ps (Start p r) \<longleftrightarrow> p \<notin> set ps \<and> (\<forall>t. r_next r = Some t \<longrightarrow> t \<notin> set (tl ps))"
| "calm ps (Stop p) \<longleftrightarrow> p \<notin> set ps"
| "calm ps (ExecEnvelope env) \<longleftrightarrow> (inner ps env \<longrightarrow> env_cid env \<noteq> None)"
| "calm ps m \<longleftrightarrow> True"

text \<open>Those of others also leave the operations of the chain to its replicas.\<close>

fun quiet :: "pid list \<Rightarrow> (rabble_user_msg, replica, 'x) executor_msg \<Rightarrow> bool" where
  "quiet ps (ExecEnvelope env) \<longleftrightarrow> \<not> inner ps env"
| "quiet ps m \<longleftrightarrow> calm ps m"

lemma quiet_calm: "quiet ps m \<Longrightarrow> calm ps m"
  by (cases m) simp_all

lemma quiet_op_for: "quiet ps m \<Longrightarrow> t \<in> set (tl ps) \<Longrightarrow> op_for t m = []"
  by (cases m) (auto simp: op_for_def inner_def split: msg.splits rabble_user_msg.splits)

section \<open>The invariant\<close>

definition recorded :: "(pid \<Rightarrow> replica option) \<Rightarrow> pid \<Rightarrow> usize list" where
  "recorded M p = (case M p of None \<Rightarrow> [] | Some r \<Rightarrow> r_history r)"

definition in_step :: "pid list \<Rightarrow> (pid \<Rightarrow> replica option)
    \<Rightarrow> (rabble_user_msg, replica, 'x) executor_msg list \<Rightarrow> bool" where
  "in_step ps M q \<longleftrightarrow> (\<forall>p t. link ps p t \<longrightarrow> recorded M p = recorded M t @ in_flight t q)"

text \<open>
  The replicas exist, each linked to its successor and the last one to none, and no other process
  is linked into the chain.
\<close>

definition wired :: "pid list \<Rightarrow> (pid \<Rightarrow> replica option) \<Rightarrow> bool" where
  "wired ps M \<longleftrightarrow> (\<forall>p \<in> set ps. M p \<noteq> None)
     \<and> (\<forall>p r. M p = Some r \<longrightarrow> (\<forall>t. link ps p t \<longrightarrow> r_next r = Some t)
          \<and> (\<forall>t. r_next r = Some t \<longrightarrow> p \<in> set ps \<or> t \<in> set (tl ps) \<longrightarrow> link ps p t))"

lemma wired_update:
  assumes "wired ps M" and "M p = Some r" and "r_next r' = r_next r"
  shows "wired ps (M(p \<mapsto> r'))"
  using assms unfolding wired_def by (metis fun_upd_apply option.inject option.distinct(1))

lemma wiredD:
  assumes "wired ps M"
  shows "p \<in> set ps \<Longrightarrow> M p \<noteq> None" and "M p = Some r \<Longrightarrow> link ps p t \<Longrightarrow> r_next r = Some t"
    and "M p = Some r \<Longrightarrow> t \<in> set (tl ps) \<Longrightarrow> r_next r = Some t \<Longrightarrow> link ps p t"
    and "M p = Some r \<Longrightarrow> p \<in> set ps \<Longrightarrow> r_next r = Some t \<Longrightarrow> link ps p t"
  using assms unfolding wired_def by blast+

text \<open>Processes outside the chain come and go.\<close>

lemma wired_other:
  assumes "wired ps M" and "p \<notin> set ps" and "\<And>r t. v = Some r \<Longrightarrow> r_next r = Some t \<Longrightarrow> t \<notin> set (tl ps)"
  shows "wired ps (M(p := v))"
  unfolding wired_def
proof (intro conjI ballI allI impI)
  fix k assume "k \<in> set ps"
  with wiredD(1) [OF assms(1)] assms(2) show "(M(p := v)) k \<noteq> None" by auto
next
  fix k r t assume "(M(p := v)) k = Some r" and l: "link ps k t"
  moreover have "k \<noteq> p" using link_mem [OF l] assms(2) by blast
  ultimately show "r_next r = Some t" using wiredD(2) [OF assms(1) _ l] by simp
next
  fix k r t assume k: "(M(p := v)) k = Some r" "r_next r = Some t" and t: "k \<in> set ps \<or> t \<in> set (tl ps)"
  with assms(2,3) have "k \<noteq> p" by auto
  with k t wiredD(3,4) [OF assms(1)] show "link ps k t" by auto
qed

lemma in_step_other:
  assumes "p \<notin> set ps"
  shows "in_step ps (M(p := v)) q = in_step ps M q"
proof -
  have "recorded (M(p := v)) a = recorded M a" "recorded (M(p := v)) b = recorded M b"
    if "link ps a b" for a b
    using link_mem [OF that] assms by (auto simp: recorded_def)
  then show ?thesis by (simp add: in_step_def cong: imp_cong)
qed

text \<open>The pids of a chain are those of processes of the node.\<close>

definition chain_pids :: "pid list \<Rightarrow> node_id \<Rightarrow> bool" where
  "chain_pids ps n \<longleftrightarrow> distinct ps
     \<and> (\<forall>p \<in> set ps. node p = n \<and> p \<noteq> executor_pid n \<and> pname p \<noteq> ''cluster_server'')"

text \<open>\<open>q\<close> is what is in the executor's queue before the messages it has just sent itself.\<close>

definition chained :: "pid list \<Rightarrow> (rabble_user_msg, replica, 'x) executor_msg list
    \<Rightarrow> (rabble_user_msg, replica, 'c, 'x, 'w) executor \<Rightarrow> bool" where
  "chained ps q s \<longleftrightarrow> exec_core s \<and> chain_pids ps (ex_node s)
     \<and> list_all (calm ps) (q @ ex_tx s) \<and> wired ps (hm_get (processes s))
     \<and> in_step ps (hm_get (processes s)) (q @ ex_tx s)"

lemma chained_frame [simp]:
  "chained ps q (s\<lparr>ex_metrics := m\<rparr>) = chained ps q s"
  "chained ps q (s\<lparr>ex_timer_wheel := c\<rparr>) = chained ps q s"
  "chained ps q (s\<lparr>ex_world := w\<rparr>) = chained ps q s"
  "chained ps q (s\<lparr>cluster_tx := ch\<rparr>) = chained ps q s"
  by (simp_all add: chained_def exec_core_def)

lemma chained_queue: "chained ps q s \<longleftrightarrow> chained ps (q @ ex_tx s) (s\<lparr>ex_tx := []\<rparr>)"
  by (simp add: chained_def exec_core_def)

text \<open>A quiet message may join the queue and leave it.\<close>

lemma in_step_quiet:
  assumes "list_all (quiet ps) ms"
  shows "in_step ps M (q @ ms) = in_step ps M q" and "in_step ps M (ms @ q) = in_step ps M q"
proof -
  have "in_flight t ms = []" if "link ps p t" for p t
    using assms link_mem [OF that] by (induction ms) (auto dest: quiet_op_for)
  then show "in_step ps M (q @ ms) = in_step ps M q" "in_step ps M (ms @ q) = in_step ps M q"
    by (simp_all add: in_step_def cong: conj_cong imp_cong)
qed

lemma chained_push:
  assumes "chained ps q s" and "quiet ps m"
  shows "chained ps q (s\<lparr>ex_tx := ex_tx s @ [m]\<rparr>)"
  using assms in_step_quiet(1) [of ps "[m]" _ "q @ ex_tx s"] quiet_calm
  by (simp add: chained_def exec_core_def)

lemma chained_enqueue:
  assumes "chained ps q (s\<lparr>ex_tx := []\<rparr>)" and "list_all (quiet ps) ms"
  shows "chained ps (q @ ms) (s\<lparr>ex_tx := []\<rparr>)"
proof -
  have "list_all (calm ps) ms" using assms(2) quiet_calm by (auto simp: list_all_iff)
  with assms show ?thesis by (simp add: chained_def exec_core_def in_step_quiet)
qed

lemma chained_dequeue:
  assumes "chained ps (m # q) s" and "quiet ps m"
  shows "chained ps q s"
  using assms in_step_quiet(2) [of ps "[m]" _ "q @ ex_tx s"] by (simp add: chained_def)

section \<open>Steps of the executor\<close>

text \<open>What a replica sends when it is handed an operation.\<close>

definition forwarded :: "replica \<Rightarrow> usize \<Rightarrow> correlation_id \<Rightarrow> rabble_user_msg envelope" where
  "forwarded r v c =
     (case r_next r of
        None \<Rightarrow> envelope_new (cid_pid c) (r_pid r) (User OpComplete) (Some c)
      | Some t \<Rightarrow> envelope_new t (r_pid r) (User (Op v)) (Some c))"

lemma replica_handle_op:
  "replica_handle (User (Op v)) f (Some c) [] r
     = Some ([forwarded r v c], r\<lparr>r_history := r_history r @ [v]\<rparr>)"
  by (simp add: replica_handle_def forwarded_def Let_def split: option.splits)

lemma op_for_forwarded: "op_for t (ExecEnvelope (forwarded r v c)) = (if r_next r = Some t then [v] else [])"
  by (simp add: op_for_def forwarded_def split: option.splits)

lemma in_step_op:
  assumes "distinct ps" and "wired ps M" and "in_step ps M (ExecEnvelope env # q)"
    and "env_msg env = User (Op v)" and r: "M (env_to env) = Some r"
  shows "in_step ps (M(env_to env \<mapsto> r\<lparr>r_history := r_history r @ [v]\<rparr>)) (q @ [ExecEnvelope (forwarded r v c)])"
  unfolding in_step_def
proof (intro allI impI)
  let ?e = "env_to env"
  let ?M = "M(?e \<mapsto> r\<lparr>r_history := r_history r @ [v]\<rparr>)"
  fix p t assume l: "link ps p t"
  note link = link_unique [OF assms(1)] link_mem [OF l]
  have wired: "link ps ?e t' \<Longrightarrow> r_next r = Some t'" "r_next r = Some t \<Longrightarrow> link ps ?e t" for t'
    using assms(2) r link_mem [OF l] unfolding wired_def by blast+
  have before: "recorded M p = recorded M t @ (if ?e = t then [v] else []) @ in_flight t q"
    using assms(3,4) l unfolding in_step_def by (simp add: op_for_def)
  have rec: "recorded ?M k = (if k = ?e then recorded M k @ [v] else recorded M k)" for k
    using r by (simp add: recorded_def)
  consider "t = ?e" | "p = ?e" "t \<noteq> ?e" | "p \<noteq> ?e" "t \<noteq> ?e" by blast
  then show "recorded ?M p = recorded ?M t @ in_flight t (q @ [ExecEnvelope (forwarded r v c)])"
  proof cases
    case 1
    then have "p \<noteq> ?e" "r_next r \<noteq> Some t" using link_unique(3) [OF assms(1)] l wired(2) by blast+
    with 1 before rec show ?thesis by (simp add: op_for_forwarded)
  next
    case 2
    then have "r_next r = Some t" using wired(1) l by blast
    with 2 before rec show ?thesis by (simp add: op_for_forwarded)
  next
    case 3
    then have "r_next r \<noteq> Some t" using wired(2) link_unique(1) [OF assms(1) l] by blast
    with 3 before rec show ?thesis by (simp add: op_for_forwarded)
  qed
qed

lemma route_output_quiet:
  assumes "chained ps q s" and "env_msg o' = User u" and "\<not> inner ps o'"
  shows "chained ps q (snd (route_output x rt o' s))"
  using assms chained_push [OF assms(1), of "ExecEnvelope o'"]
  by (auto simp: route_output_def handle_executor_envelope_def cluster_send_def act_defs split: prod.splits bool.splits)

lemma chained_pid:
  assumes "chained ps q s" and "p \<in> set ps"
  shows "node p = ex_node s" "p \<noteq> ex_pid s" "pname p \<noteq> ''cluster_server''"
  using assms by (auto simp: chained_def chain_pids_def exec_core_def)

lemma run_process_chained:
  assumes x: "runs_replicas x" and inv: "chained ps (ExecEnvelope env # q) s"
  shows "chained ps q (snd (run_process x rt env s))"
proof (cases "hm_get (processes s) (env_to env)")
  case None
  then have "env_to env \<notin> set ps" using inv by (auto simp: chained_def wired_def)
  then have "\<not> inner ps env" by (auto simp: inner_def dest: tl_mem)
  with None chained_dequeue [OF inv] show ?thesis by (simp add: run_process_def act_defs)
next
  case (Some r)
  have core: "envelopes s = []" "exec_core s" and calm: "inner ps env \<Longrightarrow> env_cid env \<noteq> None"
    using inv by (auto simp: chained_def exec_core_def)
  have handle: "proc_handle x = replica_handle" using x by (simp add: runs_replicas_def)
  show ?thesis
  proof (cases "\<exists>v. env_msg env = User (Op v)")
    case False
    then have dq: "chained ps q s" using chained_dequeue [OF inv] by (simp add: inner_def)
    have same: "chained ps q (s\<lparr>processes := hm_insert (env_to env) r (processes s), envelopes := []\<rparr>)"
      using dq Some by (simp add: chained_def exec_core_def fun_upd_idem)
    have out: "chained ps q (s'\<lparr>envelopes := []\<rparr>)" if "chained ps q s'" for s'
      using that by (simp add: chained_def exec_core_def)
    show ?thesis
    proof (cases "env_cid env")
      case None
      with Some dq show ?thesis
        by (simp add: run_process_def handle replica_handle_def act_defs)
    next
      case (Some c)
      let ?o = "envelope_new (cid_pid c) (r_pid r) (User (History (r_history r))) (Some c)"
      have o: "chained ps q (snd (route_output x rt ?o
          (s\<lparr>processes := hm_insert (env_to env) r (processes s), envelopes := []\<rparr>)))"
        by (rule route_output_quiet [OF same]) (simp_all add: inner_def)
      from False \<open>hm_get (processes s) (env_to env) = Some r\<close> Some same o out core show ?thesis
        by (auto simp: run_process_def handle replica_handle_def act_defs Let_def
            split: msg.splits rabble_user_msg.splits prod.splits result.splits)
    qed
  next
    case True
    then obtain v where v: "env_msg env = User (Op v)" by blast
    show ?thesis
    proof (cases "env_cid env")
      case None
      then have "quiet ps (ExecEnvelope env)" using calm by auto
      with chained_dequeue [OF inv] Some None show ?thesis
        by (simp add: run_process_def handle replica_handle_def act_defs)
    next
      case (Some c)
      let ?r = "r\<lparr>r_history := r_history r @ [v]\<rparr>" and ?o = "forwarded r v c"
      let ?s = "s\<lparr>processes := hm_insert (env_to env) ?r (processes s), envelopes := []\<rparr>"
      have r: "hm_get (processes s) (env_to env) = Some r" by fact
      have inv': "distinct ps" "wired ps (hm_get (processes s))"
        "in_step ps (hm_get (processes s)) (ExecEnvelope env # q @ ex_tx s)"
        using inv by (simp_all add: chained_def chain_pids_def)
      have step: "in_step ps (hm_get (processes ?s)) ((q @ ex_tx s) @ [ExecEnvelope ?o])"
        using in_step_op [OF inv' v r, of c] by simp
      have wired: "wired ps (hm_get (processes ?s))"
        using wired_update [OF inv'(2) r, of ?r] by simp
      have rest: "exec_core ?s" "chain_pids ps (ex_node ?s)" "list_all (calm ps) (q @ ex_tx ?s)"
        using inv by (simp_all add: chained_def exec_core_def)
      have pushed: "chained ps q (?s\<lparr>ex_tx := ex_tx s @ [ExecEnvelope ?o]\<rparr>)"
        using step wired rest
        by (simp add: chained_def exec_core_def)
           (simp add: forwarded_def inner_def envelope_new_def split: option.splits)
      have "chained ps q (snd (route_output x rt ?o ?s))"
      proof (cases "inner ps ?o")
        case True
        then have "env_to ?o \<in> set ps" by (auto simp: inner_def dest: tl_mem)
        from chained_pid [OF inv this] pushed show ?thesis
          by (simp add: route_output_def act_defs)
      next
        case False
        then have "in_step ps (hm_get (processes ?s)) (q @ ex_tx ?s)"
          using step in_step_quiet(1) [of ps "[ExecEnvelope ?o]" "hm_get (processes ?s)" "q @ ex_tx s"]
          by simp
        then have "chained ps q ?s" using wired rest by (simp add: chained_def)
        moreover have "\<exists>u. env_msg ?o = User u" by (simp add: forwarded_def split: option.splits)
        ultimately show ?thesis using route_output_quiet False by blast
      qed
      moreover have "chained ps q s' \<Longrightarrow> chained ps q (s'\<lparr>envelopes := []\<rparr>)" for s'
        by (simp add: chained_def exec_core_def)
      ultimately show ?thesis
        using r v Some core(1)
        by (auto simp: run_process_def handle replica_handle_op act_defs split: prod.splits result.splits)
    qed
  qed
qed

end
