(* ===== verification/ChainRun.thy ===== *)
theory ChainRun
  imports Chain
begin

text \<open>The chain's invariant is kept by every message the executor handles and every turn of the node.\<close>

section \<open>Routing\<close>

definition metrics_kept :: "pid list \<Rightarrow> (rabble_user_msg, replica, 'x) executor_msg list
    \<Rightarrow> (rabble_user_msg envelope \<Rightarrow> (rabble_user_msg, replica, 'c, 'x, 'w, unit) eact) \<Rightarrow> bool" where
  "metrics_kept ps q rt \<longleftrightarrow> (\<forall>e d. env_msg e = Metrics d \<longrightarrow> keeps (chained ps q) (rt e))"

lemma handle_executor_envelope_chained:
  assumes "metrics_kept ps q rt"
  shows "keeps (chained ps q) (handle_executor_envelope x rt env)"
  using assms unfolding handle_executor_envelope_def exec_send_metrics_def metrics_kept_def
  by (auto intro!: keeps_rules keeps_mod split: msg.splits)

lemma cluster_send_chained: "keeps (chained ps q) (cluster_send env)"
  by (rule keepsI) (auto simp: cluster_send_def split: prod.splits bool.splits)

lemma route_to_service_chained: "keeps (chained ps q) (route_to_service x env)"
  by (rule keepsI) (auto simp: route_to_service_def split: prod.splits bool.splits option.splits)

lemma route_to_process_chained:
  assumes x: "runs_replicas x" and rt: "metrics_kept ps q rt"
    and inv: "chained ps (ExecEnvelope env # q) s"
  shows "chained ps q (snd (route_to_process x rt env s))"
proof -
  have other: "chained ps q s" if "env_to env \<notin> set ps"
    by (rule chained_dequeue [OF inv]) (use that in \<open>auto simp: inner_def dest: tl_mem\<close>)
  consider "env_to env = ex_pid s" | "env_to env \<noteq> ex_pid s" "pname (env_to env) = ''cluster_server''"
    | "env_to env \<noteq> ex_pid s" "pname (env_to env) \<noteq> ''cluster_server''" by blast
  then show ?thesis
  proof cases
    case 1
    with chained_pid(2) [OF inv] have "chained ps q s" using other by metis
    from keepsD [OF handle_executor_envelope_chained [OF rt] this prod.collapse [symmetric]] 1
    show ?thesis by (simp add: route_to_process_def withM_def)
  next
    case 2
    with chained_pid(3) [OF inv] have "chained ps q s" using other by metis
    from keepsD [OF cluster_send_chained this prod.collapse [symmetric]] this 2
      run_process_chained [OF x inv]
    show ?thesis by (auto simp: route_to_process_def withM_def panic_def split: option.splits)
  next
    case 3
    with run_process_chained [OF x inv] show ?thesis by (simp add: route_to_process_def withM_def)
  qed
qed

lemma route_chained:
  assumes x: "runs_replicas x" and rt: "metrics_kept ps q rt"
    and inv: "chained ps (ExecEnvelope env # q) s"
  shows "chained ps q (snd (route x rt env s))"
proof (cases "ex_node s = node (env_to env)")
  case False
  then have "env_to env \<notin> set ps" using chained_pid(1) [OF inv] by metis
  then have "chained ps q s"
    by (intro chained_dequeue [OF inv]) (auto simp: inner_def dest: tl_mem)
  from keepsD [OF cluster_send_chained this prod.collapse [symmetric]] False
  show ?thesis by (simp add: route_def withM_def)
next
  case True
  obtain r s1 where r: "route_to_process x rt env s = (r, s1)" by fastforce
  then have s1: "chained ps q s1" using route_to_process_chained [OF x rt inv] by simp
  from keepsD [OF route_to_service_chained this prod.collapse [symmetric]] True r s1
  show ?thesis by (cases r) (simp_all add: route_def withM_def catchM_def)
qed

lemma quiet_queue:
  "quiet ps m \<Longrightarrow> chained ps q s \<Longrightarrow> chained ps (m # q) s"
  using in_step_quiet(2) [of ps "[m]" "hm_get (processes s)" "q @ ex_tx s"] quiet_calm
  by (simp add: chained_def)

lemma route_d_metrics: "runs_replicas x \<Longrightarrow> metrics_kept ps q (route_d x d)"
proof (induction d)
  case (Suc d)
  then have "chained ps q (snd (route_d x (Suc d) e s))" if "env_msg e = Metrics m" "chained ps q s" for e m s
    using route_chained [OF Suc.prems Suc.IH [OF Suc.prems] quiet_queue [OF _ that(2)]] that(1)
    by (simp add: inner_def)
  then show ?case unfolding metrics_kept_def by (auto intro: keepsI)
qed (auto simp: metrics_kept_def intro: keeps_rules)

lemma route_d_chained:
  assumes "runs_replicas x" and "chained ps (ExecEnvelope env # q) s"
  shows "chained ps q (snd (route_d x (Suc d) env s))"
  using route_chained [OF assms(1) route_d_metrics [OF assms(1)] assms(2)] by simp

section \<open>Messages of the executor\<close>

lemma exec_tick_chained:
  assumes "runs_replicas x"
  shows "keeps (chained ps q) (exec_tick x d)"
proof -
  have "keeps (chained ps q) (route_to_process x (route_d x d) e)" if "env_msg e = Timeout" for e
    using that route_to_process_chained [OF assms route_d_metrics [OF assms] quiet_queue]
    by (auto intro!: keepsI simp: inner_def)
  then show ?thesis
    unfolding exec_tick_def Let_def
    by (auto intro!: keeps_rules keeps_mod split: prod.splits)
qed

lemma exec_start_chained:
  assumes x: "runs_replicas x" and calm: "calm ps (Start p r)" and inv: "chained ps q s"
  shows "chained ps q (snd (exec_start x d p r s))"
proof -
  let ?M = "hm_get (processes s)"
  have p: "p \<notin> set ps" "\<And>t. r_next r = Some t \<Longrightarrow> t \<notin> set (tl ps)" using calm by simp_all
  have "wired ps ?M" using inv by (simp add: chained_def)
  then have w: "wired ps (?M(p \<mapsto> r))" by (rule wired_other [OF _ p(1)]) (use p(2) in simp)
  with inv have "chained ps q (s\<lparr>processes := hm_insert p r (processes s)\<rparr>)"
    by (simp add: chained_def exec_core_def in_step_other [OF p(1)])
  with x show ?thesis by (simp add: exec_start_def runs_replicas_def process_init_def act_defs)
qed

lemma exec_stop_chained:
  assumes "p \<notin> set ps" and inv: "chained ps q s"
  shows "chained ps q (snd (exec_stop p s))"
proof -
  let ?M = "hm_get (processes s)"
  have "wired ps ?M" using inv by (simp add: chained_def)
  then have w: "wired ps (?M(p := None))" by (rule wired_other [OF _ assms(1)]) simp
  with inv show ?thesis
    by (simp add: chained_def exec_core_def exec_stop_def act_defs in_step_other [OF assms(1)])
qed

lemma exec_dispatch_chained:
  assumes x: "runs_replicas x" and "0 < d" and inv: "chained ps (m # q) s"
  shows "chained ps q (snd (exec_dispatch x d m s))"
proof -
  have calm: "calm ps m" using inv by (simp add: chained_def)
  have dq: "chained ps q s" if "\<forall>env. m \<noteq> ExecEnvelope env"
    by (rule chained_dequeue [OF inv]) (use that calm in \<open>cases m; simp\<close>)
  show ?thesis
  proof (cases m)
    case (ExecEnvelope env)
    let ?s = "s\<lparr>ex_metrics := (ex_metrics s)\<lparr>received_envelopes := received_envelopes (ex_metrics s) + 1\<rparr>\<rparr>"
    have "chained ps (ExecEnvelope env # q) ?s" using inv ExecEnvelope by simp
    from route_d_chained [OF x this, of "d - 1"] \<open>0 < d\<close> ExecEnvelope show ?thesis
      by (simp add: exec_dispatch_def exec_envelope_def seqM_def bindM_def modM_def del: route_d.simps)
  next
    case (Start p r)
    with exec_start_chained [OF x _ dq] calm show ?thesis by (simp add: exec_dispatch_def)
  next
    case (Stop p)
    with exec_stop_chained [OF _ dq] calm show ?thesis by (simp add: exec_dispatch_def)
  next
    case (RegisterService p tx)
    with dq show ?thesis
      by (simp add: exec_dispatch_def register_service_def act_defs chained_def exec_core_def)
  next
    case (ExecGetStatus cid)
    with keepsD [OF route_to_service_chained dq prod.collapse [symmetric]] show ?thesis
      by (simp add: exec_dispatch_def exec_get_status_def withM_def)
  next
    case Tick
    with keepsD [OF exec_tick_chained [OF x] dq prod.collapse [symmetric]] show ?thesis
      by (simp add: exec_dispatch_def)
  qed (use dq in \<open>simp add: exec_dispatch_def ret_def\<close>)
qed

lemma exec_handle_chained:
  assumes "runs_replicas x" and "0 < d" and "chained ps (m # q) s" and "exec_handle x d m s = (st, s')"
  shows "chained ps q s'"
proof -
  obtain r s1 where r: "exec_dispatch x d m s = (r, s1)" by fastforce
  then have s1: "chained ps q s1" using exec_dispatch_chained [OF assms(1-3)] by simp
  show ?thesis
  proof (cases m)
    case ExecShutdown
    with assms(4) chained_dequeue [OF assms(3)] show ?thesis by (simp add: exec_handle_def)
  qed (use assms(4) r s1 in \<open>auto simp: exec_handle_def split: result.splits\<close>)
qed

end
