(* ===== verification/ClusterSample.thy ===== *)
theory ClusterSample
  imports ClusterSafe Replica
begin

text \<open>
  A concrete outside for the cluster server: a kernel that numbers registrations with a counter
  and hands out the frames waiting in an inbox, a codec of a few frame formats, and a membership
  set. The hypotheses of the server's invariant and the laws of the membership set are proved
  for it, so the properties can be evaluated on it.
\<close>

section \<open>The membership set\<close>

datatype set_delta = AddD node_id | RemoveD node_id

definition sample_set_ops :: "(node_id list, set_delta, unit) orset_ops" where
  "sample_set_ops =
     \<lparr>os_new = (\<lambda>a. []),
      os_add = (\<lambda>e s. (AddD e, hs_insert e s)),
      os_elements = (\<lambda>s. s),
      os_join_state = (\<lambda>other s. s @ hs_difference (remdups other) s),
      os_seen = (\<lambda>e s. if e \<in> set s then Some () else None),
      os_remove = (\<lambda>e k s. (RemoveD e, hs_remove e s)),
      os_join = (\<lambda>d s. case d of
          AddD e \<Rightarrow> (e \<notin> set s, hs_insert e s)
        | RemoveD e \<Rightarrow> (e \<in> set s, hs_remove e s))\<rparr>"

lemma sample_set_laws: "orset_laws sample_set_ops"
  unfolding orset_laws_def
  by (auto simp: sample_set_ops_def hs_insert_def hs_remove_def split: set_delta.splits if_splits)

section \<open>The kernel and the codec\<close>

record sample_net =
  next_reg :: nat
  next_fd :: nat
  inbox :: "(fd \<times> bytes) list"

type_synonym sample_frames = "bytes list"

type_synonym sample_env =
  "(rabble_user_msg, sample_net, sample_frames, node_id list, set_delta, unit) cluster_env"

type_synonym sample_cluster =
  "(rabble_user_msg, replica, nat, sample_net, sample_frames, node_id list) cluster"

definition would_block :: io_error where
  "would_block = \<lparr>io_kind = WouldBlock, raw_os_error = Some 11\<rparr>"

definition in_progress :: io_error where
  "in_progress = \<lparr>io_kind = OtherIo, raw_os_error = Some 115\<rparr>"

text \<open>Name resolution fails with an error that carries no number of the operating system.\<close>

definition unresolved :: io_error where
  "unresolved = \<lparr>io_kind = OtherIo, raw_os_error = None\<rparr>"

definition sample_peer :: "nat \<Rightarrow> node_id" where
  "sample_peer k = \<lparr>name = replicate k CHR ''n'', addr = ''10.0.0.1:9000''\<rparr>"

definition sample_index :: "node_id \<Rightarrow> u8" where
  "sample_index n = of_nat (length (name n))"

definition sample_register :: "sample_net \<Rightarrow> (io_error + usize) \<times> sample_net" where
  "sample_register w =
     (if next_reg w < 1000 then (Inr (of_nat (next_reg w)), w\<lparr>next_reg := next_reg w + 1\<rparr>)
      else (Inl would_block, w))"

text \<open>A frame starts with its kind; a \<open>Members\<close> frame goes on with its sender.\<close>

definition sample_decode :: "bytes \<Rightarrow> (rabble_user_msg, node_id list, set_delta) external_msg option" where
  "sample_decode b =
     (case b of
        k # n # rest \<Rightarrow>
          if k = 0 then Some (Members (sample_peer (unat n)) (map (\<lambda>i. sample_peer (unat i)) rest))
          else if k = 1 then Some Ping
          else if k = 2 then Some (DeltaMsg (AddD (sample_peer (unat n))))
          else if k = 3 then Some (DeltaMsg (RemoveD (sample_peer (unat n))))
          else None
      | _ \<Rightarrow> None)"

definition sample_encode :: "(rabble_user_msg, node_id list, set_delta) external_msg \<Rightarrow> bytes option" where
  "sample_encode m =
     (case m of
        Members n ns \<Rightarrow> Some (0 # sample_index n # map sample_index ns)
      | Ping \<Rightarrow> Some [1, 0]
      | DeltaMsg (AddD n) \<Rightarrow> Some [2, sample_index n]
      | DeltaMsg (RemoveD n) \<Rightarrow> Some [3, sample_index n]
      | RemoteEnvelope env \<Rightarrow> Some [4, 0])"

text \<open>
  With \<open>honest\<close>, a reader drops the \<open>Members\<close> frames whose sender is not the peer of the
  socket: socket \<open>k\<close> leads to \<open>sample_peer k\<close>. Sockets from 200 on are broken.
\<close>

definition from_peer :: "fd \<Rightarrow> bytes \<Rightarrow> bool" where
  "from_peer sk b = (case b of k # n # rest \<Rightarrow> k = 0 \<longrightarrow> unat n = sk | _ \<Rightarrow> True)"

definition sample_read ::
    "bool \<Rightarrow> fd \<Rightarrow> sample_frames \<Rightarrow> sample_net \<Rightarrow> (io_error + usize) \<times> sample_frames \<times> sample_net" where
  "sample_read honest sk f w =
     (let got = f @ map snd (filter (\<lambda>e. fst e = sk) (inbox w)) in
      (Inr (of_nat (length got)), if honest then filter (from_peer sk) got else got,
       w\<lparr>inbox := filter (\<lambda>e. fst e \<noteq> sk) (inbox w)\<rparr>))"

definition sample_env :: "bool \<Rightarrow> sample_env" where
  "sample_env honest =
     \<lparr>rg_register = (\<lambda>sk ev. sample_register),
      rg_reregister = (\<lambda>i sk ev w. (Inr (), w)),
      rg_deregister = (\<lambda>sk w. (Inr (), w)),
      rg_register_listener = (\<lambda>ev. sample_register),
      rg_set_interval = (\<lambda>n. sample_register),
      rd_new = (\<lambda>n. []),
      rd_read = sample_read honest,
      rd_frames = (\<lambda>f. f),
      rd_drop = drop,
      wr_new = [],
      wr_write = (\<lambda>sk m f w. if 200 \<le> sk then (Inl would_block, f, w)
         else (Inr True, case m of None \<Rightarrow> f | Some b \<Rightarrow> f @ [b], w)),
      wr_is_writable = (\<lambda>f. True),
      wr_writable = (\<lambda>f. f),
      sk_bind = (\<lambda>a w. (Inr [Inr 3, Inl would_block], w)),
      sk_new_v4 = (\<lambda>w. (Inr (next_fd w), w\<lparr>next_fd := next_fd w + 1\<rparr>)),
      sk_to_tcp_stream = (\<lambda>sk w. (Inr sk, w)),
      sk_set_nonblocking = (\<lambda>sk w. (Inr (), w)),
      sk_connect = (\<lambda>sk a w. (Inl (if a = [] then unresolved else in_progress), w)),
      einprogress = 115,
      msg_encode = sample_encode,
      msg_decode = sample_decode,
      set_ops = sample_set_ops\<rparr>"

definition sample_used :: "sample_net \<Rightarrow> usize set" where
  "sample_used w = {i. unat i < next_reg w}"

lemma sample_register_grows: "grows sample_used (\<lambda>w. sample_register w)"
  by (auto simp: grows_def sample_used_def sample_register_def)

lemma sample_register_fresh:
  assumes "sample_register w = (Inr i, w')"
  shows "i \<notin> sample_used w \<and> insert i (sample_used w) \<subseteq> sample_used w'"
proof -
  have i: "i = of_nat (next_reg w)" "next_reg w < 1000" "next_reg w' = next_reg w + 1"
    using assms by (auto simp: sample_register_def split: if_splits)
  then have "unat i = next_reg w" by (simp add: unat_of_nat)
  with i show ?thesis by (auto simp: sample_used_def)
qed

lemma sample_ids_fresh: "ids_fresh (sample_env honest) sample_used"
  unfolding ids_fresh_def
  by (intro conjI allI impI)
     (auto simp: sample_env_def sample_register_grows dest: sample_register_fresh,
      auto simp: grows_def sample_used_def sample_read_def Let_def)

lemma sample_honest: "honest_peers (sample_env True) sample_peer"
  unfolding honest_peers_def
  by (auto simp: sample_env_def sample_read_def Let_def from_peer_def sample_decode_def
      split: list.splits if_splits)

section \<open>A server with one established connection\<close>

text \<open>
  Connection 7 leads to \<open>sample_peer k\<close>, which is a member; it was accepted, its members were
  sent, and its timeout is in slot 2 of the wheel. Connection 8 is a client connection
  that is being opened, in slot 4.
\<close>

definition sample_server :: "nat \<Rightarrow> sample_cluster" where
  "sample_server k =
     \<lparr>cs_pid = \<lparr>group = Some ''rabble'', pname = ''cluster_server'', node = sample_peer 5\<rparr>,
      cs_node = sample_peer 5,
      executor_tx = \<lparr>sent = [], rx_alive = True\<rparr>,
      executor_timer_id = 1, timer_id = 0,
      cs_timer_wheel = \<lparr>tw_size = 5, tw_data = [[], [], [7], [], [8]], current_read = 2,
        current_write = 1\<rparr>,
      listener = [Inr 6, Inl would_block], listener_id = 2,
      cs_members = \<lparr>me = sample_peer 5, orset = [sample_peer 5, sample_peer k, sample_peer 4]\<rparr>,
      connections =
        [(7, \<lparr>sock = k, conn_node = Some (sample_peer k), is_client = False,
            conn_members_sent = True, timer_wheel_index = 2, reader = [], writer = []\<rparr>),
         (8, \<lparr>sock = 4, conn_node = Some (sample_peer 4), is_client = True,
            conn_members_sent = False, timer_wheel_index = 4, reader = [], writer = []\<rparr>)],
      established = [(sample_peer k, 7)],
      registrar = \<lparr>next_reg = 9, next_fd = 10, inbox = []\<rparr>,
      cs_metrics = cluster_metrics_new\<rparr>"

abbreviation sample_cluster :: sample_cluster where
  "sample_cluster \<equiv> sample_server 3"

lemma sample_peer_inj [simp]: "sample_peer j = sample_peer k \<longleftrightarrow> j = k"
  by (simp add: sample_peer_def)

lemma sample_peer_less [simp]: "sample_peer j < sample_peer k \<longleftrightarrow> j < k"
proof -
  have "replicate j CHR ''n'' < replicate k CHR ''n'' \<longleftrightarrow> j < k" for j k
  proof (induction j arbitrary: k)
    case 0
    show ?case by (cases k) auto
  next
    case (Suc j)
    then show ?case by (cases k) auto
  qed
  then show ?thesis by (auto simp: sample_peer_def less_node_id_ext_def)
qed

lemma sample_server_inv:
  "cl_inv (sample_env True) sample_used sample_peer {} None (sample_server k)"
proof -
  have slots: "slot_keys (cs_timer_wheel (sample_server k)) j =
      (if j = 2 then {7} else if j = 4 then {8} else {})" for j
  proof -
    consider "j = 0" | "j = 1" | "j = 2" | "j = 3" | "j = 4" | "5 \<le> j" by linarith
    then show ?thesis by cases (simp_all add: sample_server_def slot_keys_def)
  qed
  have "tw_wf (cs_timer_wheel (sample_server k))"
    by (simp add: sample_server_def tw_wf_def)
  moreover have "own_slots {} (connections (sample_server k)) i =
      (if i = 7 then Some 2 else if i = 8 then Some 4 else None)" for i
    by (simp add: sample_server_def own_slots_def)
  ultimately have "wheel.owns (cs_timer_wheel (sample_server k)) (own_slots {} (connections (sample_server k)))"
    by (simp add: wheel.owns_def slots)
  then show ?thesis
    unfolding cl_inv_def
    by (intro conjI sample_ids_fresh sample_honest)
       (auto simp: sample_server_def hm_ok_def established_ok_def pinned_def sample_used_def
          split: if_splits)
qed

end
