(* ===== verification/ClusterClaims.thy ===== *)
theory ClusterClaims
  imports ClusterSample
begin

text \<open>
  The properties of the cluster server: its loop does not crash and keeps its tables consistent,
  what closing, establishing and checking connections achieve, how errors are contained, and how
  messages and membership changes reach other nodes.
\<close>

section \<open>The state after the start\<close>

lemma cluster_new_inv:
  assumes "cluster_new x n ch w = Ok s" and "ids_fresh x used" and "honest_peers x peer"
    and "rx_alive ch"
  shows "cl_inv x used peer {} None s" and "tw_size (cs_timer_wheel s) = 5"
    and "orset (cs_members s) = orset (members_new (set_ops x) n)" and "cs_node s = n"
proof -
  obtain tw where tw: "timer_wheel_new (request_timeout div tick_time) = Some (tw :: usize timer_wheel)"
    by (simp add: timer_wheel_new_def request_timeout_def tick_time_def)
  note wf = timer_wheel_new_wf [OF tw]
  have "wheel.owns tw (own_slots {} [])"
    using wf timer_wheel_new_keys [OF tw] by (simp add: wheel.owns_def)
  then show "cl_inv x used peer {} None s" "tw_size (cs_timer_wheel s) = 5"
    "orset (cs_members s) = orset (members_new (set_ops x) n)" "cs_node s = n"
    using assms tw wf
    by (auto simp: cluster_new_def cl_inv_def established_ok_def pinned_def request_timeout_def
        tick_time_def split: prod.splits sum.splits)
qed

lemma unwrapM_keeps:
  assumes "grows used f"
  shows "keeps (cl_inv x used peer E pin) (unwrapM p f)"
  unfolding unwrapM_def
  by (intro keeps_bind safe_keeps [OF sysM_safe] assms) (auto intro: keeps_rules split: sum.splits)

lemma cluster_start_keeps: "keeps (cl_inv x used peer {} None) (cluster_start x)"
proof (rule keepsI)
  fix s assume inv: "cl_inv x used peer {} None s"
  note f = ids_fresh_grows [OF cl_invD(1) [OF inv]]
  show "cl_inv x used peer {} None (snd (cluster_start x s))"
    using inv unfolding cluster_start_def
    by (rule keepsD [OF _ _ prod.collapse [symmetric], rotated])
       (intro keeps_bind keeps_seq keeps_mod unwrapM_keeps f; simp)
qed

lemma slot_keys_iff:
  assumes "cl_inv x used peer {} pin s"
  shows "i \<in> slot_keys (cs_timer_wheel s) j \<longleftrightarrow>
    (\<exists>c. hm_get (connections s) i = Some c \<and> timer_wheel_index c = j)"
  using cl_invD(6) [OF assms] by (simp add: wheel.owns_def own_slots_def)

lemma cluster_run_inv:
  assumes "cl_inv x used peer {} None s" and "cluster_start x s = (Ok (), s1)"
    and "cluster_run x ms s = (st, s')"
  shows "cl_inv x used peer {} None s'" and "st \<noteq> Crashed p"
proof -
  have inv: "cl_inv x used peer {} None s1"
    using keepsD [OF cluster_start_keeps assms(1,2)] .
  have run: "run_loop (cluster_handle x) ms s1 = (st, s')"
    using assms(2,3) by (simp add: cluster_run_def)
  have acc: "loop_contract.accepted_run (cluster_handle x) (\<lambda>m s. True) ms s1"
    by (induction ms arbitrary: s1) (auto split: prod.splits loop_status.splits)
  show "cl_inv x used peer {} None s'" by (rule cl_loop.loop_inv [OF inv acc run])
  show "st \<noteq> Crashed p" by (rule cl_loop.loop_no_crash [OF inv acc run])
qed

section \<open>The loop\<close>

text \<open>
  C1: started with a live executor (\<open>rx_alive\<close>), on a kernel that does not reuse registration ids
  (\<open>ids_fresh\<close>) and with peers that send their members under one name per connection
  (\<open>honest_peers\<close>), the cluster server never panics, whatever messages it receives;
  and at any moment every established id is a live connection that carries the name of that
  node, over which the membership was sent. The last condition is needed: a peer that renames
  itself panics the server (C26).
\<close>

theorem cluster_never_crashes:
  assumes "ids_fresh x used" and "honest_peers x peer" and "rx_alive ch"
    and "cluster_new x n ch w = Ok s" and "cluster_start x s = (Ok (), s1)"
    and "cluster_run x ms s = (st, s')"
  shows "(\<forall>p. st \<noteq> Crashed p) \<and> (\<forall>m i. hm_get (established s') m = Some i \<longrightarrow>
    (\<exists>c. hm_get (connections s') i = Some c \<and> conn_node c = Some m \<and> conn_members_sent c
       \<and> m = peer (sock c)))"
proof -
  note inv = cluster_new_inv(1) [OF assms(4,1,2,3)]
  show ?thesis
    using cluster_run_inv [OF inv assms(5,6)] cl_invD(8) [of x used peer "{}" None s']
    by (auto simp: established_ok_def)
qed

text \<open>A kernel with a frame from node 3 in its inbox, and the messages that read it.\<close>

definition sample_net0 :: sample_net where
  "sample_net0 = \<lparr>next_reg = 0, next_fd = 10, inbox = [(3, [0, 3, 3])]\<rparr>"

definition sample_start :: sample_cluster where
  "sample_start =
     (case cluster_new (sample_env True) (sample_peer 5) \<lparr>sent = [], rx_alive = True\<rparr> sample_net0 of
        Ok s \<Rightarrow> s | _ \<Rightarrow> sample_cluster)"

definition sample_messages :: "rabble_user_msg cluster_msg list" where
  "sample_messages =
     [Join (sample_peer 4),
      PollNotifications [\<lparr>n_id = 2, n_event = Read\<rparr>, \<lparr>n_id = 4, n_event = Read\<rparr>],
      PollNotifications [\<lparr>n_id = 0, n_event = Read\<rparr>], Leave (sample_peer 4)]"

lemma sample_start_new:
  "cluster_new (sample_env True) (sample_peer 5) \<lparr>sent = [], rx_alive = True\<rparr> sample_net0
   = Ok sample_start"
  by (simp add: sample_start_def cluster_new_def sample_env_def timer_wheel_new_def
      request_timeout_def tick_time_def)

lemma sample_start_started: "\<exists>s1. cluster_start (sample_env True) sample_start = (Ok (), s1)"
  by (simp add: sample_start_def cluster_new_def sample_env_def timer_wheel_new_def
      request_timeout_def tick_time_def cluster_start_def unwrapM_def sysM_def act_defs
      sample_register_def sample_net0_def)

theorem cluster_never_crashes_witness:
  "\<forall>p. fst (cluster_run (sample_env True) sample_messages sample_start) \<noteq> Crashed p"
proof -
  obtain s1 where "cluster_start (sample_env True) sample_start = (Ok (), s1)"
    using sample_start_started by blast
  from cluster_never_crashes [OF sample_ids_fresh sample_honest _ sample_start_new this
      prod.collapse [symmetric]]
  show ?thesis by simp
qed

text \<open>
  C2: in such a run, under the conditions of C1, the timeouts are exact. A slot of the timer wheel holds the ids of the
  connections that record it and no other id, so no closed connection times out later and no
  open one is forgotten.
\<close>

theorem cluster_timeouts_exact:
  assumes "ids_fresh x used" and "honest_peers x peer" and "rx_alive ch"
    and "cluster_new x n ch w = Ok s" and "cluster_start x s = (Ok (), s1)"
    and "cluster_run x ms s = (st, s')"
  shows "slot_keys (cs_timer_wheel s') j =
    {i. \<exists>c. hm_get (connections s') i = Some c \<and> timer_wheel_index c = j}"
proof -
  note inv = cluster_new_inv(1) [OF assms(4,1,2,3)]
  show ?thesis using slot_keys_iff [OF cluster_run_inv(1) [OF inv assms(5,6)]] by blast
qed

theorem cluster_timeouts_exact_witness:
  "\<forall>j. slot_keys (cs_timer_wheel (snd (cluster_run (sample_env True) sample_messages sample_start))) j =
    {i. \<exists>c. hm_get (connections (snd (cluster_run (sample_env True) sample_messages sample_start))) i = Some c
       \<and> timer_wheel_index c = j}"
proof -
  obtain s1 where "cluster_start (sample_env True) sample_start = (Ok (), s1)"
    using sample_start_started by blast
  from cluster_timeouts_exact [OF sample_ids_fresh sample_honest _ sample_start_new this
      prod.collapse [symmetric]]
  show ?thesis by simp
qed

section \<open>Closing connections\<close>

text \<open>
  C16: \<open>close\<close> removes a connection and all related state and nothing else: the connection is
  gone, its id is in no slot of the wheel and established for no node, and every other
  connection and established node is as before.
\<close>

theorem close_removes_related_state:
  assumes "cl_inv x used peer {} None s"
  shows "\<exists>s'. cs_close x i s = (Ok (), s')
    \<and> hm_get (connections s') = (hm_get (connections s))(i := None)
    \<and> (\<forall>j. slot_keys (cs_timer_wheel s') j = slot_keys (cs_timer_wheel s) j - {i})
    \<and> (\<forall>n. hm_get (established s') n =
          (if hm_get (established s) n = Some i then None else hm_get (established s) n))
    \<and> cs_members s' = cs_members s"
proof -
  from cs_close_effect [OF assms, of i] obtain s' where s': "cs_close x i s = (Ok (), s')"
    "cl_inv x used peer {} None s'"
    "hm_get (connections s') = (hm_get (connections s))(i := None)"
    "hm_get (established s') = (\<lambda>n. if hm_get (established s) n = Some i then None
        else hm_get (established s) n)"
    "cs_members s' = cs_members s"
    by blast
  have "slot_keys (cs_timer_wheel s') j = slot_keys (cs_timer_wheel s) j - {i}" for j
    using s'(3) by (auto simp: slot_keys_iff [OF assms] slot_keys_iff [OF s'(2)] split: if_splits)
  with s' show ?thesis by auto
qed

theorem close_removes_related_state_witness:
  "\<exists>s'. cs_close (sample_env True) 7 sample_cluster = (Ok (), s')
    \<and> hm_get (connections s') 7 = None \<and> hm_get (connections s') 8 \<noteq> None
    \<and> hm_get (established s') (sample_peer 3) = None"
proof -
  have "hm_get (connections sample_cluster) 8 \<noteq> None"
    "hm_get (established sample_cluster) (sample_peer 3) = Some 7"
    by (simp_all add: sample_server_def)
  with close_removes_related_state [OF sample_server_inv [of 3], of 7] show ?thesis by auto
qed

section \<open>Two connections between the same nodes\<close>

text \<open>
  C15: two nodes that each hold the same two connections to one another, one opened from each
  side, choose the same one to close, whichever of the two each of them established first: the
  one whose client sorts lower. So exactly one connection survives.
\<close>

theorem both_sides_close_the_same_connection:
  assumes "cs_node a < cs_node b"
    and "hm_get (established a) (cs_node b) = Some i" and "hm_get (connections a) i = Some c"
    and "hm_get (connections a) j = Some d" and "is_client d = (\<not> is_client c)"
    and "hm_get (established b) (cs_node a) = Some i'" and "hm_get (connections b) i' = Some c'"
    and "hm_get (connections b) j' = Some d'" and "is_client d' = (\<not> is_client c')"
  shows "\<exists>k e k' e'. choose_connection_to_close j (cs_node b) a = Some k
    \<and> choose_connection_to_close j' (cs_node a) b = Some k'
    \<and> hm_get (connections a) k = Some e \<and> is_client e
    \<and> hm_get (connections b) k' = Some e' \<and> \<not> is_client e'"
proof -
  have "\<not> cs_node b < cs_node a" using assms(1) by (rule less_not_sym)
  then show ?thesis
    using assms by (cases "is_client c"; cases "is_client c'") (simp_all add: choose_connection_to_close_def)
qed

text \<open>A server with two connections to one peer, seen from both ends.\<close>

definition two_connections :: "nat \<Rightarrow> nat \<Rightarrow> bool \<Rightarrow> sample_cluster" where
  "two_connections own other client =
     (let c = \<lparr>sock = 3, conn_node = Some (sample_peer other), is_client = client,
            conn_members_sent = True, timer_wheel_index = 2, reader = [], writer = []\<rparr>
      in sample_cluster\<lparr>cs_node := sample_peer own,
           connections := [(7, c), (8, c\<lparr>is_client := \<not> client\<rparr>)],
           established := [(sample_peer other, 7)]\<rparr>)"

theorem both_sides_close_the_same_connection_witness:
  "choose_connection_to_close 8 (sample_peer 5) (two_connections 3 5 True) = Some 7
   \<and> choose_connection_to_close 8 (sample_peer 3) (two_connections 5 3 True) = Some 8"
proof -
  let ?a = "two_connections 3 5 True" and ?b = "two_connections 5 3 True"
  have "\<exists>k e k' e'. choose_connection_to_close 8 (cs_node ?b) ?a = Some k
    \<and> choose_connection_to_close 8 (cs_node ?a) ?b = Some k'
    \<and> hm_get (connections ?a) k = Some e \<and> is_client e
    \<and> hm_get (connections ?b) k' = Some e' \<and> \<not> is_client e'"
    by (rule both_sides_close_the_same_connection) (auto simp: two_connections_def Let_def)
  then show ?thesis by (auto simp: two_connections_def Let_def split: if_splits)
qed

text \<open>
  A peer that sends its members a second time on an established connection loses that
  connection: the connection chosen to be closed is the one that was already there.
\<close>

lemma repeated_members_close_connection:
  assumes "cl_inv x used peer {} None s" and "hm_get (established s) n = Some i"
  shows "\<exists>s'. establish_connection x i n other s = (Ok (), s')
    \<and> hm_get (connections s') i = None \<and> hm_get (established s') n = None
    \<and> cs_members s' = members_join (set_ops x) other (cs_members s)"
proof -
  let ?s = "s\<lparr>cs_members := members_join (set_ops x) other (cs_members s)\<rparr>"
  obtain c where "hm_get (connections s) i = Some c"
    using established_okD(1) [OF cl_invD(8) [OF assms(1)] assms(2)] by blast
  then have "choose_connection_to_close i n ?s = Some i"
    using assms(2) by (simp add: choose_connection_to_close_def)
  moreover have "cl_inv x used peer {} None ?s" using assms(1) by simp
  ultimately show ?thesis
    using cs_close_effect [of x used peer "{}" None ?s i] assms(2)
    by (auto simp: establish_connection_def act_defs)
qed

lemma repeated_members_close_connection_witness:
  "\<exists>s'. establish_connection (sample_env True) 7 (sample_peer 3) [] sample_cluster = (Ok (), s')
    \<and> hm_get (connections s') 7 = None"
proof -
  have "hm_get (established sample_cluster) (sample_peer 3) = Some 7"
    by (simp add: sample_server_def)
  from repeated_members_close_connection [OF sample_server_inv [of 3] this] show ?thesis by blast
qed

section \<open>Connections follow the membership\<close>

text \<open>Opening connections changes neither what is established nor the membership.\<close>

definition tables :: "('t, 'q, 'x, 'w, 'f, 's) cluster \<Rightarrow> (node_id, usize) hmap \<times> 's members \<times> node_id" where
  "tables s = (established s, cs_members s, cs_node s)"

lemma sysM_tables: "keeps (\<lambda>s. tables s = t) (sysM f)"
  by (rule keepsI) (simp add: sysM_def tables_def split: prod.splits)

lemma tryIO_tables: "keeps (\<lambda>s. tables s = t) (tryIO f k)"
  unfolding tryIO_def by (auto intro!: keeps_rules sysM_tables split: sum.splits)

lemma init_connection_tables: "keeps (\<lambda>s. tables s = t) (init_connection x sk n)"
proof -
  have "keeps (\<lambda>s. tables s = t) (wheel_insert i)" for i
    by (rule keepsI) (simp add: wheel_insert_def tables_def split: option.splits prod.splits)
  then show ?thesis
    unfolding init_connection_def
    by (intro keeps_rules tryIO_tables keeps_mod) (simp_all add: tables_def)
qed

lemma connect_tables: "keeps (\<lambda>s. tables s = t) (connect x n)"
  unfolding connect_def by (auto intro!: keeps_rules tryIO_tables sysM_tables init_connection_tables)

lemma forM_Ok:
  assumes "\<And>a s. P s \<Longrightarrow> \<exists>s'. f a s = (Ok (), s') \<and> P s'"
  shows "P s \<Longrightarrow> \<exists>s'. forM as f s = (Ok (), s') \<and> P s'"
proof (induction "as" arbitrary: s)
  case Nil
  then show ?case by (simp add: ret_def)
next
  case (Cons a "as")
  obtain s1 where s1: "f a s = (Ok (), s1)" "P s1" using assms Cons.prems by blast
  from Cons.IH [OF s1(2)] s1 show ?case by (auto simp: seqM_def bindM_def)
qed

lemma connect_attempts_Ok:
  assumes "cl_inv x used peer {} None s"
  shows "\<exists>s'. forM ns (\<lambda>n. seqM (bump (\<lambda>m. m\<lparr>connection_attempts := connection_attempts m + 1\<rparr>))
      (catchM (connect x n) (\<lambda>_. ret ()))) s = (Ok (), s')
    \<and> (cl_inv x used peer {} None s' \<and> tables s' = tables s)"
proof (rule forM_Ok)
  fix n and s1 :: "('a, 'g, 'h, 'b, 'c, 'd) cluster"
  assume s1: "cl_inv x used peer {} None s1 \<and> tables s1 = tables s"
  let ?s = "s1\<lparr>cs_metrics := (cs_metrics s1)\<lparr>connection_attempts := connection_attempts (cs_metrics s1) + 1\<rparr>\<rparr>"
  obtain r s2 where c: "connect x n ?s = (r, s2)" by fastforce
  have "cl_inv x used peer {} None ?s" "tables ?s = tables s" using s1 by (simp_all add: tables_def)
  with safeD [OF connect_safe _ c] keepsD [OF connect_tables _ c]
  have "cl_inv x used peer {} None s2" "\<not> is_panic r" "tables s2 = tables s" by blast+
  with c show "\<exists>s'. seqM (bump (\<lambda>m. m\<lparr>connection_attempts := connection_attempts m + 1\<rparr>))
      (catchM (connect x n) (\<lambda>_. ret ())) s1 = (Ok (), s')
    \<and> (cl_inv x used peer {} None s' \<and> tables s' = tables s)"
    by (cases r) (simp_all add: bump_def act_defs)
qed (use assms in simp)

lemma disconnects_effect:
  assumes "cl_inv x used peer E pin s"
  shows "\<exists>s'. disconnect_established x ns s = (Ok (), s') \<and> cl_inv x used peer E pin s'
     \<and> hm_get (established s') = (\<lambda>n. if n \<in> set ns then None else hm_get (established s) n)
     \<and> cs_members s' = cs_members s \<and> cs_node s' = cs_node s"
  using assms unfolding disconnect_established_def
proof (induction ns arbitrary: s)
  case Nil
  then show ?case by (simp add: ret_def)
next
  case (Cons n ns)
  from disconnect_node_effect [OF Cons.prems, of n] obtain s1 where
    s1: "disconnect_node x n s = (Ok (), s1)" "cl_inv x used peer E pin s1"
      "hm_get (established s1) = (hm_get (established s))(n := None)"
      "cs_members s1 = cs_members s" "cs_node s1 = cs_node s"
    by blast
  from Cons.IH [OF s1(2)] s1 show ?case by (auto simp: seqM_def bindM_def fun_eq_iff)
qed

lemma known_peers_established:
  assumes "cl_inv x used peer E pin s" and "hm_get (established s) n = Some i"
  shows "n \<in> set (known_peers (connections s))"
proof -
  obtain c where c: "hm_get (connections s) i = Some c"
    using established_okD(1) [OF cl_invD(8) [OF assms(1)] assms(2)] by blast
  then have "(i, c) \<in> set (connections s)" by (rule map_of_SomeD)
  moreover have "conn_node c = Some n"
    using established_okD(2) [OF cl_invD(8) [OF assms(1)] assms(2) c] by simp
  ultimately show ?thesis
    by (force simp: known_peers_def List.map_filter_def)
qed

lemma check_connections_effect:
  assumes "cl_inv x used peer {} None s"
  shows "\<exists>s'. check_connections x s = (Ok (), s')
    \<and> (if cs_node s \<in> set (members_all (set_ops x) (cs_members s))
       then cs_members s' = cs_members s \<and> (\<forall>n. hm_get (established s') n =
         (if n \<in> set (members_all (set_ops x) (cs_members s)) then hm_get (established s) n else None))
       else connections s' = [] \<and> established s' = [])"
proof (cases "cs_node s \<in> set (members_all (set_ops x) (cs_members s))")
  case False
  with disconnect_all_effect [OF assms] show ?thesis
    by (auto simp: check_connections_def withM_def Let_def)
next
  case True
  let ?all = "members_all (set_ops x) (cs_members s)"
  let ?known = "known_peers (connections s)"
  obtain s1 where s1: "forM (filter (\<lambda>n. n \<noteq> cs_node s) (hs_difference ?all ?known))
      (\<lambda>n. seqM (bump (\<lambda>m. m\<lparr>connection_attempts := connection_attempts m + 1\<rparr>))
        (catchM (connect x n) (\<lambda>_. ret ()))) s = (Ok (), s1)"
    "cl_inv x used peer {} None s1" "tables s1 = tables s"
    using connect_attempts_Ok [OF assms] by blast
  obtain s2 where s2: "disconnect_established x (hs_difference ?known ?all) s1 = (Ok (), s2)"
    "hm_get (established s2) =
       (\<lambda>n. if n \<in> set (hs_difference ?known ?all) then None else hm_get (established s1) n)"
    "cs_members s2 = cs_members s1"
    using disconnects_effect [OF s1(2)] by blast
  have "hm_get (established s2) n = (if n \<in> set ?all then hm_get (established s) n else None)" for n
    using s1(3) s2(2) known_peers_established [OF assms, of n]
    by (cases "hm_get (established s) n") (auto simp: tables_def)
  moreover have "check_connections x s = (Ok (), s2)"
    using s1(1) s2(1) True
    by (simp add: check_connections_def withM_def Let_def seqM_def bindM_def)
  ultimately show ?thesis using True s1(3) s2(3) by (auto simp: tables_def)
qed

text \<open>
  C17: after \<open>check_connections\<close> only members are established. A node that is not a member itself
  has dropped every connection; otherwise exactly the established members are left. Failed
  attempts to connect do not stop the check.
\<close>

theorem established_follow_members:
  assumes "cl_inv x used peer {} None s"
  shows "\<exists>s'. check_connections x s = (Ok (), s')
    \<and> (if cs_node s \<in> set (members_all (set_ops x) (cs_members s))
       then \<forall>n. hm_get (established s') n =
         (if n \<in> set (members_all (set_ops x) (cs_members s)) then hm_get (established s) n else None)
       else connections s' = [] \<and> established s' = [])"
  using check_connections_effect [OF assms] by (auto split: if_splits)

theorem established_follow_members_witness:
  "\<exists>s'. check_connections (sample_env True)
      (sample_cluster\<lparr>cs_members := \<lparr>me = sample_peer 5, orset = [sample_peer 5]\<rparr>\<rparr>) = (Ok (), s')
    \<and> hm_get (established s') (sample_peer 3) = None"
proof -
  let ?s = "sample_cluster\<lparr>cs_members := \<lparr>me = sample_peer 5, orset = [sample_peer 5]\<rparr>\<rparr>"
  have "cl_inv (sample_env True) sample_used sample_peer {} None ?s"
    using sample_server_inv [of 3] by simp
  moreover have "members_all (set_ops (sample_env True)) (cs_members ?s) = [sample_peer 5]"
    by (simp add: members_all_def sample_env_def sample_set_ops_def hs_collect_def)
  moreover have "cs_node ?s = sample_peer 5" by (simp add: sample_server_def)
  ultimately show ?thesis
    using established_follow_members [of "sample_env True" sample_used sample_peer ?s] by auto
qed

section \<open>Errors stay with the connections that caused them\<close>

lemma collectM_no_Err: "collectM xs f s = (r, s') \<Longrightarrow> r \<noteq> Err e"
proof (induction xs arbitrary: s r s')
  case (Cons a xs)
  then show ?case
    by (auto simp: act_defs split: prod.splits result.splits)
qed (auto simp: ret_def)

text \<open>
  C22: an error while handling notifications of the poller never stops the server, not even
  one that would be fatal elsewhere, and every connection the error names is closed before the
  next message is taken.
\<close>

theorem poll_errors_close_connections:
  assumes "cl_inv x used peer {} None s"
    and "cluster_handle x (PollNotifications ns) s = (st, s')"
  shows "st = Running \<and> (\<forall>e s1. handle_cluster_msg x (PollNotifications ns) s = (Err e, s1) \<longrightarrow>
    (\<forall>i \<in> set (get_ids e). hm_get (connections s') i = None))"
proof -
  obtain r s1 where h: "handle_cluster_msg x (PollNotifications ns) s = (r, s1)" by fastforce
  have inv: "cl_inv x used peer {} None s1" and np: "\<not> is_panic r"
    using safeD [OF handle_cluster_msg_safe assms(1) h] by auto
  show ?thesis
  proof (cases r)
    case (Ok u)
    with h assms(2) show ?thesis by (simp add: cluster_handle_def)
  next
    case (Err e)
    let ?s = "s1\<lparr>cs_metrics := (cs_metrics s1)\<lparr>errors := errors (cs_metrics s1) + 1\<rparr>\<rparr>"
    have kind: "\<exists>es. e = PollNotificationErrors es"
      using h [unfolded Err]
      by (auto simp: handle_cluster_msg_def handle_poll_notifications_def bump_def act_defs
          dest: collectM_no_Err split: prod.splits result.splits if_splits)
    have "cl_inv x used peer {} None ?s" using inv by simp
    from closes_effect [OF this, of "get_ids e"] obtain s2 where
      "forM (get_ids e) (cs_close x) ?s = (Ok (), s2)"
      "\<forall>i \<in> set (get_ids e). hm_get (connections s2) i = None"
      by auto
    with h Err kind assms(2) show ?thesis
      by (auto simp: cluster_handle_def handle_error_def bump_def act_defs)
  next
    case (Panic p)
    with np show ?thesis by simp
  qed
qed

text \<open>The socket of connection 7 to node 200 is broken: writing to it fails.\<close>

theorem poll_errors_close_connections_witness:
  "\<exists>s'. cluster_handle (sample_env True) (PollNotifications [\<lparr>n_id = 7, n_event = Write\<rparr>])
      (sample_server 200) = (Running, s') \<and> hm_get (connections s') 7 = None"
proof -
  let ?m = "PollNotifications [\<lparr>n_id = 7, n_event = Write\<rparr>]"
  obtain st s' where h: "cluster_handle (sample_env True) ?m (sample_server 200) = (st, s')" by fastforce
  have "\<exists>s1. handle_cluster_msg (sample_env True) ?m (sample_server 200)
      = (Err (PollNotificationErrors [WriteError 7 (Some (sample_peer 200))]), s1)"
    by (simp add: handle_cluster_msg_def handle_poll_notifications_def handle_notification_def
        do_socket_io_def cs_write_def tryIO_def sysM_def write_conn_def conn_write_def update_conn_def
        bump_def act_defs sample_env_def sample_server_def hm_insert_def)
  with poll_errors_close_connections [OF sample_server_inv [of 200] h] h show ?thesis by auto
qed

section \<open>Broadcasts\<close>

lemma conn_write_ids:
  assumes "conn_write x i c m w = (Inl e, c', w')"
  shows "get_ids e = [i]"
  using assms by (auto simp: conn_write_def split: prod.splits sum.splits if_splits)

lemma broadcast_conns_facts:
  assumes "broadcast_conns x b cs w = (es, cs', w')"
  shows "(i, c) \<in> set cs \<Longrightarrow> \<not> conn_members_sent c \<Longrightarrow> (i, c) \<in> set cs'"
    and "e \<in> set es \<Longrightarrow> k \<in> set (get_ids e) \<Longrightarrow> \<exists>d. (k, d) \<in> set cs \<and> conn_members_sent d"
    and "(i, c) \<in> set cs \<Longrightarrow> conn_members_sent c \<Longrightarrow>
      \<exists>v q c' v'. conn_write x i c (Some b) v = (q, c', v') \<and> (i, c') \<in> set cs'
        \<and> (\<forall>e. q = Inl e \<longrightarrow> e \<in> set es)"
  using assms
proof (induction cs arbitrary: es cs' w)
  case (Cons jd cs)
  obtain j d where jd: "jd = (j, d)" by fastforce
  {
    case 1
    from 1(3) [unfolded jd] show ?case
      by (cases rule: broadcast_conns_step) (use 1 Cons.IH(1) jd in auto)
  next
    case 2
    from 2(3) [unfolded jd] show ?case
      by (cases rule: broadcast_conns_step)
         (use 2 Cons.IH(2) jd in \<open>fastforce dest: conn_write_ids split: sum.splits\<close>)+
  next
    case 3
    from 3(3) [unfolded jd] show ?case
    proof (cases rule: broadcast_conns_step)
      case (1 es1 cs1)
      with 3 Cons.IH(3) [OF _ _ 1(2)] jd show ?thesis by fastforce
    next
      case (2 q d1 w1 es1 cs1)
      with 3 Cons.IH(3) [OF _ _ 2(3)] jd show ?thesis by (fastforce split: sum.splits)
    qed
  }
qed simp_all

text \<open>
  C23: a broadcast writes the frame to every connection over which the membership was sent, going
  on after a failed write, and touches no other connection. Its error is not fatal and names
  every connection whose write failed and only connections it wrote to.
\<close>

theorem broadcast_reaches_ready_connections:
  assumes "hm_ok (connections s)" and "cs_broadcast x b s = (r, s')"
  shows "(\<forall>i c. hm_get (connections s) i = Some c \<and> \<not> conn_members_sent c \<longrightarrow>
      hm_get (connections s') i = Some c)
    \<and> (\<forall>i c. hm_get (connections s) i = Some c \<and> conn_members_sent c \<longrightarrow>
      (\<exists>v q c' v'. conn_write x i c (Some b) v = (q, c', v') \<and> hm_get (connections s') i = Some c'
        \<and> (\<forall>f. q = Inl f \<longrightarrow> (\<exists>e. r = Err e \<and> i \<in> set (get_ids e)))))
    \<and> (\<forall>e. r = Err e \<longrightarrow> \<not> fatal e \<and> (\<forall>i \<in> set (get_ids e).
      \<exists>c. hm_get (connections s) i = Some c \<and> conn_members_sent c))"
proof -
  obtain es cs w where bc: "broadcast_conns x b (connections s) (registrar s) = (es, cs, w)"
    by (metis prod_cases3)
  with assms(2) have r: "r = (if es = [] then Ok () else Err (BroadcastError es))"
    and s': "connections s' = cs"
    by (auto simp: cs_broadcast_def)
  note same = list_all2_map_of [OF broadcast_conns_same [OF bc]]
  have ok: "hm_ok cs" using same assms(1) by (simp add: hm_ok_def)
  have untouched: "hm_get (connections s') i = Some c"
    if "hm_get (connections s) i = Some c" "\<not> conn_members_sent c" for i c
    using hm_get_entry [OF ok broadcast_conns_facts(1) [OF bc map_of_SomeD [OF that(1)] that(2)]] s'
    by simp
  have written: "\<exists>v q c' v'. conn_write x i c (Some b) v = (q, c', v')
      \<and> hm_get (connections s') i = Some c'
      \<and> (\<forall>f. q = Inl f \<longrightarrow> (\<exists>e. r = Err e \<and> i \<in> set (get_ids e)))"
    if c: "hm_get (connections s) i = Some c" "conn_members_sent c" for i c
  proof -
    obtain v q c' v' where w: "conn_write x i c (Some b) v = (q, c', v')" "(i, c') \<in> set cs"
      and es: "\<forall>e. q = Inl e \<longrightarrow> e \<in> set es"
      using broadcast_conns_facts(3) [OF bc map_of_SomeD [OF c(1)] c(2)] by blast
    have "\<exists>e. r = Err e \<and> i \<in> set (get_ids e)" if q: "q = Inl f" for f
    proof -
      have f: "f \<in> set es" "get_ids f = [i]" using es q conn_write_ids [OF w(1) [unfolded q]] by simp_all
      then have "i \<in> set (get_ids (BroadcastError es))" by force
      with f(1) r show ?thesis by auto
    qed
    with w hm_get_entry [OF ok w(2)] s' show ?thesis by blast
  qed
  have named: "\<exists>c. hm_get (connections s) i = Some c \<and> conn_members_sent c"
    if "i \<in> set (get_ids (BroadcastError es))" for i
    using that broadcast_conns_facts(2) [OF bc] hm_get_entry [OF assms(1)] by fastforce
  have error: "e = BroadcastError es" if "r = Err e" for e
    using that r by (simp split: if_splits)
  show ?thesis
  proof (intro conjI)
    show "\<forall>e. r = Err e \<longrightarrow> \<not> fatal e \<and> (\<forall>i \<in> set (get_ids e).
        \<exists>c. hm_get (connections s) i = Some c \<and> conn_members_sent c)"
      using error named by auto
  qed (use untouched written in blast)+
qed

theorem broadcast_reaches_ready_connections_witness:
  "\<exists>r s'. cs_broadcast (sample_env True) [1, 0] sample_cluster = (r, s')
     \<and> hm_get (connections s') 8 = hm_get (connections sample_cluster) 8"
proof -
  obtain r s' where b: "cs_broadcast (sample_env True) [1, 0] sample_cluster = (r, s')" by fastforce
  obtain c where "hm_get (connections sample_cluster) 8 = Some c" "\<not> conn_members_sent c"
    by (simp add: sample_server_def)
  with b broadcast_reaches_ready_connections [OF cl_invD(4) [OF sample_server_inv [of 3]] b]
  show ?thesis by auto
qed

end
