(* ===== verification/NodeClaims.thy ===== *)
theory NodeClaims
  imports NodeSystem ClusterClaims
begin

text \<open>Properties of a whole node: its threads, their channels and its shutdown.\<close>

section \<open>The start\<close>

lemma cluster_start_pid: "keeps (sends Q p) (cluster_start x)"
proof -
  have "keeps (sends Q p) (unwrapM t f)" for t f
    unfolding unwrapM_def by (auto intro!: keeps_rules sends_rules split: sum.splits)
  then show ?thesis unfolding cluster_start_def by (intro keeps_rules sends_mod) simp_all
qed

lemma executor_new_inv:
  assumes "node_env_ok e K tk used peer"
  shows "exec_inv (ne_exec e) K tk (ne_depth e) (executor_new (ne_exec e) n (empty_chan True) v)"
  using assms
  by (simp add: node_env_ok_def exec_inv_def executor_new_def exec_core_def sends_ok_def
      empty_chan_def timers_ok_def)

lemma rouse_inv:
  assumes env: "node_env_ok e K tk used peer" and start: "rouse e n po v w = Ok S"
    and run: "ns_cluster_status S = Running"
  shows "node_inv e K tk used peer S" and "ns_id S = n"
proof -
  obtain c r c1 where c: "cluster_new (ne_cluster e) n (empty_chan True) w = Ok c"
    and r: "cluster_start (ne_cluster e) c = (r, c1)"
    and S: "S = \<lparr>ns_id = n, ns_exec = executor_new (ne_exec e) n (empty_chan True) v,
      ns_exec_rx = [], ns_exec_status = Running, ns_cluster = c1, ns_cluster_rx = [],
      ns_cluster_status = (case r of Panic p \<Rightarrow> Crashed p | _ \<Rightarrow> Running), ns_poller = True\<rparr>"
    using start by (auto simp: rouse_def split: sum.splits result.splits prod.splits)
  have "cl_inv (ne_cluster e) used peer {} None c"
    using env by (intro cluster_new_inv(1) [OF c]) (simp_all add: node_env_ok_def empty_chan_def)
  then have "cl_inv (ne_cluster e) used peer {} None c1" by (rule keepsD [OF cluster_start_keeps _ r])
  moreover have "sends (\<lambda>m. True) (cluster_pid n) c"
    using c by (auto simp: cluster_new_def sends_def empty_chan_def cluster_pid_def
        split: prod.splits sum.splits option.splits)
  then have "cs_pid c1 = cluster_pid n"
    using keepsD [OF cluster_start_pid _ r] by (auto simp: sends_def)
  ultimately have "healthy e K tk used peer S"
    using executor_new_inv [OF env] by (simp add: healthy_def S)
  with run show "node_inv e K tk used peer S" by (auto simp: node_inv_def S)
  show "ns_id S = n" by (simp add: S)
qed

section \<open>A node to evaluate them on\<close>

text \<open>Node 5 of the cluster's sample, which runs replicas.\<close>

definition sample_node_env ::
    "(rabble_user_msg, replica, sample_wheel, nat, sample_world, sample_net, sample_frames,
      node_id list, set_delta, unit) node_env" where
  "sample_node_env =
     \<lparr>ne_exec = replica_ext, ne_depth = 2, ne_cluster = sample_env True, ne_debug = name,
      ne_clone = Inr\<rparr>"

lemma sample_node_env_ok: "node_env_ok sample_node_env replica_contract sample_timers sample_used sample_peer"
proof -
  have "msg_decode (sample_env True) b \<noteq> Some (RemoteEnvelope env)" for b env
    by (auto simp: sample_env_def sample_decode_def split: list.splits)
  then show ?thesis
    using replica_procs_ok replica_timers_ok sample_ids_fresh sample_honest
    by (auto simp: node_env_ok_def peers_send_def sample_node_env_def replica_contract_def env_ok_def pid_ok_def
        cluster_pid_def)
qed

lemma sample_rouse:
  "\<exists>S. rouse sample_node_env (sample_peer 5) (Inr ()) [] sample_net0 = Ok S
     \<and> ns_cluster_status S = Running \<and> ns_exec_status S = Running \<and> ns_exec_rx S = []
     \<and> ns_cluster_rx S = [] \<and> ns_poller S
     \<and> timer_id (ns_cluster S) = 0 \<and> executor_timer_id (ns_cluster S) = 1
     \<and> listener_id (ns_cluster S) = 2"
proof -
  obtain c where "cluster_start (sample_env True) sample_start = (Ok (), c)" "timer_id c = 0"
    "executor_timer_id c = 1" "listener_id c = 2"
    by (simp add: sample_start_def cluster_new_def sample_env_def timer_wheel_new_def
      request_timeout_def tick_time_def cluster_start_def unwrapM_def sysM_def act_defs
      sample_register_def sample_net0_def)
  then show ?thesis
    using sample_start_new by (simp add: rouse_def empty_chan_def sample_node_env_def)
qed

section \<open>Threads\<close>

text \<open>
  C3: The two threads of a node survive together. Let the user's code, the requests and the peers
  keep the contract of the node (\<open>node_env_ok\<close>, \<open>turn_ok\<close>): processes do not panic on what they may
  be handed, peers keep their names and send only envelopes of the contract, and registration ids
  are fresh. Then in every interleaving of the executor, the cluster server, the poller and
  requests the cluster server panics only after the executor has ended, and the executor only
  after the cluster server has ended or in a send to a registered service whose receiver is gone.
  While both run, every message in the queue of the executor is one that it accepts.
\<close>
theorem node_threads_survive_together:
  assumes "node_env_ok e K tk used peer" and "rouse e n po v w = Ok S"
    and "ns_cluster_status S = Running" and "list_all (turn_ok K n) ts"
    and "node_steps e S ts S'"
  shows "(ns_exec_status S' = Crashed p \<longrightarrow> ns_cluster_status S' \<noteq> Running
        \<or> p = ''tx.send'' \<and> lost_service (ne_exec e) (ns_exec S'))
    \<and> (ns_cluster_status S' = Crashed p \<longrightarrow> ns_exec_status S' \<noteq> Running)
    \<and> (both_run S' \<longrightarrow> list_all (exec_accepts K) (ns_exec_rx S'))"
proof -
  note S = rouse_inv [OF assms(1-3)]
  have "node_inv e K tk used peer S'"
    using node_steps_inv [OF assms(5,1) S(1)] assms(4) S(2) by simp
  then show ?thesis by (auto simp: node_inv_def healthy_def)
qed

text \<open>A process is started, and the executor's timer fires.\<close>

theorem node_threads_survive_together_witness:
  "\<exists>S S'. rouse sample_node_env (sample_peer 5) (Inr ()) [] sample_net0 = Ok S
     \<and> node_steps sample_node_env S
         [Request (ReqSpawn (local_pid ''r1'') (replica_new (local_pid ''r1'') None)), ExecutorTurn,
          PollerTurn [\<lparr>n_id = 1, n_event = Read\<rparr>], ClusterTurn] S'
     \<and> (ns_cluster_status S' = Crashed ''tick'' \<longrightarrow> ns_exec_status S' \<noteq> Running)"
proof -
  let ?m = "Start (local_pid ''r1'') (replica_new (local_pid ''r1'') None)"
  let ?n = "[\<lparr>n_id = 1, n_event = Read\<rparr>]"
  obtain S where S: "rouse sample_node_env (sample_peer 5) (Inr ()) [] sample_net0 = Ok S"
    "ns_cluster_status S = Running" "ns_exec_status S = Running" "ns_exec_rx S = []"
    "ns_cluster_rx S = []" "ns_poller S"
    using sample_rouse by auto
  let ?S1 = "S\<lparr>ns_exec_rx := [?m]\<rparr>"
  let ?S2 = "executor_turn sample_node_env ?m ?S1"
  let ?S3 = "poller_turn ?n ?S2"
  let ?S4 = "cluster_turn sample_node_env (PollNotifications ?n) ?S3"
  have "node_step sample_node_env S (Request (ReqSpawn (local_pid ''r1'')
      (replica_new (local_pid ''r1'') None))) ?S1"
    using S by (simp add: request_turn_iff request_turn_def node_spawn_def node_new_def empty_chan_def
        send_executor_result)
  moreover have "node_step sample_node_env ?S1 ExecutorTurn ?S2"
    by (rule executor) (simp_all add: S)
  moreover have S2: "ns_poller ?S2" "ns_cluster_rx ?S2 = []" "ns_cluster_status ?S2 = Running"
    using S by (simp_all add: executor_turn_def exec_handle_def exec_dispatch_def exec_start_def
        sample_node_env_def replica_ext_def empty_chan_def act_defs)
  then have "node_step sample_node_env ?S2 (PollerTurn ?n) ?S3" by (simp add: poller)
  moreover have "node_step sample_node_env ?S3 ClusterTurn ?S4"
    using S2 by (intro cluster [where rest = "[]"]) (simp_all add: poller_turn_def)
  ultimately have run: "node_steps sample_node_env S
      [Request (ReqSpawn (local_pid ''r1'') (replica_new (local_pid ''r1'') None)), ExecutorTurn,
       PollerTurn ?n, ClusterTurn] ?S4"
    by (meson node_steps.none node_steps.turn)
  have "list_all (turn_ok replica_contract (sample_peer 5))
      [Request (ReqSpawn (local_pid ''r1'') (replica_new (local_pid ''r1'') None)), ExecutorTurn,
       PollerTurn ?n, ClusterTurn :: (rabble_user_msg, replica, nat) node_turn]"
    by (simp add: replica_contract_def replica_new_def local_pid_def pid_ok_def)
  from node_threads_survive_together [OF sample_node_env_ok S(1,2) this run] S(1) run
  show ?thesis by blast
qed

section \<open>Shutdown\<close>

text \<open>
  C39: A shutdown of the node can panic the cluster server. \<open>shutdown\<close> stops the executor first;
  if a tick for the executor is still ahead of the cluster server's own shutdown in its queue,
  the cluster server unwraps the failed send to the executor.
\<close>
theorem shutdown_can_panic_cluster_server:
  assumes "both_run S" and "ns_poller S" and "ns_exec_rx S = []" and "ns_cluster_rx S = []"
    and "executor_timer_id (ns_cluster S) \<noteq> listener_id (ns_cluster S)"
    and "executor_timer_id (ns_cluster S) \<noteq> timer_id (ns_cluster S)"
  shows "\<exists>S'. node_steps e S [PollerTurn [\<lparr>n_id = executor_timer_id (ns_cluster S), n_event = Read\<rparr>],
      Request ReqShutdown, ExecutorTurn, ClusterTurn] S'
    \<and> ns_exec_status S' = Stopped \<and> ns_cluster_status S' = Crashed ''executor_tx.send''"
proof -
  let ?n = "[\<lparr>n_id = executor_timer_id (ns_cluster S), n_event = Read\<rparr>]"
  let ?S1 = "S\<lparr>ns_cluster_rx := [PollNotifications ?n]\<rparr>"
  let ?S2 = "?S1\<lparr>ns_exec_rx := [ExecShutdown], ns_cluster_rx := [PollNotifications ?n, ClusterShutdown]\<rparr>"
  let ?S3 = "executor_turn e ExecShutdown ?S2"
  let ?S4 = "cluster_turn e (PollNotifications ?n) ?S3"
  have run: "ns_exec_status S = Running" "ns_cluster_status S = Running"
    using assms(1) by (simp_all add: both_run_def)
  have "node_step e S (PollerTurn ?n) ?S1"
    using assms(2,4) run by (simp add: poller_turn_iff poller_turn_def)
  moreover have "node_step e ?S1 (Request ReqShutdown) ?S2"
    using assms(3,4) run
    by (simp add: request_turn_iff request_turn_def node_shutdown_def node_new_def empty_chan_def
        send_executor_result send_cluster_result act_defs)
  moreover have "node_step e ?S2 ExecutorTurn ?S3" by (rule executor) (simp_all add: run)
  moreover have S3: "ns_exec_status ?S3 = Stopped" "ns_cluster ?S3 = ns_cluster S"
    "ns_cluster_rx ?S3 = [PollNotifications ?n, ClusterShutdown]" "ns_cluster_status ?S3 = Running"
    by (simp_all add: executor_turn_def exec_handle_def empty_chan_def run)
  have "node_step e ?S3 ClusterTurn ?S4" by (rule cluster [OF S3(4,3)])
  moreover have "ns_cluster_status ?S4 = Crashed ''executor_tx.send''" "ns_exec_status ?S4 = Stopped"
    using S3 assms(5,6)
    by (simp_all add: cluster_turn_def cluster_handle_def handle_cluster_msg_def
        handle_poll_notifications_def handle_notification_def tick_executor_def executor_send_def
        chan_send_def empty_chan_def bump_def act_defs)
  ultimately show ?thesis by (meson node_steps.none node_steps.turn)
qed

theorem shutdown_can_panic_cluster_server_witness:
  "\<exists>S ts S'. rouse sample_node_env (sample_peer 5) (Inr ()) [] sample_net0 = Ok S
     \<and> node_steps sample_node_env S ts S' \<and> ns_cluster_status S' = Crashed ''executor_tx.send''"
proof -
  obtain S where S: "rouse sample_node_env (sample_peer 5) (Inr ()) [] sample_net0 = Ok S"
    "ns_cluster_status S = Running" "ns_exec_status S = Running" "ns_exec_rx S = []"
    "ns_cluster_rx S = []" "ns_poller S" "timer_id (ns_cluster S) = 0"
    "executor_timer_id (ns_cluster S) = 1" "listener_id (ns_cluster S) = 2"
    using sample_rouse by auto
  then show ?thesis
    using shutdown_can_panic_cluster_server [of S sample_node_env] by (auto simp: both_run_def)
qed

end
