(* ===== verification/ChainClaims.thy ===== *)
theory ChainClaims
  imports ChainRun NodeClaims
begin

text \<open>Chain replication on a whole node: the replicas stay in step in every run.\<close>

section \<open>Turns of the node\<close>

definition chain_system :: "pid list
    \<Rightarrow> (rabble_user_msg, replica, 'c, 'x, 'v, 'w, 'f, 's) node_system \<Rightarrow> bool" where
  "chain_system ps S \<longleftrightarrow> chained ps (ns_exec_rx S) ((ns_exec S)\<lparr>ex_tx := []\<rparr>)"

text \<open>Requests that leave the chain alone.\<close>

fun quiet_turn :: "pid list \<Rightarrow> (rabble_user_msg, replica, 'x) node_turn \<Rightarrow> bool" where
  "quiet_turn ps (Request (ReqSend env)) \<longleftrightarrow> \<not> inner ps env"
| "quiet_turn ps (Request (ReqSpawn p r)) \<longleftrightarrow>
     p \<notin> set ps \<and> (\<forall>t. r_next r = Some t \<longrightarrow> t \<notin> set (tl ps))"
| "quiet_turn ps (Request (ReqStop p)) \<longleftrightarrow> p \<notin> set ps"
| "quiet_turn ps t \<longleftrightarrow> True"

definition chain_env :: "(rabble_user_msg, replica, 'c, 'x, 'v, 'w, 'f, 's, 'd, 'k) node_env \<Rightarrow> bool" where
  "chain_env e \<longleftrightarrow> runs_replicas (ne_exec e) \<and> 0 < ne_depth e"

text \<open>The letters that a turn adds to the executor's queue.\<close>

definition brings :: "('t, 'q, 'c, 'x, 'v, 'w, 'f, 's) node_system
    \<Rightarrow> ('t, 'q, 'c, 'x, 'v, 'w, 'f, 's) node_system \<Rightarrow> 't envelope \<Rightarrow> bool" where
  "brings S S' env \<longleftrightarrow> ExecEnvelope env \<in> set (drop (length (ns_exec_rx S)) (ns_exec_rx S'))"

text \<open>
  Runs in which neither requests nor other nodes interfere with the chain: what frames bring may
  be operations for the head, but none for a replica behind it.
\<close>

inductive quiet_steps :: "(rabble_user_msg, replica, 'c, 'x, 'v, 'w, 'f, 's, 'd, 'k) node_env \<Rightarrow> pid list
    \<Rightarrow> (rabble_user_msg, replica, 'c, 'x, 'v, 'w, 'f, 's) node_system \<Rightarrow> (rabble_user_msg, replica, 'x) node_turn list
    \<Rightarrow> (rabble_user_msg, replica, 'c, 'x, 'v, 'w, 'f, 's) node_system \<Rightarrow> bool" for e ps where
  quiet_none: "quiet_steps e ps S [] S"
| quiet_more: "node_step e S t S1 \<Longrightarrow> quiet_turn ps t \<Longrightarrow>
    (t = ClusterTurn \<Longrightarrow> \<forall>env. brings S S1 env \<longrightarrow> \<not> inner ps env) \<Longrightarrow>
    quiet_steps e ps S1 ts S' \<Longrightarrow> quiet_steps e ps S (t # ts) S'"

lemma executor_turn_chained:
  assumes env: "chain_env e" and inv: "chain_system ps S" and rx: "ns_exec_rx S = m # rest"
  shows "chain_system ps (executor_turn e m S)"
proof -
  let ?s = "(ns_exec S)\<lparr>ex_tx := [], cluster_tx := empty_chan (ns_cluster_status S = Running)\<rparr>"
  obtain st ex where ex: "exec_handle (ne_exec e) (ne_depth e) m ?s = (st, ex)" by fastforce
  have "chained ps (m # rest) ?s" using inv rx by (simp add: chain_system_def)
  then have "chained ps rest ex"
    using exec_handle_chained [OF _ _ _ ex] env by (simp add: chain_env_def)
  then have "chained ps (rest @ ex_tx ex) (ex\<lparr>ex_tx := []\<rparr>)" using chained_queue by blast
  then show ?thesis using ex rx by (simp add: chain_system_def executor_turn_def)
qed

lemma cluster_turn_chained:
  assumes quiet: "\<forall>env. brings S (cluster_turn e m S) env \<longrightarrow> \<not> inner ps env" and inv: "chain_system ps S"
  shows "chain_system ps (cluster_turn e m S)"
proof -
  let ?s = "(ns_cluster S)\<lparr>executor_tx := empty_chan (ns_exec_status S = Running)\<rparr>"
  let ?p = "cs_pid (ns_cluster S)" and ?Q = "\<lambda>m. m = Tick \<or> (\<exists>env. m = ExecEnvelope env)"
  obtain st c where c: "cluster_handle (ne_cluster e) m ?s = (st, c)" by fastforce
  have "reply_ok (\<lambda>env. ?Q (ExecEnvelope env)) ?p m" by (cases m) simp_all
  then have "sends ?Q ?p c"
    using sends_handle [OF _ _ _ _ c, of ?Q ?p] by (simp add: sends_def empty_chan_def peers_send_def)
  moreover have rx: "ns_exec_rx (cluster_turn e m S) = ns_exec_rx S @ sent (executor_tx c)"
    using c by (simp add: cluster_turn_def)
  ultimately have "list_all (quiet ps) (sent (executor_tx c))"
    using quiet by (fastforce simp: list_all_iff sends_def brings_def)
  then have "chained ps (ns_exec_rx S @ sent (executor_tx c)) ((ns_exec S)\<lparr>ex_tx := []\<rparr>)"
    using inv by (intro chained_enqueue) (simp_all add: chain_system_def)
  with c show ?thesis by (simp add: chain_system_def cluster_turn_def)
qed

lemma request_turn_chained:
  assumes inv: "chain_system ps S" and "quiet_turn ps (Request r)"
  shows "chain_system ps (request_turn e r S)"
proof -
  let ?n = "snd (request_action e r (node_new (ns_id S)
    (empty_chan (ns_exec_status S = Running)) (empty_chan (ns_cluster_status S = Running))))"
  have "list_all (quiet ps) (sent (nd_executor_tx ?n))"
    using assms(2)
    by (cases r)
       (auto simp: node_requests node_shutdown_def node_new_def send_executor_result
          send_cluster_result empty_chan_def act_defs split: sum.splits)
  with inv have "chained ps (ns_exec_rx S @ sent (nd_executor_tx ?n)) ((ns_exec S)\<lparr>ex_tx := []\<rparr>)"
    unfolding chain_system_def by (rule chained_enqueue)
  then show ?thesis by (simp add: chain_system_def request_turn_def Let_def)
qed

lemma node_step_chained:
  assumes "chain_env e" and "chain_system ps S" and "quiet_turn ps t" and "node_step e S t S'"
    and "t = ClusterTurn \<Longrightarrow> \<forall>env. brings S S' env \<longrightarrow> \<not> inner ps env"
  shows "chain_system ps S'"
  using assms(4)
proof cases
  case (poller ns)
  with assms(2) show ?thesis by (simp add: chain_system_def poller_turn_def)
next
  case (cluster m rest)
  with assms(5) cluster_turn_chained [OF _ assms(2), of e m] show ?thesis by simp
qed (use assms executor_turn_chained request_turn_chained in auto)

lemma quiet_steps_chained:
  assumes "quiet_steps e ps S ts S'" and "chain_env e"
  shows "chain_system ps S \<Longrightarrow> chain_system ps S'"
  using assms by (induction rule: quiet_steps.induct) (auto dest: node_step_chained)

section \<open>Spawning the chain\<close>

definition spawn_turns :: "pid list \<Rightarrow> (rabble_user_msg, replica, 'x) node_turn list" where
  "spawn_turns ps = map (\<lambda>i. Request (ReqSpawn (ps ! i) (replica_at ps i))) [0..<length ps]
     @ replicate (length ps) ExecutorTurn"

lemma node_steps_append:
  "node_steps e S (ts @ us) S'' \<longleftrightarrow> (\<exists>S'. node_steps e S ts S' \<and> node_steps e S' us S'')"
proof (induction ts arbitrary: S)
  case Nil
  show ?case by (auto intro: node_steps.none elim: node_steps.cases)
next
  case (Cons t ts)
  show ?case
  proof
    assume "node_steps e S ((t # ts) @ us) S''"
    then obtain S1 where "node_step e S t S1" "node_steps e S1 (ts @ us) S''"
      by (auto elim: node_steps.cases)
    with Cons show "\<exists>S'. node_steps e S (t # ts) S' \<and> node_steps e S' us S''"
      by (auto intro: node_steps.turn)
  next
    assume "\<exists>S'. node_steps e S (t # ts) S' \<and> node_steps e S' us S''"
    then obtain S1 S' where "node_step e S t S1" "node_steps e S1 ts S'" "node_steps e S' us S''"
      by (auto elim: node_steps.cases)
    with Cons show "node_steps e S ((t # ts) @ us) S''" by (auto intro: node_steps.turn)
  qed
qed

inductive_cases node_stepsE: "node_steps e S (t # ts) S'"
inductive_cases node_steps_NilE: "node_steps e S [] S'"

text \<open>Requests only queue their messages.\<close>

lemma spawn_requests:
  assumes "node_steps e S (map (\<lambda>i. Request (ReqSpawn (f i) (g i))) ks) S'"
    and "ns_exec_status S = Running"
  shows "ns_exec S' = ns_exec S \<and> ns_exec_status S' = Running
    \<and> ns_exec_rx S' = ns_exec_rx S @ map (\<lambda>i. Start (f i) (g i)) ks"
  using assms
proof (induction ks arbitrary: S)
  case (Cons k ks)
  then obtain S1 where step: "node_step e S (Request (ReqSpawn (f k) (g k))) S1"
    and rest: "node_steps e S1 (map (\<lambda>i. Request (ReqSpawn (f i) (g i))) ks) S'"
    by (auto elim: node_stepsE)
  have "ns_exec S1 = ns_exec S" "ns_exec_status S1 = Running"
    "ns_exec_rx S1 = ns_exec_rx S @ [Start (f k) (g k)]"
    using step Cons.prems(2)
    by (simp_all add: request_turn_iff request_turn_def node_spawn_def node_new_def empty_chan_def
        send_executor_result)
  with Cons.IH [OF rest] show ?case by simp
qed (auto elim: node_steps_NilE)

lemma start_turns:
  assumes "node_steps e S (replicate (length ks) ExecutorTurn) S'" and "runs_replicas (ne_exec e)"
    and "ns_exec_status S = Running" and "ns_exec_rx S = map (\<lambda>i. Start (f i) (g i)) ks"
    and "exec_core (ns_exec S)"
  shows "ns_exec_status S' = Running \<and> ns_exec_rx S' = [] \<and> exec_core (ns_exec S')
    \<and> ex_node (ns_exec S') = ex_node (ns_exec S)
    \<and> hm_get (processes (ns_exec S'))
        = fold (\<lambda>i M. M(f i \<mapsto> g i)) ks (hm_get (processes (ns_exec S)))"
  using assms
proof (induction ks arbitrary: S)
  case (Cons k ks)
  obtain S1 where step: "node_step e S ExecutorTurn S1"
    and rest: "node_steps e S1 (replicate (length ks) ExecutorTurn) S'"
    using Cons.prems(1) by (auto elim: node_stepsE)
  have S1: "S1 = executor_turn e (Start (f k) (g k)) S"
    using step Cons.prems(4) by (auto elim: executor_turnE)
  have "proc_init (ne_exec e) p r = Some ([], r)" for p r
    using assms(2) by (simp add: runs_replicas_def process_init_def)
  then have "ns_exec_status S1 = Running" "ns_exec_rx S1 = map (\<lambda>i. Start (f i) (g i)) ks"
    "exec_core (ns_exec S1)" "ex_node (ns_exec S1) = ex_node (ns_exec S)"
    "hm_get (processes (ns_exec S1)) = (hm_get (processes (ns_exec S)))(f k \<mapsto> g k)"
    using Cons.prems(4,5)
    by (simp_all add: S1 executor_turn_def exec_handle_def exec_dispatch_def exec_start_def act_defs
        exec_core_def empty_chan_def)
  with Cons.IH [OF rest assms(2)] show ?case by simp
qed (auto elim: node_steps_NilE)

lemma fold_updates_other:
  "p \<notin> f ` set ks \<Longrightarrow> fold (\<lambda>i M. M(f i \<mapsto> g i)) ks M p = M p"
  by (induction ks arbitrary: M) auto

lemma fold_updates:
  "distinct (map f ks) \<Longrightarrow> k \<in> set ks \<Longrightarrow> fold (\<lambda>i M. M(f i \<mapsto> g i)) ks M (f k) = Some (g k)"
proof (induction ks arbitrary: M)
  case (Cons a ks)
  show ?case
  proof (cases "k = a")
    case True
    with Cons.prems(1) fold_updates_other [of "f a" f ks g "M(f a \<mapsto> g a)"] show ?thesis
      by (simp del: fun_upd_apply add: fun_upd_same)
  qed (use Cons in auto)
qed simp

lemma recorded_new: "M p = Some (replica_at ps i) \<Longrightarrow> recorded M p = []"
  by (simp add: recorded_def replica_at_def replica_new_def)

lemma spawned_chained:
  assumes "chain_pids ps (ex_node s)" and "exec_core s" and "ex_tx s = []"
    and "hm_get (processes s) = fold (\<lambda>i M. M(ps ! i \<mapsto> replica_at ps i)) [0..<length ps] (\<lambda>_. None)"
  shows "chained ps [] s"
proof -
  let ?M = "hm_get (processes s)"
  have dist: "distinct ps" using assms(1) by (simp add: chain_pids_def)
  have map_ps: "map ((!) ps) [0..<length ps] = ps" by (rule map_nth)
  have at: "?M (ps ! i) = Some (replica_at ps i)" if "i < length ps" for i
    unfolding assms(4) by (rule fold_updates) (use that dist map_ps in simp_all)
  have out: "?M p = None" if "p \<notin> set ps" for p
  proof -
    have "p \<notin> (!) ps ` set [0..<length ps]" using that by auto
    then show ?thesis unfolding assms(4) by (simp add: fold_updates_other del: set_upt)
  qed
  have found: "\<exists>i < length ps. p = ps ! i \<and> r = replica_at ps i" if "?M p = Some r" for p r
    using that at out by (metis in_set_conv_nth option.distinct(1) option.inject)
  have next_at: "r_next (replica_at ps i) = Some t \<longleftrightarrow> Suc i < length ps \<and> t = ps ! Suc i"
    if "i < length ps" for i t
    using that by (auto simp: replica_at_def replica_new_def)
  have "wired ps ?M"
    unfolding wired_def
  proof (intro conjI ballI allI impI)
    fix p assume "p \<in> set ps"
    with at show "?M p \<noteq> None" by (metis in_set_conv_nth option.distinct(1))
  next
    fix p r t assume "?M p = Some r" "link ps p t"
    with found next_at dist show "r_next r = Some t"
      unfolding link_nth by (metis Suc_lessD nth_eq_iff_index_eq)
  next
    fix p r t assume "?M p = Some r" "r_next r = Some t"
    with found next_at show "link ps p t" unfolding link_nth by metis
  qed
  moreover have "in_step ps ?M []"
    using at recorded_new unfolding in_step_def link_nth by (metis Suc_lessD append_Nil in_flight_simps(1))
  ultimately show ?thesis using assms(1-3) by (simp add: chained_def)
qed

lemma spawn_chain:
  assumes "rouse e n po v w = Ok S0" and "runs_replicas (ne_exec e)" and "chain_pids ps n"
    and "node_steps e S0 (spawn_turns ps) S"
  shows "chain_system ps S \<and> ns_exec_rx S = [] \<and> ns_exec_status S = Running"
proof -
  have S0: "ns_exec S0 = executor_new (ne_exec e) n (empty_chan True) v" "ns_exec_status S0 = Running"
    "ns_exec_rx S0 = []"
    using assms(1) by (auto simp: rouse_def split: sum.splits result.splits prod.splits)
  obtain S1 where S1: "node_steps e S0 (map (\<lambda>i. Request (ReqSpawn (ps ! i) (replica_at ps i)))
      [0..<length ps]) S1" "node_steps e S1 (replicate (length ps) ExecutorTurn) S"
    using assms(4) by (auto simp: spawn_turns_def node_steps_append)
  have q: "ns_exec S1 = ns_exec S0" "ns_exec_status S1 = Running"
    "ns_exec_rx S1 = map (\<lambda>i. Start (ps ! i) (replica_at ps i)) [0..<length ps]"
    using spawn_requests [OF S1(1) S0(2)] S0(3) by simp_all
  have new: "exec_core (ns_exec S0)" "ex_node (ns_exec S0) = n" "hm_get (processes (ns_exec S0)) = (\<lambda>_. None)"
    by (auto simp: S0 executor_new_def exec_core_def)
  have turns: "ns_exec_status S = Running" "ns_exec_rx S = []" "exec_core (ns_exec S)"
    "ex_node (ns_exec S) = n"
    "hm_get (processes (ns_exec S)) = fold (\<lambda>i M. M(ps ! i \<mapsto> replica_at ps i)) [0..<length ps] (\<lambda>_. None)"
    using start_turns [where ks = "[0..<length ps]" and S = S1 and f = "(!) ps" and g = "replica_at ps"
        and e = e and S' = S] S1(2) assms(2) q new
    by simp_all
  then have "chained ps [] ((ns_exec S)\<lparr>ex_tx := []\<rparr>)"
    using assms(3) by (intro spawned_chained) (simp_all add: exec_core_def)
  with turns show ?thesis by (simp add: chain_system_def)
qed

text \<open>The requests are the ones \<open>spawn_replicas\<close> makes through the node's handle.\<close>

lemma spawn_replicas_sends:
  assumes "rx_alive (nd_executor_tx h)"
  shows "spawn_replicas ps h = (Ok (), h\<lparr>nd_executor_tx := (nd_executor_tx h)\<lparr>sent :=
    sent (nd_executor_tx h) @ map (\<lambda>i. Start (ps ! i) (replica_at ps i)) [0..<length ps]\<rparr>\<rparr>)"
proof -
  have "forM ks (\<lambda>i. catchM (node_spawn (ps ! i) (replica_at ps i)) (\<lambda>e. panic ''spawn.unwrap'')) h
    = (Ok () :: (error, unit) result, h\<lparr>nd_executor_tx := (nd_executor_tx h)\<lparr>sent := sent (nd_executor_tx h)
        @ map (\<lambda>i. Start (ps ! i) (replica_at ps i)) ks\<rparr>\<rparr>)" for ks
    using assms
    by (induction ks arbitrary: h) (simp_all add: act_defs node_spawn_def send_executor_result)
  then show ?thesis by (simp add: spawn_replicas_def)
qed

lemma start_turns_possible:
  assumes "runs_replicas (ne_exec e)"
  shows "ns_exec_status S = Running \<Longrightarrow> ns_exec_rx S = map (\<lambda>i. Start (f i) (g i)) ks \<Longrightarrow>
    \<exists>S'. node_steps e S (replicate (length ks) ExecutorTurn) S'"
proof (induction ks arbitrary: S)
  case (Cons k ks)
  let ?S = "executor_turn e (Start (f k) (g k)) S"
  have "proc_init (ne_exec e) p r = Some ([], r)" for p r
    using assms by (simp add: runs_replicas_def process_init_def)
  then have "ns_exec_status ?S = Running" "ns_exec_rx ?S = map (\<lambda>i. Start (f i) (g i)) ks"
    using Cons.prems(2)
    by (simp_all add: executor_turn_def exec_handle_def exec_dispatch_def exec_start_def act_defs)
  from Cons.IH [OF this] obtain S' where "node_steps e ?S (replicate (length ks) ExecutorTurn) S'" by blast
  moreover have "node_step e S ExecutorTurn ?S" using Cons.prems by (intro executor) simp_all
  ultimately show ?case by (auto intro: node_steps.turn)
qed (auto intro: node_steps.none)

lemma requests_possible: "\<exists>S'. node_steps e S (map (\<lambda>i. Request (r i)) ks) S'"
proof (induction ks arbitrary: S)
  case (Cons k ks)
  from Cons [of "request_turn e (r k) S"] show ?case by (auto intro: node_steps.turn request)
qed (auto intro: node_steps.none)

lemma spawn_possible:
  assumes "rouse e n po v w = Ok S0" and "runs_replicas (ne_exec e)"
  shows "\<exists>S. node_steps e S0 (spawn_turns ps) S"
proof -
  obtain S1 where S1: "node_steps e S0 (map (\<lambda>i. Request (ReqSpawn (ps ! i) (replica_at ps i)))
      [0..<length ps]) S1"
    using requests_possible [of e S0 "\<lambda>i. ReqSpawn (ps ! i) (replica_at ps i)" "[0..<length ps]"] by blast
  have "ns_exec_status S0 = Running" "ns_exec_rx S0 = []"
    using assms(1) by (auto simp: rouse_def split: sum.splits result.splits prod.splits)
  with spawn_requests [OF S1] start_turns_possible [OF assms(2), of S1 "(!) ps" "replica_at ps" "[0..<length ps]"]
  obtain S where "node_steps e S1 (replicate (length ps) ExecutorTurn) S" by auto
  with S1 show ?thesis by (auto simp: spawn_turns_def node_steps_append)
qed

section \<open>The replicas of a running node\<close>

definition replica_history :: "(rabble_user_msg, replica, 'c, 'x, 'v, 'w, 'f, 's) node_system
    \<Rightarrow> pid \<Rightarrow> usize list" where
  "replica_history S p = recorded (hm_get (processes (ns_exec S))) p"

lemma chain_prefix:
  assumes "\<And>i. Suc i < length ps \<Longrightarrow> prefix (h (ps ! Suc i)) (h (ps ! i))"
  shows "i \<le> j \<Longrightarrow> j < length ps \<Longrightarrow> prefix (h (ps ! j)) (h (ps ! i))"
proof (induction j rule: dec_induct)
  case (step j)
  then have "prefix (h (ps ! Suc j)) (h (ps ! j))" using assms [of j] by simp
  with step show ?case using prefix_order.trans by fastforce
qed simp

lemma chain_equal:
  assumes "\<And>i. Suc i < length ps \<Longrightarrow> h (ps ! i) = h (ps ! Suc i)"
  shows "i < length ps \<Longrightarrow> h (ps ! i) = h (ps ! 0)"
  using assms by (induction i) auto

text \<open>
  C9: The replicas of a chain stay in step. Once a chain was spawned on a node, in every run of
  the node, in any interleaving of its threads, in which neither requests stop or replace a
  replica nor requests or frames of other nodes bring an operation to a replica behind the head
  (\<open>quiet_steps\<close>), the history of a replica is that of
  its successor followed by the operations on the way between the two: no operation is lost,
  duplicated or overtaken. So the history of a later replica is a prefix of that of an earlier one,
  and when nothing is on the way all histories are equal. Operations for the head may come from
  anywhere, also in frames of other nodes, and nothing is assumed of the codec.
\<close>
theorem replicas_stay_in_step:
  assumes "chain_env e" and "chain_pids ps n" and "rouse e n po v w = Ok S0"
    and "node_steps e S0 (spawn_turns ps) S1" and "quiet_steps e ps S1 ts S"
  shows "(\<forall>i. Suc i < length ps \<longrightarrow> replica_history S (ps ! i)
        = replica_history S (ps ! Suc i) @ in_flight (ps ! Suc i) (ns_exec_rx S))
    \<and> (\<forall>i j. i \<le> j \<longrightarrow> j < length ps \<longrightarrow>
        prefix (replica_history S (ps ! j)) (replica_history S (ps ! i)))
    \<and> ((\<forall>p \<in> set (tl ps). in_flight p (ns_exec_rx S) = []) \<longrightarrow>
        (\<forall>i < length ps. replica_history S (ps ! i) = replica_history S (ps ! 0)))"
proof -
  have "runs_replicas (ne_exec e)" using assms(1) by (simp add: chain_env_def)
  then have "chain_system ps S1" using spawn_chain [OF assms(3) _ assms(2,4)] by blast
  then have "chain_system ps S" by (rule quiet_steps_chained [OF assms(5,1)])
  then have links: "replica_history S (ps ! i)
      = replica_history S (ps ! Suc i) @ in_flight (ps ! Suc i) (ns_exec_rx S)" if "Suc i < length ps" for i
    using that by (auto simp: chain_system_def chained_def in_step_def link_nth replica_history_def)
  have "replica_history S (ps ! i) = replica_history S (ps ! Suc i)"
    if "Suc i < length ps" "\<forall>p \<in> set (tl ps). in_flight p (ns_exec_rx S) = []" for i
  proof -
    have "ps ! Suc i \<in> set (tl ps)" using that(1) by (metis Suc_less_eq2 diff_Suc_1 length_tl nth_mem nth_tl)
    with links [OF that(1)] that(2) show ?thesis by simp
  qed
  moreover have "prefix (replica_history S (ps ! Suc i)) (replica_history S (ps ! i))" if "Suc i < length ps" for i
    using links [OF that] by simp
  ultimately show ?thesis
    using links chain_prefix [of ps "replica_history S"] chain_equal [of ps "replica_history S"] by blast
qed

text \<open>The replicas of the integration test; an operation reaches the head.\<close>

lemma create_replica_pids_chain: "chain_pids (create_replica_pids n) n"
  by (simp add: chain_pids_def create_replica_pids_def executor_pid_def)

lemma sample_chain_env: "chain_env sample_node_env"
  by (simp add: chain_env_def sample_node_env_def runs_replicas_def replica_ext_def process_init_def fun_eq_iff)

theorem replicas_stay_in_step_witness:
  "\<exists>ps env S0 S1 S. ps = create_replica_pids (sample_peer 5)
     \<and> env = envelope_new (hd ps) (local_pid ''c'') (User (Op 4)) (Some (cid_of_pid (local_pid ''c'')))
     \<and> rouse sample_node_env (sample_peer 5) (Inr ()) [] sample_net0 = Ok S0
     \<and> node_steps sample_node_env S0 (spawn_turns ps) S1
     \<and> quiet_steps sample_node_env ps S1 [Request (ReqSend env), ExecutorTurn] S
     \<and> prefix (replica_history S (ps ! 2)) (replica_history S (ps ! 0))"
proof -
  let ?e = sample_node_env and ?ps = "create_replica_pids (sample_peer 5)"
  let ?env = "envelope_new (hd ?ps) (local_pid ''c'') (User (Op 4)) (Some (cid_of_pid (local_pid ''c'')))"
  let ?ts = "[Request (ReqSend ?env), ExecutorTurn] :: (rabble_user_msg, replica, nat) node_turn list"
  obtain S0 where S0: "rouse ?e (sample_peer 5) (Inr ()) [] sample_net0 = Ok S0" using sample_rouse by auto
  have runs: "runs_replicas (ne_exec ?e)" using sample_chain_env by (simp add: chain_env_def)
  obtain S1 where S1: "node_steps ?e S0 (spawn_turns ?ps) S1" using spawn_possible [OF S0 runs] by blast
  note idle = spawn_chain [OF S0 runs create_replica_pids_chain S1]
  let ?S2 = "S1\<lparr>ns_exec_rx := [ExecEnvelope ?env]\<rparr>"
  have "node_step ?e S1 (Request (ReqSend ?env)) ?S2"
    using idle by (simp add: request_turn_iff request_turn_def node_send_def node_new_def empty_chan_def
        send_executor_result)
  moreover have "node_step ?e ?S2 ExecutorTurn (executor_turn ?e (ExecEnvelope ?env) ?S2)"
    by (rule executor [where rest = "[]"]) (simp_all add: idle)
  moreover have "quiet_turn ?ps (Request (ReqSend ?env) :: (rabble_user_msg, replica, nat) node_turn)"
    by (simp add: inner_def create_replica_pids_def)
  ultimately have run: "quiet_steps ?e ?ps S1 ?ts (executor_turn ?e (ExecEnvelope ?env) ?S2)"
    by (auto intro!: quiet_none quiet_more)
  let ?S = "executor_turn ?e (ExecEnvelope ?env) ?S2"
  have "\<forall>i j. i \<le> j \<longrightarrow> j < length ?ps \<longrightarrow> prefix (replica_history ?S (?ps ! j)) (replica_history ?S (?ps ! i))"
    using replicas_stay_in_step [OF sample_chain_env create_replica_pids_chain S0 S1 run] by blast
  moreover have "(0::nat) \<le> 2" "2 < length ?ps" by (simp_all add: create_replica_pids_def)
  ultimately have "prefix (replica_history ?S (?ps ! 2)) (replica_history ?S (?ps ! 0))" by blast
  with S0 S1 run show ?thesis by blast
qed

end
