(* ===== verification/ActorClaims.thy ===== *)
theory ActorClaims
  imports ActorSteps ChainClaims
begin

text \<open>
  Every turn of a node is a run of the actor machine: one turn of the executor on a message, then
  any interleaving of the node's threads and of requests.
\<close>

section \<open>Messages of the executor\<close>

text \<open>With what the machine begins on a message.\<close>

fun first_event :: "('t, 'q, 'c, 'x, 'w) exec_ext \<Rightarrow> ('t, 'q, 'c, 'x, 'w) executor
    \<Rightarrow> ('t, 'q, 'x) executor_msg \<Rightarrow> ('t, 'q, 'x) actor_event" where
  "first_event x s (ExecEnvelope e) = Taken e"
| "first_event x s (Start p q) = Spawned p q"
| "first_event x s (Stop p) = Killed p"
| "first_event x s (RegisterService p tx) = Registered p tx"
| "first_event x s (ExecGetStatus cid) = Reported cid"
| "first_event x s Tick = Fired (fst (wheel_expire x (ex_timer_wheel s)))"
| "first_event x s ExecShutdown = Ended"

text \<open>The machine begins with an event and then does all the jobs it leads to.\<close>

definition handles ::
    "('t, 'q, 'c, 'x, 'w) exec_ext \<Rightarrow> node_id \<Rightarrow> ('t, 'q, 'x) actor_event
      \<Rightarrow> ('t, 'q, 'x, 'w) actors \<Rightarrow> ('t, 'q, 'x) actor_event list \<Rightarrow> ('t, 'q, 'x, 'w) actors \<Rightarrow> bool" where
  "handles x n ev A tr A' \<longleftrightarrow>
     (\<exists>B js. tr = ev # js \<and> actor_begin x n A ev B \<and> actor_jobs x n B js A')"

definition simulated ::
    "('t, 'q, 'c, 'x, 'w) exec_ext \<Rightarrow> node_id \<Rightarrow> (timer_key set \<Rightarrow> 'c \<Rightarrow> bool) \<Rightarrow> ('t, 'q, 'x) executor_msg
      \<Rightarrow> ('t, 'q, 'c, 'x, 'w) executor \<Rightarrow> ('t, 'q, 'c, 'x, 'w) executor \<Rightarrow> bool" where
  "simulated x n R m s s' \<longleftrightarrow> exec_on n s' \<and>
     (\<forall>q cq G. R G (ex_timer_wheel s) \<longrightarrow> (\<exists>tr G'. R G' (ex_timer_wheel s') \<and>
        handles x n (first_event x s m) (actors_of G (m # q) cq s []) tr
          (actors_of G' q cq s' []\<lparr>ac_live := m \<noteq> ExecShutdown\<rparr>)))"

lemma handles_run: "handles x n ev A tr A' \<Longrightarrow> actor_run x n A tr A'"
  unfolding handles_def by (auto intro: move starts jobs_run)

lemma actors_of_call:
  "queued m = [] \<Longrightarrow> actors_of G (m # q) cq s js
    = actors_of G q cq s js\<lparr>ac_calls := m # calls_in (q @ ex_tx s)\<rparr>"
  by (simp add: actors_of_def mailbox_other)

lemma actors_of_live [simp]: "actors_of G q cq s js\<lparr>ac_live := True\<rparr> = actors_of G q cq s js"
  by (simp add: actors_of_def)

text \<open>A message that begins jobs which an action does.\<close>

lemma simulated_jobs:
  assumes "\<And>q cq G. R G (ex_timer_wheel s) \<Longrightarrow> \<exists>G1. R G1 (ex_timer_wheel s1)
      \<and> actor_begin x n (actors_of G (m # q) cq s []) (first_event x s m) (actors_of G1 q cq s1 J)"
    and "m \<noteq> ExecShutdown"
    and "does x n R J act" and "exec_on n s1" and "act s1 = (r, s')" and "\<not> is_panic r"
  shows "simulated x n R m s s'"
  unfolding simulated_def
proof (intro conjI allI impI)
  note d = doesD [OF assms(3-6)]
  show "exec_on n s'" by (rule d(2))
  fix q cq G assume "R G (ex_timer_wheel s)"
  with assms(1) obtain G1 where G1: "R G1 (ex_timer_wheel s1)"
    "actor_begin x n (actors_of G (m # q) cq s []) (first_event x s m) (actors_of G1 q cq s1 J)" by blast
  obtain js G' where "R G' (ex_timer_wheel s')"
    "actor_jobs x n (actors_of G1 q cq s1 (J @ [])) js (actors_of G' q cq s' [])"
    using d(3) [OF G1(1), of q cq "[]"] by blast
  with G1(2) assms(2) show "\<exists>tr G'. R G' (ex_timer_wheel s')
      \<and> handles x n (first_event x s m) (actors_of G (m # q) cq s []) tr
        (actors_of G' q cq s' []\<lparr>ac_live := m \<noteq> ExecShutdown\<rparr>)"
    unfolding handles_def by auto
qed

lemma simulated_plain:
  assumes "\<And>q cq G. actor_begin x n (actors_of G (m # q) cq s []) (first_event x s m) (actors_of G q cq s1 J)"
    and "ex_timer_wheel s1 = ex_timer_wheel s" and "m \<noteq> ExecShutdown"
    and "does x n R J act" and "exec_on n s1" and "act s1 = (r, s')" and "\<not> is_panic r"
  shows "simulated x n R m s s'"
  by (rule simulated_jobs [OF _ assms(3-7)]) (use assms(1,2) in auto)

lemmas simulated_done = simulated_plain [OF _ _ _ does_ret, unfolded ret_def, OF _ _ _ _ refl, simplified]

lemma exec_envelope_simulated:
  assumes x: "timers_sim x R" and s: "exec_on n s"
    and run: "exec_envelope x d e s = (r, s')" "\<not> is_panic r"
  shows "simulated x n R (ExecEnvelope e) s s'"
proof (rule simulated_plain)
  let ?s = "s\<lparr>ex_metrics := (ex_metrics s)\<lparr>received_envelopes := received_envelopes (ex_metrics s) + 1\<rparr>\<rparr>"
  show "route_d x d e ?s = (r, s')" using run(1) by (simp add: exec_envelope_def act_defs)
  show "exec_on n ?s" "\<not> is_panic r" using s run(2) by simp_all
  show "does x n R [Deliver e] (route_d x d e)" by (rule route_d_does [OF x])
  show "actor_begin x n (actors_of G (ExecEnvelope e # q) cq s []) (first_event x s (ExecEnvelope e))
      (actors_of G q cq ?s [Deliver e])" for q cq G
  proof -
    let ?A = "actors_of G (ExecEnvelope e # q) cq s []"
    have "?A\<lparr>ac_mail := (ac_mail ?A)(env_to e := mailbox (q @ ex_tx s) (env_to e)), ac_jobs := [Deliver e]\<rparr>
        = actors_of G q cq ?s [Deliver e]"
      by (auto simp: actors_of_def fun_eq_iff mailbox_def)
    moreover have "ac_mail ?A (env_to e) = e # mailbox (q @ ex_tx s) (env_to e)"
      by (simp add: mailbox_def)
    ultimately show ?thesis using take_letter [of ?A e _ x n] by simp
  qed
qed simp_all

lemma exec_start_simulated:
  assumes x: "timers_sim x R" and s: "exec_on n s"
    and run: "exec_start x d p q s = (r, s')" "\<not> is_panic r"
  shows "simulated x n R (Start p q) s s'"
proof (cases "proc_init x (ex_pid s) q")
  case None
  with run show ?thesis by (auto simp: exec_start_def act_defs)
next
  case (Some res)
  obtain out q' where res: "res = (out, q')" by fastforce
  let ?s = "s\<lparr>processes := hm_insert p q' (processes s)\<rparr>"
  let ?body = "\<lambda>e. withM (\<lambda>s. if env_to e = ex_pid s then handle_executor_envelope x (route_d x d) e
    else route_d x d e)"
  show ?thesis
  proof (rule simulated_plain)
    show "forM out ?body ?s = (r, s')" using run(1) Some res by (simp add: exec_start_def act_defs)
    show "exec_on n ?s" "\<not> is_panic r" using s run(2) by (simp_all add: exec_on_def exec_core_def)
    show "actor_begin x n (actors_of G (Start p q # rest) cq s []) (first_event x s (Start p q))
        (actors_of G rest cq ?s (map Deliver out))" for rest cq G
      using spawn [of "actors_of G (Start p q # rest) cq s []" p q "calls_in (rest @ ex_tx s)" x n out q'] Some res
        exec_on_pid [OF s]
      by (simp add: actors_of_call) (simp add: actors_of_def)
    have "does x n R [Deliver e] (?body e)" for e
    proof (rule does_with)
      fix t :: "('a, 'b, 'c, 'd, 'e) executor" assume t: "exec_on n t"
      then have pid: "ex_pid t = executor_pid n" by (rule exec_on_pid)
      show "does_at x n R [Deliver e] (if env_to e = ex_pid t
          then handle_executor_envelope x (route_d x d) e else route_d x d e) t"
      proof (cases "env_to e = ex_pid t")
        case False
        with does_at [OF route_d_does [OF x] t] show ?thesis by simp
      next
        case True
        have e: "node (env_to e) = n" using True pid by (simp add: executor_pid_def)
        have "actor_job x n (actors_of G q cq t ([Deliver e] @ js)) Internal
            (actors_of G q cq t ([Direct e] @ js))" for q cq js G
          using deliver_direct [of "actors_of G q cq t ([Deliver e] @ js)" e js n x] True pid e
          by (simp add: actors_of_def hosted_def)
        moreover have "actor_job x n (actors_of G q cq t ([Direct e] @ js)) Internal
            (actors_of G q cq t ([Ask e] @ js))" for q cq js G
          using direct_ask [of "actors_of G q cq t ([Direct e] @ js)" e js n x] True pid
          by (simp add: actors_of_def)
        ultimately have "does_at x n R [Deliver e] (handle_executor_envelope x (route_d x d) e) t"
          using does_at [OF handle_executor_envelope_does [OF x route_d_does [OF x]] t]
          by (meson does_at_step)
        with True show ?thesis by simp
      qed
    qed
    then show "does x n R (map Deliver out) (forM out ?body)" by (rule does_for)
  qed simp_all
qed

lemma exec_tick_simulated:
  assumes x: "timers_sim x R" and s: "exec_on n s"
    and run: "exec_tick x d s = (r, s')" "\<not> is_panic r"
  shows "simulated x n R Tick s s'"
proof -
  obtain ks c where e: "wheel_expire x (ex_timer_wheel s) = (ks, c)" by fastforce
  let ?s = "s\<lparr>ex_timer_wheel := c\<rparr>"
  let ?env = "\<lambda>k. envelope_new (fst k) (executor_pid n) Timeout (snd k)"
  let ?body = "\<lambda>(p, cid). withM (\<lambda>s.
      catchM (route_to_process x (route_d x d) (envelope_new p (ex_pid s) Timeout cid)) (\<lambda>_. ret ()))"
  show ?thesis
  proof (rule simulated_jobs)
    show "forM ks ?body ?s = (r, s')" using run(1) e by (simp add: exec_tick_def act_defs)
    show "exec_on n ?s" "\<not> is_panic r" using s run(2) by simp_all
    show "\<exists>G1. R G1 (ex_timer_wheel ?s) \<and> actor_begin x n (actors_of G (Tick # q) cq s [])
        (first_event x s Tick) (actors_of G1 q cq ?s (map (\<lambda>k. Direct (?env k)) ks))"
      if G: "R G (ex_timer_wheel s)" for q cq G
    proof -
      obtain G1 where G1: "set ks \<subseteq> G" "G - set ks \<subseteq> G1" "G1 \<subseteq> G" "R G1 c"
        using timers_simD(4) [OF x G e] by blast
      with fire [of "actors_of G (Tick # q) cq s []" "calls_in (q @ ex_tx s)" ks G1 x n] e
      have "actor_begin x n (actors_of G (Tick # q) cq s []) (first_event x s Tick)
          (actors_of G1 q cq ?s (map (\<lambda>k. Direct (?env k)) ks))"
        by (simp add: actors_of_call) (simp add: actors_of_def)
      with G1(4) show ?thesis by auto
    qed
    have "does x n R [Direct (?env k)] (?body k)" for k
      unfolding case_prod_beta
    proof (rule does_with)
      fix t :: "('a, 'b, 'c, 'd, 'e) executor" assume t: "exec_on n t"
      then have pid: "ex_pid t = executor_pid n" by (rule exec_on_pid)
      let ?rt = "route_to_process x (route_d x d) (?env k)"
      let ?m = "catchM ?rt (\<lambda>_. ret ())"
      note rp = route_to_process_does [where rt = "route_d x d", OF x route_d_does [OF x] t]
      have "does_at x n R [Direct (?env k)] ?m t"
      proof (cases "hosted n (actors_of {} [] [] t []) (fst k)")
        case True
        have d: "does_at x n R [Direct (?env k)] ?rt t" using True by (intro rp(1)) simp
        then have "fst (?rt t) = Ok () \<or> is_panic (fst (?rt t))"
          unfolding does_at_def by (metis prod.collapse)
        then have "?m t = ?rt t" by (auto simp: catchM_def split: prod.splits result.splits)
        with d show ?thesis by (simp add: does_at_def)
      next
        case False
        have lost: "actor_job x n (actors_of G q cq t ([Direct (?env k)] @ js)) (Lost (?env k))
            (actors_of G q cq t js)" for q cq js G
          using direct_lost [of "actors_of G q cq t ([Direct (?env k)] @ js)" "?env k" js n x] False
          by (simp add: hosted_def) (simp add: actors_of_def)
        have "?rt t = (Err (?env k), t) \<or> is_panic (fst (?rt t))"
          using False by (intro rp(2)) simp
        then have "?m t = (Ok (), t) \<or> is_panic (fst (?m t))"
          by (auto simp: catchM_def ret_def split: prod.splits result.splits)
        then show ?thesis
          using does_at_done [OF lost _ t refl] does_panic by blast
      qed
      with pid show "does_at x n R [Direct (?env k)] (catchM (route_to_process x (route_d x d)
          (envelope_new (fst k) (ex_pid t) Timeout (snd k))) (\<lambda>_. ret ())) t"
        by simp
    qed
    then show "does x n R (map (\<lambda>k. Direct (?env k)) ks) (forM ks ?body)" by (rule does_for)
  qed simp
qed

lemma exec_handle_simulated:
  assumes x: "timers_sim x R" and s: "exec_on n s"
    and run: "exec_handle x d m s = (st, s')" "\<And>p. st \<noteq> Crashed p"
  shows "simulated x n R m s s'"
proof -
  obtain r s1 where r: "exec_dispatch x d m s = (r, s1)" by fastforce
  have ok: "m \<noteq> ExecShutdown \<Longrightarrow> \<not> is_panic r \<and> s' = s1"
    using run r by (cases m; cases r) (auto simp: exec_handle_def)
  show ?thesis
  proof (cases m)
    case (ExecEnvelope e)
    with ok r exec_envelope_simulated [OF x s] show ?thesis by (simp add: exec_dispatch_def)
  next
    case (Start p q)
    with ok r exec_start_simulated [OF x s] show ?thesis by (simp add: exec_dispatch_def)
  next
    case (Stop p)
    have "actor_begin x n (actors_of G (Stop p # q) cq s []) (Killed p)
        (actors_of G q cq (s\<lparr>processes := hm_remove p (processes s)\<rparr>) [])" for q cq G
      using kill [of "actors_of G (Stop p # q) cq s []" p _ x n]
      by (simp add: actors_of_call) (simp add: actors_of_def)
    with Stop ok r s show ?thesis
      by (auto simp: exec_dispatch_def exec_stop_def modM_def exec_on_def exec_core_def
          intro!: simulated_done)
  next
    case (RegisterService p tx)
    have "actor_begin x n (actors_of G (RegisterService p tx # q) cq s []) (Registered p tx)
        (actors_of G q cq (s\<lparr>service_senders := hm_insert p tx (service_senders s)\<rparr>) [])" for q cq G
      using register [of "actors_of G (RegisterService p tx # q) cq s []" p tx _ x n]
      by (simp add: actors_of_call) (simp add: actors_of_def)
    with RegisterService ok r s show ?thesis
      by (auto simp: exec_dispatch_def register_service_def modM_def exec_on_def exec_core_def
          intro!: simulated_done)
  next
    case (ExecGetStatus cid)
    let ?st = "\<lparr>total_processes = length (processes s), services = hm_keys (service_senders s)\<rparr>"
    let ?e = "envelope_new (cid_pid cid) (executor_pid n) (ExecutorStatus ?st) (Some cid)"
    have "length (processes s) = card (dom (hm_get (processes s)))"
      using s hm_ok_card [of "processes s"] by (simp add: exec_on_def exec_core_def)
    then have "actor_begin x n (actors_of G (ExecGetStatus cid # q) cq s []) (Reported cid)
        (actors_of G q cq s [Serve ?e])" for q cq G
      using report [of "actors_of G (ExecGetStatus cid # q) cq s []" cid _ ?st x n]
      by (simp add: actors_of_call hm_keys_dom) (simp add: actors_of_def)
    note call = this [folded first_event.simps(5) [of x s]]
    have "route_to_service x ?e s = (r, s1)"
      using r ExecGetStatus exec_on_pid [OF s]
      by (simp add: exec_dispatch_def exec_get_status_def withM_def envelope_new_def)
    from simulated_plain [where s = s, OF call refl _ route_to_service_does s this] ok ExecGetStatus
    show ?thesis by simp
  next
    case Tick
    with ok r exec_tick_simulated [OF x s] show ?thesis by (simp add: exec_dispatch_def)
  next
    case ExecShutdown
    have "actor_begin x n (actors_of G (ExecShutdown # q) cq s []) Ended
        (actors_of G q cq s []\<lparr>ac_live := False\<rparr>)" for q cq G
      using finish [of "actors_of G (ExecShutdown # q) cq s []" _ x n]
      by (simp add: actors_of_call) (simp add: actors_of_def)
    then have "handles x n Ended (actors_of G (ExecShutdown # q) cq s []) [Ended]
        (actors_of G q cq s []\<lparr>ac_live := False\<rparr>)" for q cq G
      unfolding handles_def using jobs_idle by blast
    moreover have "s' = s" using run ExecShutdown by (simp add: exec_handle_def)
    ultimately show ?thesis using s ExecShutdown by (fastforce simp: simulated_def)
  qed
qed

lemma exec_handle_status:
  assumes "exec_handle x d m s = (st, s')" and "\<And>p. st \<noteq> Crashed p"
  shows "(st = Running) = (m \<noteq> ExecShutdown)"
  using assms by (cases m) (auto simp: exec_handle_def split: prod.splits result.splits)

section \<open>Turns of the node\<close>

text \<open>The actors of a node: what is in the channels of its executor and its cluster server counts.\<close>

definition node_actors ::
    "timer_key set \<Rightarrow> ('t, 'q, 'c, 'x, 'v, 'w, 'f, 's) node_system \<Rightarrow> ('t, 'q, 'x, 'v) actors" where
  "node_actors G S = actors_of G (ns_exec_rx S) (ns_cluster_rx S)
     ((ns_exec S)\<lparr>ex_tx := [], cluster_tx := empty_chan True\<rparr>) []\<lparr>ac_live := ns_exec_status S = Running\<rparr>"

lemma node_actors_def':
  "node_actors G S = \<lparr>ac_state = hm_get (processes (ns_exec S)), ac_mail = mailbox (ns_exec_rx S),
     ac_calls = calls_in (ns_exec_rx S), ac_services = hm_get (service_senders (ns_exec S)),
     ac_world = ex_world (ns_exec S), ac_timers = G, ac_live = (ns_exec_status S = Running),
     ac_outbox = concat (map outgoing (ns_cluster_rx S)), ac_jobs = []\<rparr>"
  by (simp add: node_actors_def actors_of_def empty_chan_def)

text \<open>A message that joins the executor's queue arrives as a letter or as a call.\<close>

fun arrival :: "('t, 'q, 'x) executor_msg \<Rightarrow> ('t, 'q, 'x) actor_event" where
  "arrival (ExecEnvelope e) = Incoming e"
| "arrival m = Asked m"

lemma arrival_step:
  "actor_step x n A (arrival m)
     (A\<lparr>ac_mail := \<lambda>p. ac_mail A p @ mailbox [m] p, ac_calls := ac_calls A @ calls_in [m]\<rparr>)"
proof (cases "queued m")
  case Nil
  then have "arrival m = Asked m" "mailbox [m] = (\<lambda>_. [])"
    by (cases m; simp add: mailbox_def fun_eq_iff)+
  with asked [OF Nil, of x n A] Nil show ?thesis by simp
next
  case (Cons e es)
  then have m: "m = ExecEnvelope e" by (cases m) auto
  have "post e A = A\<lparr>ac_mail := \<lambda>p. ac_mail A p @ mailbox [m] p\<rparr>"
    by (auto simp: post_def m fun_eq_iff mailbox_envelope intro!: actors.fold_congs)
  with arrives [of x n A e] m show ?thesis by simp
qed

lemma arrivals:
  "actor_run x n (A\<lparr>ac_mail := mailbox q, ac_calls := calls_in q\<rparr>) (map arrival ms)
     (A\<lparr>ac_mail := mailbox (q @ ms), ac_calls := calls_in (q @ ms)\<rparr>)"
proof (induction ms arbitrary: q)
  case Nil
  show ?case by (simp add: run_idle)
next
  case (Cons m ms)
  have "mailbox (q @ [m]) = (\<lambda>p. mailbox q p @ mailbox [m] p)" by (simp add: fun_eq_iff)
  then have "actor_step x n (A\<lparr>ac_mail := mailbox q, ac_calls := calls_in q\<rparr>) (arrival m)
      (A\<lparr>ac_mail := mailbox (q @ [m]), ac_calls := calls_in (q @ [m])\<rparr>)"
    using arrival_step [of x n "A\<lparr>ac_mail := mailbox q, ac_calls := calls_in q\<rparr>" m] by (simp split: if_splits)
  from move [OF this Cons.IH] show ?case by simp
qed

lemma executor_turn_simulated:
  assumes "timers_sim (ne_exec e) R" and "exec_on n (ns_exec S)" and "ns_exec_rx S = m # rest"
    and "ns_exec_status S = Running" and "\<And>p. ns_exec_status (executor_turn e m S) \<noteq> Crashed p"
  shows "exec_on n (ns_exec (executor_turn e m S))"
    and "R G (ex_timer_wheel (ns_exec S)) \<Longrightarrow> \<exists>tr G'. R G' (ex_timer_wheel (ns_exec (executor_turn e m S)))
      \<and> handles (ne_exec e) n (first_event (ne_exec e) (ns_exec S) m) (node_actors G S) tr
          (node_actors G' (executor_turn e m S))"
proof -
  let ?s = "(ns_exec S)\<lparr>ex_tx := [], cluster_tx := empty_chan (ns_cluster_status S = Running)\<rparr>"
  obtain st ex where ex: "exec_handle (ne_exec e) (ne_depth e) m ?s = (st, ex)" by fastforce
  let ?T = "executor_turn e m S"
  have T: "?T = S\<lparr>ns_exec := ex, ns_exec_status := st, ns_exec_rx := rest @ ex_tx ex,
      ns_cluster_rx := ns_cluster_rx S @ sent (cluster_tx ex)\<rparr>"
    using ex assms(3) by (simp add: executor_turn_def)
  have nc: "st \<noteq> Crashed p" for p using assms(5) [of p] T by simp
  have st: "(st = Running) = (m \<noteq> ExecShutdown)" using exec_handle_status [OF ex nc] .
  have sim: "simulated (ne_exec e) n R m ?s ex"
    using exec_handle_simulated [OF assms(1) _ ex nc] assms(2) by simp
  then show "exec_on n (ns_exec ?T)" by (simp add: simulated_def T)
  assume "R G (ex_timer_wheel (ns_exec S))"
  with sim obtain tr G' where tr: "R G' (ex_timer_wheel ex)"
    "handles (ne_exec e) n (first_event (ne_exec e) ?s m) (actors_of G (m # rest) (ns_cluster_rx S) ?s []) tr
       (actors_of G' rest (ns_cluster_rx S) ex []\<lparr>ac_live := m \<noteq> ExecShutdown\<rparr>)"
    unfolding simulated_def by fastforce
  have "actors_of G (m # rest) (ns_cluster_rx S) ?s [] = node_actors G S"
    by (simp add: node_actors_def' actors_of_def assms(3,4) empty_chan_def)
  moreover have "actors_of G' rest (ns_cluster_rx S) ex []\<lparr>ac_live := m \<noteq> ExecShutdown\<rparr> = node_actors G' ?T"
    by (simp add: T node_actors_def' actors_of_def st)
  moreover have "first_event (ne_exec e) ?s m = first_event (ne_exec e) (ns_exec S) m" by (cases m) simp_all
  ultimately show "\<exists>tr G'. R G' (ex_timer_wheel (ns_exec ?T))
      \<and> handles (ne_exec e) n (first_event (ne_exec e) (ns_exec S) m) (node_actors G S) tr (node_actors G' ?T)"
    using tr T by auto
qed

text \<open>
  What the cluster server passes on are ticks, its own replies and what other nodes wrote.
\<close>

definition brought :: "('t, 'w, 'f, 's, 'd, 'k) cluster_env \<Rightarrow> pid \<Rightarrow> ('t, 'q, 'x) executor_msg \<Rightarrow> bool" where
  "brought x p m \<longleftrightarrow> m = Tick \<or> (\<exists>env. m = ExecEnvelope env
     \<and> (env_from env = p \<or> (\<exists>b. arriving x b \<and> msg_decode x b = Some (RemoteEnvelope env))))"

text \<open>What a request asks of the executor.\<close>

fun request_msgs :: "('t, 'q, 'c, 'x, 'v, 'w, 'f, 's, 'd, 'k) node_env \<Rightarrow> ('t, 'q, 'x) node_request
    \<Rightarrow> ('t, 'q, 'x) executor_msg list" where
  "request_msgs e (ReqSend env) = [ExecEnvelope env]"
| "request_msgs e (ReqSpawn p q) = [Start p q]"
| "request_msgs e (ReqStop p) = [Stop p]"
| "request_msgs e (ReqRegister p tx) =
     (case ne_clone e tx of Inl er \<Rightarrow> [] | Inr tx' \<Rightarrow> [RegisterService p tx'])"
| "request_msgs e (ReqExecutorStatus cid) = [ExecGetStatus cid]"
| "request_msgs e ReqShutdown = [ExecShutdown]"
| "request_msgs e r = []"

text \<open>
  The events of a turn: the executor handles the oldest message of its queue and nothing else, the
  cluster server takes one message away and brings some, the poller does nothing to actors, and
  a request is at most one letter or one call.
\<close>

fun acts :: "('t, 'q, 'c, 'x, 'v, 'w, 'f, 's, 'd, 'k) node_env \<Rightarrow> node_id \<Rightarrow> ('t, 'q, 'x) node_turn
    \<Rightarrow> timer_key set \<Rightarrow> ('t, 'q, 'c, 'x, 'v, 'w, 'f, 's) node_system \<Rightarrow> ('t, 'q, 'x) actor_event list
    \<Rightarrow> timer_key set \<Rightarrow> ('t, 'q, 'c, 'x, 'v, 'w, 'f, 's) node_system \<Rightarrow> bool" where
  "acts e n ExecutorTurn G S tr G' S' \<longleftrightarrow> (\<exists>m rest. ns_exec_rx S = m # rest
     \<and> handles (ne_exec e) n (first_event (ne_exec e) (ns_exec S) m) (node_actors G S) tr (node_actors G' S'))"
| "acts e n ClusterTurn G S tr G' S' \<longleftrightarrow> (\<exists>m rest ms. ns_cluster_rx S = m # rest
     \<and> ns_exec_rx S' = ns_exec_rx S @ ms
     \<and> list_all (brought (ne_cluster e) (cs_pid (ns_cluster S))) ms
     \<and> tr = map Carried (outgoing m) @ map arrival ms
     \<and> G' = G \<and> actor_run (ne_exec e) n (node_actors G S) tr (node_actors G S'))"
| "acts e n (PollerTurn ns) G S tr G' S' \<longleftrightarrow> tr = [] \<and> G' = G \<and> node_actors G S' = node_actors G S"
| "acts e n (Request r) G S tr G' S' \<longleftrightarrow>
     tr = map arrival (if ns_exec_status S = Running then request_msgs e r else [])
     \<and> G' = G \<and> actor_run (ne_exec e) n (node_actors G S) tr (node_actors G S')"

lemma acts_run: "acts e n t G S tr G' S' \<Longrightarrow> actor_run (ne_exec e) n (node_actors G S) tr (node_actors G' S')"
  by (cases t) (auto dest: handles_run intro: run_idle)

lemma cluster_turn_simulated:
  assumes "ns_cluster_rx S = m # rest"
  shows "acts e n ClusterTurn G S (map Carried (outgoing m) @ map arrival
      (drop (length (ns_exec_rx S)) (ns_exec_rx (cluster_turn e m S)))) G (cluster_turn e m S)"
proof -
  let ?s = "(ns_cluster S)\<lparr>executor_tx := empty_chan (ns_exec_status S = Running)\<rparr>" and ?x = "ne_exec e"
    and ?p = "cs_pid (ns_cluster S)" and ?T = "cluster_turn e m S" and ?A = "node_actors G S"
  obtain st c where c: "cluster_handle (ne_cluster e) m ?s = (st, c)" by fastforce
  let ?Q = "brought (ne_cluster e) ?p" and ?ms = "sent (executor_tx c)"
    and ?B = "?A\<lparr>ac_outbox := concat (map outgoing rest)\<rparr>"
  have "peers_send (ne_cluster e) (\<lambda>env. ?Q (ExecEnvelope env))"
    unfolding peers_send_def brought_def by blast
  moreover have "reply_ok (\<lambda>env. ?Q (ExecEnvelope env)) ?p m"
    by (cases m) (simp_all add: brought_def envelope_new_def)
  ultimately have ms: "list_all ?Q ?ms"
    using sends_handle [OF _ _ _ _ c, of ?Q ?p] by (simp add: sends_def empty_chan_def brought_def)
  have rx: "ns_exec_rx ?T = ns_exec_rx S @ ?ms" using c by (simp add: cluster_turn_def)
  have out: "ac_outbox ?A = outgoing m @ concat (map outgoing rest)"
    using assms by (simp add: node_actors_def')
  have "actor_run ?x n ?A (map Carried (outgoing m)) ?B"
  proof (cases "outgoing m")
    case Nil
    then have "?A = ?B" by (simp add: node_actors_def' assms)
    with Nil run_idle [of ?x n ?A] show ?thesis by simp
  next
    case (Cons env es)
    then have "es = []" by (cases m) auto
    with Cons run1 [OF carry [of ?A env "concat (map outgoing rest)"]] out show ?thesis by simp
  qed
  moreover have "actor_run ?x n ?B (map arrival ?ms) (node_actors G ?T)"
  proof -
    have "node_actors G ?T
        = ?B\<lparr>ac_mail := mailbox (ns_exec_rx S @ ?ms), ac_calls := calls_in (ns_exec_rx S @ ?ms)\<rparr>"
      "?B = ?B\<lparr>ac_mail := mailbox (ns_exec_rx S), ac_calls := calls_in (ns_exec_rx S)\<rparr>"
      using c assms by (simp_all add: cluster_turn_def node_actors_def')
    with arrivals [where A = ?B and x = ?x and n = n] show ?thesis by metis
  qed
  ultimately have "actor_run ?x n ?A (map Carried (outgoing m) @ map arrival ?ms) (node_actors G ?T)"
    by (rule runs_append)
  with assms rx ms show ?thesis by simp
qed

lemma request_turn_simulated:
  "acts e n (Request r) G S (map arrival (if ns_exec_status S = Running then request_msgs e r else [])) G
     (request_turn e r S)"
proof -
  let ?n = "snd (request_action e r (node_new (ns_id S)
    (empty_chan (ns_exec_status S = Running)) (empty_chan (ns_cluster_status S = Running))))"
  let ?ms = "if ns_exec_status S = Running then request_msgs e r else []"
  have "(\<forall>m \<in> set (sent (nd_cluster_tx ?n)). outgoing m = []) \<and> sent (nd_executor_tx ?n) = ?ms"
    by (cases r)
       (auto simp: node_requests node_shutdown_def node_new_def send_executor_result
          send_cluster_result empty_chan_def act_defs split: sum.splits)
  then have "concat (map outgoing (sent (nd_cluster_tx ?n))) = []" "sent (nd_executor_tx ?n) = ?ms"
    by (simp_all add: concat_eq_Nil_conv)
  then have "node_actors G (request_turn e r S)
      = (node_actors G S)\<lparr>ac_mail := mailbox (ns_exec_rx S @ ?ms), ac_calls := calls_in (ns_exec_rx S @ ?ms)\<rparr>"
    "node_actors G S = (node_actors G S)\<lparr>ac_mail := mailbox (ns_exec_rx S), ac_calls := calls_in (ns_exec_rx S)\<rparr>"
    by (simp_all add: request_turn_def node_actors_def' Let_def)
  with arrivals [where A = "node_actors G S" and x = "ne_exec e" and n = n] show ?thesis by (metis acts.simps(4))
qed

text \<open>A run of the node, with the events of each turn.\<close>

inductive acts_along :: "('t, 'q, 'c, 'x, 'v, 'w, 'f, 's, 'd, 'k) node_env \<Rightarrow> node_id \<Rightarrow> timer_key set
    \<Rightarrow> ('t, 'q, 'c, 'x, 'v, 'w, 'f, 's) node_system \<Rightarrow> ('t, 'q, 'x) node_turn list
    \<Rightarrow> ('t, 'q, 'x) actor_event list list \<Rightarrow> timer_key set
    \<Rightarrow> ('t, 'q, 'c, 'x, 'v, 'w, 'f, 's) node_system \<Rightarrow> bool" for e n where
  rest: "acts_along e n G S [] [] G S"
| act: "node_step e S t S1 \<Longrightarrow> acts e n t G S tr G1 S1 \<Longrightarrow> acts_along e n G1 S1 ts trs G' S' \<Longrightarrow>
    acts_along e n G S (t # ts) (tr # trs) G' S'"

lemma acts_along_run:
  "acts_along e n G S ts trs G' S' \<Longrightarrow>
    actor_run (ne_exec e) n (node_actors G S) (concat trs) (node_actors G' S')"
  by (induction rule: acts_along.induct) (auto intro: run_idle runs_append dest: acts_run)

lemma node_step_simulated:
  assumes "timers_sim (ne_exec e) R" and "exec_on n (ns_exec S)" and "node_step e S t S'"
    and "\<And>p. ns_exec_status S' \<noteq> Crashed p"
  shows "exec_on n (ns_exec S')"
    and "R G (ex_timer_wheel (ns_exec S)) \<Longrightarrow>
      \<exists>tr G'. R G' (ex_timer_wheel (ns_exec S')) \<and> acts e n t G S tr G' S'"
proof -
  have "exec_on n (ns_exec S') \<and> (R G (ex_timer_wheel (ns_exec S)) \<longrightarrow>
      (\<exists>tr G'. R G' (ex_timer_wheel (ns_exec S')) \<and> acts e n t G S tr G' S'))"
    using assms(3)
  proof cases
    case (executor m rest)
    with executor_turn_simulated [OF assms(1,2) executor(4,3)] assms(4) show ?thesis by simp
  next
    case (cluster m rest)
    from cluster_turn_simulated [OF cluster(4), of e n G] cluster(1,2) assms(2) show ?thesis
      by (metis turns_exec(3))
  next
    case (poller ns)
    have "node_actors G (poller_turn ns S) = node_actors G S"
      by (simp add: poller_turn_def node_actors_def')
    with poller assms(2) show ?thesis by auto
  next
    case (request r)
    from request_turn_simulated [of e n r G S] request assms(2) show ?thesis
      by (metis turns_exec(1))
  qed
  then show "exec_on n (ns_exec S')" "R G (ex_timer_wheel (ns_exec S)) \<Longrightarrow>
      \<exists>tr G'. R G' (ex_timer_wheel (ns_exec S')) \<and> acts e n t G S tr G' S'"
    by blast+
qed

lemma crashed_stays: "node_steps e S ts S' \<Longrightarrow> ns_exec_status S = Crashed p \<Longrightarrow> ns_exec_status S' = Crashed p"
proof (induction rule: node_steps.induct)
  case (turn S t S' ts S'')
  from turn.hyps(1) turn.prems have "ns_exec_status S' = Crashed p" by cases auto
  with turn.IH show ?case by blast
qed

lemma node_steps_simulated:
  assumes "node_steps e S ts S'" and "timers_sim (ne_exec e) R" and "\<And>p. ns_exec_status S' \<noteq> Crashed p"
    and "exec_on n (ns_exec S)" and "R G (ex_timer_wheel (ns_exec S))"
  shows "\<exists>trs G'. acts_along e n G S ts trs G' S' \<and> R G' (ex_timer_wheel (ns_exec S'))"
  using assms(1,3-5)
proof (induction arbitrary: G rule: node_steps.induct)
  case none
  then show ?case using rest by blast
next
  case (turn S t S' ts S'')
  have "ns_exec_status S' \<noteq> Crashed p" for p using crashed_stays [OF turn.hyps(2)] turn.prems(1) by blast
  note step = node_step_simulated [OF assms(2) turn.prems(2) turn.hyps(1) this]
  obtain tr G1 where 1: "R G1 (ex_timer_wheel (ns_exec S'))" "acts e n t G S tr G1 S'"
    using step(2) [OF turn.prems(3)] by blast
  from turn.IH [OF turn.prems(1) step(1) 1(1)] act [OF turn.hyps(1) 1(2)] show ?case by blast
qed

section \<open>The node as a system of actors\<close>

definition no_actors :: "'w \<Rightarrow> ('t, 'q, 'x, 'w) actors" where
  "no_actors w = \<lparr>ac_state = \<lambda>_. None, ac_mail = \<lambda>_. [], ac_calls = [], ac_services = \<lambda>_. None,
     ac_world = w, ac_timers = {}, ac_live = True, ac_outbox = [], ac_jobs = []\<rparr>"

text \<open>
  C4: A node is a system of actors. Whatever the node's threads and the requests to it do, in any
  interleaving and as long as the executor does not panic, every turn is a run of the actor
  machine between the node's actors before and after it, and \<open>acts\<close> says which: a turn of the
  executor takes the oldest message of its queue, once, and does all that handling it leads to, a
  turn of the cluster server brings ticks, its own replies and what other nodes sent, and a request
  adds exactly the letter or the call that was asked for. Together they are one run from no actors:
  every process takes the letters posted to it in the order they were posted, each of them
  once, calls are answered in the order they came, what processes send to other nodes reaches the
  cluster server in order, and a timeout only strikes a timer that was started and not cancelled since. The timer wheel is a
  parameter; \<open>R\<close> relates its contents to the timers started, and with an equation for \<open>R\<close> the
  timers are exactly those.
\<close>
theorem node_refines_actors:
  assumes "timers_sim (ne_exec e) R" and "rouse e n po v w = Ok S0" and "node_steps e S0 ts S"
    and "\<forall>p. ns_exec_status S \<noteq> Crashed p"
  shows "\<exists>trs G. acts_along e n {} S0 ts trs G S \<and> R G (ex_timer_wheel (ns_exec S))
    \<and> node_actors {} S0 = no_actors v
    \<and> actor_run (ne_exec e) n (no_actors v) (concat trs) (node_actors G S)
    \<and> in_order (no_actors v) (concat trs) (node_actors G S) \<and> timely {} (concat trs)"
proof -
  have S0: "ns_exec S0 = executor_new (ne_exec e) n (empty_chan True) v" "ns_exec_rx S0 = []"
    "ns_cluster_rx S0 = []" "ns_exec_status S0 = Running"
    using assms(2) by (auto simp: rouse_def split: sum.splits result.splits prod.splits)
  then have none: "node_actors {} S0 = no_actors v"
    by (simp add: node_actors_def' no_actors_def executor_new_def mailbox_def fun_eq_iff)
  have "exec_on n (ns_exec S0)" "R {} (ex_timer_wheel (ns_exec S0))"
    using timers_simD(1) [OF assms(1)] by (simp_all add: S0 executor_new_def exec_on_def exec_core_def)
  with node_steps_simulated [OF assms(3,1)] assms(4) obtain trs G where
    G: "acts_along e n {} S0 ts trs G S" "R G (ex_timer_wheel (ns_exec S))" by metis
  from acts_along_run [OF G(1)] have run: "actor_run (ne_exec e) n (no_actors v) (concat trs) (node_actors G S)"
    by (simp add: none)
  with G none actor_run_in_order [OF run] actor_run_timely [OF run] show ?thesis
    by (auto simp: no_actors_def)
qed

text \<open>A replica is spawned, handed an operation and answers: the answer waits for the client.\<close>

lemma sample_timers_exact: "timers_exact replica_ext sample_timers"
  using replica_timers_ok by (auto simp: timers_exact_def replica_ext_def sample_timers_def)

lemma sample_timers_sim: "timers_sim replica_ext (\<lambda>G c. sample_timers c = G)"
  by (auto simp: timers_sim_def replica_ext_def sample_timers_def)

definition actor_pid :: "string \<Rightarrow> pid" where
  "actor_pid s = \<lparr>group = None, pname = s, node = sample_peer 5\<rparr>"

definition actor_op :: "rabble_user_msg envelope" where
  "actor_op = envelope_new (actor_pid ''r'') (actor_pid ''c'') (User (Op 4)) (Some (cid_of_pid (actor_pid ''c'')))"

theorem node_refines_actors_witness:
  "\<exists>S0 S trs G. rouse sample_node_env (sample_peer 5) (Inr ()) [] sample_net0 = Ok S0
     \<and> node_steps sample_node_env S0
         [Request (ReqSpawn (actor_pid ''r'') (replica_new (actor_pid ''r'') None)), ExecutorTurn,
          Request (ReqSend actor_op), ExecutorTurn] S
     \<and> acts_along sample_node_env (sample_peer 5) {} S0
         [Request (ReqSpawn (actor_pid ''r'') (replica_new (actor_pid ''r'') None)), ExecutorTurn,
          Request (ReqSend actor_op), ExecutorTurn] trs G S
     \<and> G = sample_timers (ex_timer_wheel (ns_exec S))
     \<and> ac_mail (node_actors G S) (actor_pid ''c'')
         = [envelope_new (actor_pid ''c'') (actor_pid ''r'') (User OpComplete) (env_cid actor_op)]
     \<and> concat (map (posted_to (actor_pid ''r'')) (concat trs))
         = concat (map (taken_by (actor_pid ''r'')) (concat trs))"
proof -
  let ?e = sample_node_env
  let ?m1 = "Start (actor_pid ''r'') (replica_new (actor_pid ''r'') None)" and ?m2 = "ExecEnvelope actor_op"
  let ?reply = "envelope_new (actor_pid ''c'') (actor_pid ''r'') (User OpComplete) (env_cid actor_op)"
  obtain S0 where r: "rouse ?e (sample_peer 5) (Inr ()) [] sample_net0 = Ok S0"
    and S0: "ns_exec_status S0 = Running" "ns_cluster_status S0 = Running" "ns_exec_rx S0 = []"
    using sample_rouse by auto
  have ex0: "ns_exec S0 = executor_new replica_ext (sample_peer 5) (empty_chan True) []"
    using r by (auto simp: rouse_def sample_node_env_def split: sum.splits result.splits prod.splits)
  let ?S1 = "S0\<lparr>ns_exec_rx := [?m1]\<rparr>"
  let ?S2 = "executor_turn ?e ?m1 ?S1"
  let ?S3 = "?S2\<lparr>ns_exec_rx := [?m2]\<rparr>"
  let ?S4 = "executor_turn ?e ?m2 ?S3"
  note pids = actor_pid_def actor_op_def executor_pid_def cid_of_pid_def replica_new_def
  have S2: "ns_exec_status ?S2 = Running" "ns_cluster_status ?S2 = Running" "ns_exec_rx ?S2 = []"
    "processes (ns_exec ?S2) = [(actor_pid ''r'', replica_new (actor_pid ''r'') None)]"
    "ex_pid (ns_exec ?S2) = executor_pid (sample_peer 5)" "ex_node (ns_exec ?S2) = sample_peer 5"
    "envelopes (ns_exec ?S2) = []"
    using S0 by (simp_all add: executor_turn_def exec_handle_def exec_dispatch_def exec_start_def
        sample_node_env_def replica_ext_def empty_chan_def act_defs ex0 executor_new_def hm_insert_def)
  have S4: "ns_exec_status ?S4 = Running" "ns_exec_rx ?S4 = [ExecEnvelope ?reply]"
    using S2(2,4-7)
    by (simp_all add: executor_turn_def exec_handle_def exec_dispatch_def exec_envelope_def route_def
        route_to_process_def run_process_def route_output_def sample_node_env_def replica_ext_def
        replica_handle_def eval_nat_numeral act_defs Let_def pids)
  have "node_step ?e S0 (Request (ReqSpawn (actor_pid ''r'') (replica_new (actor_pid ''r'') None))) ?S1"
    using S0 by (simp add: request_turn_iff request_turn_def node_spawn_def node_new_def empty_chan_def
        send_executor_result)
  moreover have "node_step ?e ?S1 ExecutorTurn ?S2" by (rule executor) (simp_all add: S0)
  moreover have "node_step ?e ?S2 (Request (ReqSend actor_op)) ?S3"
    using S2(1-3) by (simp add: request_turn_iff request_turn_def node_send_def node_new_def empty_chan_def
        send_executor_result)
  moreover have "node_step ?e ?S3 ExecutorTurn ?S4" by (rule executor) (simp_all add: S2(1))
  ultimately have run: "node_steps ?e S0
      [Request (ReqSpawn (actor_pid ''r'') (replica_new (actor_pid ''r'') None)), ExecutorTurn,
       Request (ReqSend actor_op), ExecutorTurn] ?S4"
    by (meson node_steps.none node_steps.turn)
  have "timers_sim (ne_exec ?e) (\<lambda>G c. sample_timers c = G)"
    using sample_timers_sim by (simp add: sample_node_env_def)
  from node_refines_actors [OF this r run] S4(1) obtain trs G where
    trs: "acts_along ?e (sample_peer 5) {} S0 [Request (ReqSpawn (actor_pid ''r'') (replica_new (actor_pid ''r'') None)),
        ExecutorTurn, Request (ReqSend actor_op), ExecutorTurn] trs G ?S4"
      "sample_timers (ex_timer_wheel (ns_exec ?S4)) = G" "in_order (no_actors []) (concat trs) (node_actors G ?S4)"
    by auto
  have mail: "ac_mail (node_actors G ?S4)
      = mailbox [ExecEnvelope ?reply :: (rabble_user_msg, replica, nat) executor_msg]"
    using S4(2) by (simp add: node_actors_def')
  have c: "ac_mail (node_actors G ?S4) (actor_pid ''c'') = [?reply]"
    "ac_mail (node_actors G ?S4) (actor_pid ''r'') = []"
    unfolding mail by (simp_all add: mailbox_envelope actor_pid_def)
  have "ac_mail (no_actors [] :: (_, _, _, (nat \<times> rabble_user_msg envelope) list) actors) p = []" for p
    by (simp add: no_actors_def)
  with trs(3) c(2) have "concat (map (posted_to (actor_pid ''r'')) (concat trs))
      = concat (map (taken_by (actor_pid ''r'')) (concat trs))"
    unfolding in_order_def by (metis append_Nil append_Nil2)
  with r run trs(1,2) c(1) show ?thesis by blast
qed

end
