(* ===== verification/ChainActors.thy ===== *)
theory ChainActors
  imports ActorClaims
begin

text \<open>
  A chain of replicas spread over nodes, seen from one of them as a machine of actors. For a
  replica \<open>p\<close> and its successor \<open>t\<close>, what \<open>p\<close> has recorded is what \<open>t\<close> has, followed by the
  operations between the two; at node \<open>n\<close> these are in the jobs, the mailbox of \<open>t\<close> or the
  letters on their way out. What the other nodes hold does not change while \<open>n\<close> works.
\<close>

section \<open>Operations among letters\<close>

definition op_in :: "pid \<Rightarrow> rabble_user_msg envelope \<Rightarrow> usize list" where
  "op_in t e = (if env_to e = t then (case env_msg e of User (Op v) \<Rightarrow> [v] | _ \<Rightarrow> []) else [])"

definition ops_to :: "pid \<Rightarrow> rabble_user_msg envelope list \<Rightarrow> usize list" where
  "ops_to t es = concat (map (op_in t) es)"

lemma ops_to_simps [simp]:
  "ops_to t [] = []" "ops_to t (e # es) = op_in t e @ ops_to t es"
  "ops_to t (es @ es') = ops_to t es @ ops_to t es'"
  by (simp_all add: ops_to_def)

lemma op_in_outer [simp]: "t \<in> set (tl ps) \<Longrightarrow> \<not> inner ps e \<Longrightarrow> op_in t e = []"
  by (auto simp: op_in_def inner_def split: msg.splits rabble_user_msg.splits)

lemma op_in_other: "env_to e \<noteq> t \<Longrightarrow> op_in t e = []"
  by (simp add: op_in_def)

lemma concat_nil [simp]: "concat (map (\<lambda>x. []) xs) = []"
  by (induction xs) simp_all

lemma ops_to_none: "t \<in> set (tl ps) \<Longrightarrow> \<forall>e \<in> set es. \<not> inner ps e \<Longrightarrow> ops_to t es = []"
  by (induction es) auto

fun coming :: "'t job \<Rightarrow> 't envelope list" where
  "coming (Deliver e) = [e]"
| "coming (Direct e) = [e]"
| "coming _ = []"

fun leaving :: "'t job \<Rightarrow> 't envelope list" where
  "leaving (Emit e) = [e]"
| "leaving _ = []"

definition pre :: "pid \<Rightarrow> rabble_user_msg job list \<Rightarrow> usize list" where
  "pre t js = ops_to t (concat (map coming js))"

definition out_of :: "pid \<Rightarrow> rabble_user_msg job list \<Rightarrow> usize list" where
  "out_of t js = ops_to t (concat (map leaving js))"

section \<open>The invariant at one node\<close>

definition spread_pids :: "pid list \<Rightarrow> bool" where
  "spread_pids ps \<longleftrightarrow> distinct ps
     \<and> (\<forall>p \<in> set ps. p \<noteq> executor_pid (node p) \<and> pname p \<noteq> ''cluster_server'')"

text \<open>The replicas of the node, each linked to its successor wherever that is.\<close>

definition wired_on :: "node_id \<Rightarrow> pid list \<Rightarrow> (pid \<Rightarrow> replica option) \<Rightarrow> bool" where
  "wired_on n ps M \<longleftrightarrow> (\<forall>p \<in> set ps. M p \<noteq> None \<longleftrightarrow> node p = n)
     \<and> (\<forall>p r. M p = Some r \<longrightarrow> (\<forall>t. link ps p t \<longrightarrow> r_next r = Some t)
          \<and> (\<forall>t. r_next r = Some t \<longrightarrow> p \<in> set ps \<or> t \<in> set (tl ps) \<longrightarrow> link ps p t))"

text \<open>Only the first job may be about an operation of the chain.\<close>

definition tame :: "pid list \<Rightarrow> rabble_user_msg job list \<Rightarrow> bool" where
  "tame ps js \<longleftrightarrow> (\<forall>j \<in> set (tl js). \<forall>e \<in> set (coming j @ leaving j). \<not> inner ps e)"

text \<open>Operations for replicas of this node come in, those for others go out.\<close>

definition sorted_mail :: "node_id \<Rightarrow> pid list \<Rightarrow> (rabble_user_msg, replica, 'x, 'v) actors \<Rightarrow> bool" where
  "sorted_mail n ps A \<longleftrightarrow> (\<forall>t \<in> set (tl ps).
     if node t = n then ops_to t (ac_outbox A) = []
     else ops_to t (ac_mail A t) = [] \<and> pre t (ac_jobs A) = [])"

definition noted :: "node_id \<Rightarrow> (pid \<Rightarrow> replica option) \<Rightarrow> (pid \<Rightarrow> usize list) \<Rightarrow> pid \<Rightarrow> pid \<Rightarrow> usize list" where
  "noted n M f p t = (if node p = n then recorded M p else f t)"

definition ledger :: "node_id \<Rightarrow> pid list \<Rightarrow> (pid \<Rightarrow> usize list) \<Rightarrow> (pid \<Rightarrow> usize list)
    \<Rightarrow> (rabble_user_msg, replica, 'x, 'v) actors \<Rightarrow> bool" where
  "ledger n ps src dst A \<longleftrightarrow> (\<forall>p t. link ps p t \<longrightarrow>
     noted n (ac_state A) src p t = noted n (ac_state A) dst t t
       @ pre t (ac_jobs A) @ ops_to t (ac_mail A t) @ ops_to t (ac_outbox A) @ out_of t (ac_jobs A))"

definition chain_at :: "node_id \<Rightarrow> pid list \<Rightarrow> (pid \<Rightarrow> usize list) \<Rightarrow> (pid \<Rightarrow> usize list)
    \<Rightarrow> (rabble_user_msg, replica, 'x, 'v) actors \<Rightarrow> bool" where
  "chain_at n ps src dst A \<longleftrightarrow> wired_on n ps (ac_state A) \<and> tame ps (ac_jobs A)
     \<and> sorted_mail n ps A \<and> ledger n ps src dst A"

lemma wired_onD:
  assumes "wired_on n ps M"
  shows "p \<in> set ps \<Longrightarrow> M p \<noteq> None \<longleftrightarrow> node p = n"
    and "M p = Some r \<Longrightarrow> link ps p t \<Longrightarrow> r_next r = Some t"
    and "M p = Some r \<Longrightarrow> t \<in> set (tl ps) \<Longrightarrow> r_next r = Some t \<Longrightarrow> link ps p t"
    and "M p = Some r \<Longrightarrow> p \<in> set ps \<Longrightarrow> r_next r = Some t \<Longrightarrow> link ps p t"
  using assms unfolding wired_on_def by blast+

lemma wired_on_update:
  assumes "wired_on n ps M" and "M p = Some r" and "r_next r' = r_next r"
  shows "wired_on n ps (M(p \<mapsto> r'))"
  using assms unfolding wired_on_def by (metis fun_upd_apply option.inject option.distinct(1))

lemma wired_on_other:
  assumes "wired_on n ps M" and "p \<notin> set ps" and "\<And>r t. v = Some r \<Longrightarrow> r_next r = Some t \<Longrightarrow> t \<notin> set (tl ps)"
  shows "wired_on n ps (M(p := v))"
  unfolding wired_on_def
proof (intro conjI ballI allI impI)
  fix k assume "k \<in> set ps"
  with wired_onD(1) [OF assms(1) this] assms(2) show "(M(p := v)) k \<noteq> None \<longleftrightarrow> node k = n" by auto
next
  fix k r t assume "(M(p := v)) k = Some r" and l: "link ps k t"
  moreover have "k \<noteq> p" using link_mem [OF l] assms(2) by blast
  ultimately show "r_next r = Some t" using wired_onD(2) [OF assms(1) _ l] by simp
next
  fix k r t assume k: "(M(p := v)) k = Some r" "r_next r = Some t" and t: "k \<in> set ps \<or> t \<in> set (tl ps)"
  with assms(2,3) have "k \<noteq> p" by auto
  with k t wired_onD(3,4) [OF assms(1)] show "link ps k t" by auto
qed

lemma recorded_update [simp]:
  "p \<noteq> k \<Longrightarrow> recorded (M(k := v)) p = recorded M p"
  "recorded (M(k \<mapsto> r)) k = r_history r"
  by (simp_all add: recorded_def)

lemma pre_simps [simp]:
  "pre t [] = []" "pre t (j # js) = ops_to t (coming j) @ pre t js"
  "out_of t [] = []" "out_of t (j # js) = ops_to t (leaving j) @ out_of t js"
  by (simp_all add: pre_def out_of_def)

lemma tl_mem_list: "x \<in> set (tl xs) \<Longrightarrow> x \<in> set xs"
  by (cases xs) auto

lemma tame_tail:
  assumes "tame ps (j # js)"
  shows "tame ps js" "t \<in> set (tl ps) \<Longrightarrow> pre t js = []" "t \<in> set (tl ps) \<Longrightarrow> out_of t js = []"
proof -
  have all: "\<forall>j \<in> set js. \<forall>e \<in> set (coming j @ leaving j). \<not> inner ps e"
    using assms by (simp add: tame_def)
  then show "tame ps js" by (auto simp: tame_def dest: tl_mem_list)
  show "pre t js = []" "out_of t js = []" if "t \<in> set (tl ps)"
    using all ops_to_none [OF that] by (auto simp: pre_def out_of_def)
qed

lemma tame_head: "tame ps (j # js) \<Longrightarrow> tame ps (j' # js)"
  by (simp add: tame_def)

section \<open>Jobs keep it\<close>

lemma chain_at_frame:
  assumes "chain_at n ps src dst A" and "ac_state B = ac_state A" and "ac_mail B = ac_mail A"
    and "ac_outbox B = ac_outbox A" and "tame ps (ac_jobs B)"
    and "\<And>t. t \<in> set (tl ps) \<Longrightarrow> pre t (ac_jobs B) = pre t (ac_jobs A) \<and> out_of t (ac_jobs B) = out_of t (ac_jobs A)"
  shows "chain_at n ps src dst B"
proof -
  have "ledger n ps src dst B"
    unfolding ledger_def
  proof (intro allI impI)
    fix p t assume l: "link ps p t"
    then have "t \<in> set (tl ps)" by (auto dest: link_mem)
    with assms l show "noted n (ac_state B) src p t = noted n (ac_state B) dst t t
        @ pre t (ac_jobs B) @ ops_to t (ac_mail B t) @ ops_to t (ac_outbox B) @ out_of t (ac_jobs B)"
      by (simp add: chain_at_def ledger_def)
  qed
  with assms show ?thesis by (simp add: chain_at_def sorted_mail_def)
qed

text \<open>The first job becomes another one, or is dropped, with the same operations.\<close>

lemma chain_at_job:
  assumes A: "chain_at n ps src dst A" "ac_jobs A = j # js"
    and "\<And>t. t \<in> set (tl ps) \<Longrightarrow> ops_to t (coming j) = ops_to t (concat (map coming ks))
      \<and> ops_to t (leaving j) = ops_to t (concat (map leaving ks))"
    and "length ks \<le> 1" and "ac_state B = ac_state A" and "ac_mail B = ac_mail A"
    and "ac_outbox B = ac_outbox A" and "ac_jobs B = ks @ js"
  shows "chain_at n ps src dst B"
proof (rule chain_at_frame [OF A(1) assms(5-7)])
  have t: "tame ps (j # js)" using A by (simp add: chain_at_def)
  with assms(4,8) tame_tail(1) [OF t] tame_head [OF t] show "tame ps (ac_jobs B)"
    by (cases ks) auto
  show "pre t (ac_jobs B) = pre t (ac_jobs A) \<and> out_of t (ac_jobs B) = out_of t (ac_jobs A)"
    if "t \<in> set (tl ps)" for t
    using assms(3) [OF that] assms(8) A(2) by (simp add: pre_def out_of_def)
qed

lemma replica_handle_cases:
  assumes "replica_handle m f c [] r = Some (out, r')"
  obtains (op) v d where "m = User (Op v)" "out = [forwarded r v d]" "r' = r\<lparr>r_history := r_history r @ [v]\<rparr>"
  | (other) "\<forall>v. m \<noteq> User (Op v)" "r' = r" "\<forall>o' \<in> set out. \<forall>v. env_msg o' \<noteq> User (Op v)" "length out \<le> 1"
proof (cases "\<exists>v. m = User (Op v)")
  case True
  then obtain v where v: "m = User (Op v)" by blast
  then obtain d where "c = Some d" using assms by (auto simp: replica_handle_def split: option.splits)
  with v assms replica_handle_op [of v f d r] op [of v d] show thesis by auto
next
  case False
  with assms show thesis
    by (intro other)
       (auto simp: replica_handle_def Let_def split: option.splits msg.splits rabble_user_msg.splits)
qed

lemma op_in_forwarded: "op_in t (forwarded r v d) = (if r_next r = Some t then [v] else [])"
  by (simp add: op_in_def forwarded_def split: option.splits)

text \<open>A replica records an operation and has it for its successor.\<close>

lemma chain_at_op:
  assumes ps: "distinct ps" and A: "chain_at n ps src dst A" "ac_jobs A = Direct e # js"
    and r: "ac_state A (env_to e) = Some r" and v: "env_msg e = User (Op v)"
  shows "chain_at n ps src dst
    (A\<lparr>ac_state := (ac_state A)(env_to e \<mapsto> r\<lparr>r_history := r_history r @ [v]\<rparr>),
       ac_jobs := Emit (forwarded r v d) # js\<rparr>)" (is "chain_at n ps src dst ?B")
proof -
  let ?p = "env_to e"
  have w: "wired_on n ps (ac_state A)" and t: "tame ps (Direct e # js)" and s: "sorted_mail n ps A"
    and l: "ledger n ps src dst A"
    using A by (simp_all add: chain_at_def)
  note tail = tame_tail(2,3) [OF t]
  have here: "node ?p = n" if "?p \<in> set ps" using wired_onD(1) [OF w that] r by simp
  have "ledger n ps src dst ?B"
    unfolding ledger_def
  proof (intro allI impI)
    fix a b assume ab: "link ps a b"
    note mem = link_mem [OF ab]
    have b: "b \<in> set (tl ps)" using mem by blast
    have old: "noted n (ac_state A) src a b = noted n (ac_state A) dst b b
        @ op_in b e @ ops_to b (ac_mail A b) @ ops_to b (ac_outbox A)"
      using l [unfolded ledger_def, rule_format, OF ab] tail [OF b] A(2) by simp
    have rec: "noted n ((ac_state A)(?p \<mapsto> r\<lparr>r_history := r_history r @ [v]\<rparr>)) f k b = (if k = ?p then noted n (ac_state A) f k b @ [v]
        else noted n (ac_state A) f k b)" if "k \<in> set ps" for k f
      using r here that by (auto simp: noted_def recorded_def)
    consider "a = ?p" "b \<noteq> ?p" | "a \<noteq> ?p" "b = ?p" | "a \<noteq> ?p" "b \<noteq> ?p"
      using link_unique(3) [OF ps ab] by blast
    then show "noted n (ac_state ?B) src a b = noted n (ac_state ?B) dst b b
        @ pre b (ac_jobs ?B) @ ops_to b (ac_mail ?B b) @ ops_to b (ac_outbox ?B) @ out_of b (ac_jobs ?B)"
    proof cases
      case 1
      then have "r_next r = Some b" using wired_onD(2) [OF w r] ab by blast
      with 1 old here mem rec tail [OF b] op_in_other [of e b] show ?thesis by (simp add: op_in_forwarded)
    next
      case 2
      then have "r_next r \<noteq> Some b" using wired_onD(3) [OF w r b] link_unique(3) [OF ps] by blast
      with 2 old here mem rec tail [OF b] v show ?thesis by (simp add: op_in_forwarded) (simp add: op_in_def)
    next
      case 3
      then have "r_next r \<noteq> Some b" using wired_onD(3) [OF w r b] link_unique(1) [OF ps ab] by blast
      with 3 old mem rec tail [OF b] op_in_other [of e b] show ?thesis by (simp add: op_in_forwarded)
    qed
  qed
  moreover have "wired_on n ps (ac_state ?B)" using wired_on_update [OF w r] by simp
  moreover have "sorted_mail n ps ?B"
    using s tail A(2) by (auto simp: sorted_mail_def)
  ultimately show ?thesis using tame_head [OF t] by (simp add: chain_at_def)
qed

text \<open>What a process answers on other occasions, and what others do, is not for the chain.\<close>

lemma chain_at_other:
  assumes A: "chain_at n ps src dst A" "ac_jobs A = Direct e # js"
    and r: "ac_state A (env_to e) = Some r"
    and out: "replica_handle (env_msg e) (env_from e) (env_cid e) [] r = Some (out, r')"
    and v: "\<forall>v. env_msg e \<noteq> User (Op v)"
  shows "chain_at n ps src dst (A\<lparr>ac_state := (ac_state A)(env_to e \<mapsto> r'), ac_jobs := map Emit out @ js\<rparr>)"
  using out
proof (cases rule: replica_handle_cases)
  case other
  have "\<not> inner ps e" "\<forall>o' \<in> set out. \<not> inner ps o'" using other(3) v by (simp_all add: inner_def)
  moreover have "(ac_state A)(env_to e \<mapsto> r') = ac_state A" using r other(2) by auto
  ultimately show ?thesis
    using ops_to_none [of _ ps out] other(4)
    by (intro chain_at_job [OF A, of "map Emit out"]) (simp_all add: comp_def)
qed (use v in auto)

text \<open>A letter is sent on: to a mailbox of this node, or out of it.\<close>

lemma chain_at_post:
  assumes A: "chain_at n ps src dst A" "ac_jobs A = Emit e # js" and e: "node (env_to e) = n"
  shows "chain_at n ps src dst (post e (A\<lparr>ac_jobs := js\<rparr>))"
proof -
  have t: "tame ps (Emit e # js)" and s: "sorted_mail n ps A" and l: "ledger n ps src dst A"
    and w: "wired_on n ps (ac_state A)"
    using A by (simp_all add: chain_at_def)
  note tail = tame_tail [OF t]
  have "ledger n ps src dst (post e (A\<lparr>ac_jobs := js\<rparr>))"
    unfolding ledger_def
  proof (intro allI impI)
    fix a b assume ab: "link ps a b"
    then have b: "b \<in> set (tl ps)" by (auto dest: link_mem)
    have "noted n (ac_state A) src a b = noted n (ac_state A) dst b b
        @ ops_to b (ac_mail A b) @ ops_to b (ac_outbox A) @ op_in b e"
      using l [unfolded ledger_def, rule_format, OF ab] tail(2,3) [OF b] A(2) by simp
    moreover have "ops_to b (ac_outbox A) = []" if "env_to e = b"
      using s b e that by (auto simp: sorted_mail_def)
    ultimately show "noted n (ac_state (post e (A\<lparr>ac_jobs := js\<rparr>))) src a b
      = noted n (ac_state (post e (A\<lparr>ac_jobs := js\<rparr>))) dst b b
        @ pre b (ac_jobs (post e (A\<lparr>ac_jobs := js\<rparr>))) @ ops_to b (ac_mail (post e (A\<lparr>ac_jobs := js\<rparr>)) b)
        @ ops_to b (ac_outbox (post e (A\<lparr>ac_jobs := js\<rparr>))) @ out_of b (ac_jobs (post e (A\<lparr>ac_jobs := js\<rparr>)))"
      using tail(2,3) [OF b] op_in_other [of e b] by (auto simp: post_def)
  qed
  moreover have "sorted_mail n ps (post e (A\<lparr>ac_jobs := js\<rparr>))"
    using s e A(2) by (auto simp: sorted_mail_def post_def)
  ultimately show ?thesis using w tail(1) by (simp add: chain_at_def post_def)
qed

lemma chain_at_out:
  assumes A: "chain_at n ps src dst A" "ac_jobs A = Emit e # js" and e: "node (env_to e) \<noteq> n"
  shows "chain_at n ps src dst (send_out e (A\<lparr>ac_jobs := js\<rparr>))"
proof -
  have t: "tame ps (Emit e # js)" and s: "sorted_mail n ps A" and l: "ledger n ps src dst A"
    and w: "wired_on n ps (ac_state A)"
    using A by (simp_all add: chain_at_def)
  note tail = tame_tail [OF t]
  have "ledger n ps src dst (send_out e (A\<lparr>ac_jobs := js\<rparr>))"
    unfolding ledger_def
  proof (intro allI impI)
    fix a b assume ab: "link ps a b"
    then have b: "b \<in> set (tl ps)" by (auto dest: link_mem)
    show "noted n (ac_state (send_out e (A\<lparr>ac_jobs := js\<rparr>))) src a b
      = noted n (ac_state (send_out e (A\<lparr>ac_jobs := js\<rparr>))) dst b b
        @ pre b (ac_jobs (send_out e (A\<lparr>ac_jobs := js\<rparr>))) @ ops_to b (ac_mail (send_out e (A\<lparr>ac_jobs := js\<rparr>)) b)
        @ ops_to b (ac_outbox (send_out e (A\<lparr>ac_jobs := js\<rparr>))) @ out_of b (ac_jobs (send_out e (A\<lparr>ac_jobs := js\<rparr>)))"
      using l [unfolded ledger_def, rule_format, OF ab] tail(2,3) [OF b] A(2) by (simp add: send_out_def)
  qed
  moreover have "sorted_mail n ps (send_out e (A\<lparr>ac_jobs := js\<rparr>))"
  proof -
    have "op_in b e = []" if "node b = n" for b using that e by (intro op_in_other) auto
    with s A(2) show ?thesis by (auto simp: sorted_mail_def send_out_def)
  qed
  ultimately show ?thesis using w tail(1) by (simp add: chain_at_def send_out_def)
qed

text \<open>No operation of the chain is for the executor, the cluster server or nobody.\<close>

lemma not_inner:
  assumes "spread_pids ps"
  shows "env_to e = executor_pid n \<Longrightarrow> \<not> inner ps e" and "to_cluster_server (env_to e) \<Longrightarrow> \<not> inner ps e"
proof -
  have *: "p \<noteq> executor_pid (node p)" "\<not> to_cluster_server p" if "p \<in> set (tl ps)" for p
    using assms tl_mem [OF that] by (auto simp: spread_pids_def to_cluster_server_def)
  show "env_to e = executor_pid n \<Longrightarrow> \<not> inner ps e"
    using *(1) [of "env_to e"] by (auto simp: inner_def executor_pid_def)
  show "to_cluster_server (env_to e) \<Longrightarrow> \<not> inner ps e"
    using *(2) by (auto simp: inner_def)
qed

lemma sorted_coming:
  assumes "sorted_mail n ps A" and "ac_jobs A = Deliver e # js \<or> ac_jobs A = Direct e # js"
    and "node (env_to e) \<noteq> n"
  shows "\<not> inner ps e"
  using assms by (fastforce simp: sorted_mail_def inner_def op_in_def)

lemma not_hosted:
  assumes "wired_on n ps (ac_state A)" and "\<not> hosted n A (env_to e)"
  shows "node (env_to e) = n \<Longrightarrow> \<not> inner ps e"
  using assms wired_onD(1) [OF assms(1), of "env_to e"] tl_mem [of "env_to e" ps]
  by (auto simp: hosted_def inner_def)

lemma chain_at_send_quiet:
  assumes "chain_at n ps src dst A" and "\<not> inner ps e"
  shows "chain_at n ps src dst (send_out e A)"
proof -
  have "op_in t e = []" if "t \<in> set (tl ps)" for t using that assms(2) by simp
  with assms(1) show ?thesis
    by (simp add: chain_at_def sorted_mail_def send_out_def ledger_def) (metis append_Nil link_mem)
qed

lemma actor_job_chain:
  assumes x: "runs_replicas x" and ps: "spread_pids ps" and A: "chain_at n ps src dst A"
    and job: "actor_job x n A ev A'"
  shows "chain_at n ps src dst A'"
proof -
  have w: "wired_on n ps (ac_state A)" and s: "sorted_mail n ps A" and dist: "distinct ps"
    using A ps by (simp_all add: chain_at_def spread_pids_def)
  note ni = not_inner [OF ps]
  note drop = chain_at_job [OF A, where ks = "[]"]
  show ?thesis
    using job
  proof cases
    case (deliver_out e js)
    have e: "\<not> inner ps e" using sorted_coming [OF s] deliver_out by blast
    with drop [OF deliver_out(3), of "A\<lparr>ac_jobs := js\<rparr>"] deliver_out chain_at_send_quiet [OF _ e]
    show ?thesis by simp
  next
    case (deliver_direct e js)
    then show ?thesis by (intro chain_at_job [OF A deliver_direct(3), where ks = "[Direct e]"]) simp_all
  next
    case (deliver_service e js)
    with not_hosted [OF w] show ?thesis by (intro chain_at_job [OF A deliver_service(3), where ks = "[Serve e]"]) simp_all
  next
    case (direct_ask e js)
    with ni(1) show ?thesis by (intro chain_at_job [OF A direct_ask(3), where ks = "[Ask e]"]) simp_all
  next
    case (direct_cluster e js)
    have e: "\<not> inner ps e" using ni(2) direct_cluster by blast
    with drop [OF direct_cluster(3), of "A\<lparr>ac_jobs := js\<rparr>"] direct_cluster chain_at_send_quiet [OF _ e]
    show ?thesis by simp
  next
    case (direct_run e js q out q')
    have h: "replica_handle (env_msg e) (env_from e) (env_cid e) [] q = Some (out, q')"
      using direct_run x by (simp add: runs_replicas_def)
    show ?thesis
    proof (cases "\<exists>v. env_msg e = User (Op v)")
      case False
      with chain_at_other [OF A direct_run(3,6) h] direct_run show ?thesis by blast
    next
      case True
      from h show ?thesis
      proof (cases rule: replica_handle_cases)
        case (op v d)
        with chain_at_op [OF dist A direct_run(3,6), of v d] direct_run show ?thesis by simp
      qed (use True in blast)
    qed
  next
    case (direct_lost e js)
    have "\<not> inner ps e" using not_hosted [OF w direct_lost(4)] sorted_coming [OF s] direct_lost by blast
    with direct_lost show ?thesis by (intro drop [OF direct_lost(3)]) simp_all
  next
    case (emit_ask e js)
    with ni(1) show ?thesis by (intro chain_at_job [OF A emit_ask(3), where ks = "[Ask e]"]) simp_all
  next
    case (emit_post e js)
    with chain_at_post [OF A] show ?thesis by simp
  next
    case (emit_out e js)
    with chain_at_out [OF A] show ?thesis by simp
  next
    case (ask_metrics e js d)
    then show ?thesis
      by (intro chain_at_job [OF A ask_metrics(3), where ks =
          "[Deliver (envelope_new (env_from e) (executor_pid n) (Metrics d) (env_cid e))]"])
         (simp_all add: op_in_def)
  qed (rule drop, assumption, simp_all)+
qed

lemma actor_jobs_chain:
  assumes "runs_replicas x" and "spread_pids ps" and "actor_jobs x n A tr A'"
  shows "chain_at n ps src dst A \<Longrightarrow> chain_at n ps src dst A'"
  using assms(3) by (induction rule: runs.induct) (auto intro: actor_job_chain [OF assms(1,2)])

section \<open>Beginning jobs keeps it\<close>

text \<open>Messages that leave the replicas of the chain where they are.\<close>

fun settled :: "pid list \<Rightarrow> (rabble_user_msg, replica, 'x) executor_msg \<Rightarrow> bool" where
  "settled ps (ExecEnvelope e) \<longleftrightarrow> True"
| "settled ps m \<longleftrightarrow> calm ps m"

lemma quiet_settled: "quiet ps m \<Longrightarrow> settled ps m"
  by (cases m) simp_all

lemma actor_begin_chain:
  assumes x: "runs_replicas x" and ps: "spread_pids ps" and A: "chain_at n ps src dst A"
    and ev: "ev = first_event x s0 m" "settled ps m" and b: "actor_begin x n A ev A'"
  shows "chain_at n ps src dst A'"
proof -
  have w: "wired_on n ps (ac_state A)" and s: "sorted_mail n ps A" and l: "ledger n ps src dst A"
    using A by (simp_all add: chain_at_def)
  have other: "chain_at n ps src dst (A\<lparr>ac_state := (ac_state A)(p := v)\<rparr>)"
    if p: "p \<notin> set ps" "\<And>r t. v = Some r \<Longrightarrow> r_next r = Some t \<Longrightarrow> t \<notin> set (tl ps)" for p v
  proof -
    have "noted n ((ac_state A)(p := v)) f k t = noted n (ac_state A) f k t" if k: "k \<in> set ps" for f k t
    proof -
      have "p \<noteq> k" using k p(1) by blast
      then show ?thesis by (simp add: noted_def)
    qed
    then have "ledger n ps src dst (A\<lparr>ac_state := (ac_state A)(p := v)\<rparr>)"
      using l link_mem unfolding ledger_def by simp
    with A wired_on_other [OF w p] show ?thesis
      by (simp add: chain_at_def sorted_mail_def)
  qed
  show ?thesis
    using b
  proof cases
    case (take_letter e es)
    have "ledger n ps src dst A'"
      unfolding ledger_def
    proof (intro allI impI)
      fix a b assume ab: "link ps a b"
      show "noted n (ac_state A') src a b = noted n (ac_state A') dst b b
        @ pre b (ac_jobs A') @ ops_to b (ac_mail A' b) @ ops_to b (ac_outbox A') @ out_of b (ac_jobs A')"
        using l [unfolded ledger_def, rule_format, OF ab] take_letter op_in_other [of e b] by auto
    qed
    moreover have "sorted_mail n ps A'"
      using s take_letter op_in_other [of e] unfolding sorted_mail_def by fastforce
    ultimately show ?thesis using w take_letter by (simp add: chain_at_def tame_def)
  next
    case (spawn p q cs out q')
    have "out = []" "q' = q" using spawn x by (simp_all add: runs_replicas_def process_init_def)
    moreover have "p \<notin> set ps" "\<And>t. r_next q = Some t \<Longrightarrow> t \<notin> set (tl ps)"
      using spawn ev by (cases m; auto)+
    ultimately show ?thesis
      using spawn by (intro chain_at_frame [OF other [of p "Some q"]]) (simp_all add: tame_def)
  next
    case (kill p cs)
    then have "p \<notin> set ps" using ev by (cases m) auto
    with kill show ?thesis by (intro chain_at_frame [OF other [of p None]]) (simp_all add: tame_def)
  next
    case (report cid cs st)
    then show ?thesis by (intro chain_at_frame [OF A]) (simp_all add: tame_def op_in_def)
  next
    case (fire cs ks T)
    have no: "\<forall>e \<in> set (map (\<lambda>k. envelope_new (fst k) (executor_pid n) Timeout (snd k)) ks). \<not> inner ps e"
      by (auto simp: inner_def)
    have pre: "pre t (ac_jobs A') = []" "out_of t (ac_jobs A') = []" if "t \<in> set (tl ps)" for t
      using ops_to_none [OF that no] fire by (simp_all add: pre_def out_of_def comp_def)
    have "tame ps (ac_jobs A')"
      using fire by (auto simp: tame_def inner_def dest!: tl_mem_list)
    with pre fire show ?thesis by (intro chain_at_frame [OF A]) simp_all
  qed (auto intro!: chain_at_frame [OF A] simp: tame_def)
qed

text \<open>One message that the executor of the node handles.\<close>

lemma handles_chain:
  assumes "runs_replicas x" and "spread_pids ps" and "settled ps m" and "handles x n (first_event x s m) A tr A'"
    and "chain_at n ps src dst A"
  shows "chain_at n ps src dst A'"
  using assms(4) unfolding handles_def
  using actor_begin_chain [OF assms(1,2,5) refl assms(3)] actor_jobs_chain [OF assms(1,2)] by blast

end
