(* ===== verification/ClusterClaims2.thy ===== *)
theory ClusterClaims2
  imports ClusterClaims
begin

text \<open>
  More properties of the cluster server: its timeouts, changes of the membership, the routing of
  envelopes to other nodes, and two behaviours of the code that surprise.
\<close>

section \<open>Timeouts\<close>

text \<open>
  A connection that is absent stays absent: ids are fresh. Being pinned to two sockets at once
  says that there is no connection.
\<close>

lemma absent_pinned:
  assumes "cl_inv x used peer E None s" and "i \<in> used (registrar s)"
    and "hm_get (connections s) i = None"
  shows "cl_inv x used peer E (Some (i, sk)) s"
  using assms unfolding cl_inv_def pinned_def by simp

lemma pinned_absent:
  assumes "cl_inv x used peer E (Some (i, 0)) s" and "cl_inv x used peer E (Some (i, 1)) s"
  shows "hm_get (connections s) i = None"
  using cl_invD(10) [OF assms(1)] cl_invD(10) [OF assms(2)] by (auto simp: pinned_def)

lemma safe_absent:
  assumes "\<And>sk. safe (cl_inv x used peer {} (Some (i, sk))) m"
    and "cl_inv x used peer {} None s" and "i \<in> used (registrar s)"
    and "hm_get (connections s) i = None" and "m s = (r, s')"
  shows "hm_get (connections s') i = None"
  using assms(5) safeD [OF assms(1) absent_pinned [OF assms(2-4)]]
  by (intro pinned_absent) blast+

text \<open>
  C19: a tick closes the connections in the next slot of the wheel, for good: whatever the
  check that follows opens, it is under another id.
\<close>

theorem tick_closes_silent_connections:
  assumes "cl_inv x used peer {} None s" and "hm_get (connections s) i = Some c"
    and "i \<in> due (cs_timer_wheel s) 0" and "cs_tick x s = (r, s')"
  shows "hm_get (connections s') i = None \<and> (\<forall>n. hm_get (established s') n \<noteq> Some i)"
proof -
  obtain ids tw where e: "tw_expire (cs_timer_wheel s) = Some (ids, tw)"
    using tw_expire_total [OF cl_inv_wf [OF assms(1)]] by blast
  have i: "i \<in> set ids" using assms(3) due_expire(1) [OF cl_inv_wf [OF assms(1)] e] by simp
  obtain s2 where s2: "cl_inv x used peer {} None s2" "used (registrar s) \<subseteq> used (registrar s2)"
      "hm_get (connections s2) = (\<lambda>i. if i \<in> set ids then None else hm_get (connections s) i)"
      "cs_tick x s = seqM (broadcast_pings x) (check_connections x) s2"
    by (rule expired_closed [OF assms(1) e])
  then have run: "seqM (broadcast_pings x) (check_connections x) s2 = (r, s')"
    and absent: "hm_get (connections s2) i = None"
    using assms(4) i by simp_all
  have "safe (cl_inv x used peer {} (Some (i, sk)))
      (seqM (broadcast_pings x) (check_connections x))" for sk
    by (intro safe_rules)
  from safe_absent [OF this s2(1) _ absent run] have gone: "hm_get (connections s') i = None"
    using s2(2) cl_invD(9) [OF assms(1,2)] by blast
  have "cl_inv x used peer {} None s'"
    using safeD [OF cs_tick_safe assms(1,4)] by simp
  from established_okD(1) [OF cl_invD(8) [OF this]] gone show ?thesis by metis
qed

theorem tick_closes_silent_connections_witness:
  "hm_get (connections (snd (cs_tick (sample_env True) sample_cluster))) 7 = None"
proof -
  have "7 \<in> due (cs_timer_wheel sample_cluster) 0"
    by (simp add: sample_server_def due_def slot_keys_def)
  moreover obtain c where "hm_get (connections sample_cluster) 7 = Some c"
    by (simp add: sample_server_def)
  ultimately show ?thesis
    using tick_closes_silent_connections [OF sample_server_inv [of 3] _ _ prod.collapse [symmetric]]
    by blast
qed

text \<open>
  C20: a \<open>Ping\<close> gives a connection the full time: its id moves to the slot of the wheel that is
  furthest away, from where the server's wheel of five slots expires it at the fifth tick and
  not before.
\<close>

theorem ping_restores_full_timeout:
  assumes "cl_inv x used peer {} None s" and "hm_get (connections s) i = Some c"
    and "n < tw_size (cs_timer_wheel s)"
  shows "\<exists>s'. handle_decoded_message x i Ping s = (Ok (), s')
    \<and> (i \<in> due (cs_timer_wheel s') n \<longleftrightarrow> n = tw_size (cs_timer_wheel s) - 1)
    \<and> (\<forall>j. j \<noteq> i \<longrightarrow> (j \<in> due (cs_timer_wheel s') n \<longleftrightarrow> j \<in> due (cs_timer_wheel s) n))"
proof -
  obtain tw1 slot tw where rem: "tw_remove i (timer_wheel_index c) (cs_timer_wheel s) = Some tw1"
    and ins: "tw_insert i tw1 = Some (slot, tw)"
    using rearm_parts [OF assms(1,2)] .
  note rw = tw_remove_wf [OF cl_inv_wf [OF assms(1)] rem]
  have "due tw1 n = due (cs_timer_wheel s) n - {i}"
    using rw(2,3,5) slot_keys_iff [OF assms(1), of i] assms(2) by (auto simp: due_def)
  then have "due tw n = (if n = tw_size (cs_timer_wheel s) - 1 then insert i (due (cs_timer_wheel s) n)
      else due (cs_timer_wheel s) n - {i})"
    using due_insert [OF rw(1) ins, of n] assms(3) rw(2) by auto
  then show ?thesis
    using assms(2) rem ins
    by (simp add: handle_decoded_message_def reset_timer_def update_conn_def wheel_remove_def
        wheel_insert_def act_defs)
qed

theorem ping_restores_full_timeout_witness:
  "\<exists>s'. handle_decoded_message (sample_env True) 7 Ping sample_cluster = (Ok (), s')
    \<and> 7 \<in> due (cs_timer_wheel s') 4"
proof -
  have "\<exists>c. hm_get (connections sample_cluster) 7 = Some c" "tw_size (cs_timer_wheel sample_cluster) = 5"
    by (simp_all add: sample_server_def)
  then show ?thesis
    using ping_restores_full_timeout [OF sample_server_inv [of 3], of 7 _ 4] by auto
qed

section \<open>Changes of the membership\<close>

lemma seq_mod: "seqM (modM f) k s = k (f s)"
  by (simp add: seqM_def bindM_def modM_def)

lemma keeps_part: "(\<And>t. keeps (\<lambda>s. f s = t) m) \<Longrightarrow> keeps (\<lambda>s. g (f s) = t) m"
  by (auto simp: keeps_def triple_def)

lemma keeps_value: "(\<And>t. keeps (\<lambda>s. f s = t) m) \<Longrightarrow> f (snd (m s)) = f s"
  by (simp add: keeps_def triple_def)

lemma broadcast_delta_members: "keeps (\<lambda>s. cs_members s = t) (broadcast_delta x d)"
  unfolding broadcast_delta_def encode_msg_def
  by (intro keeps_bind)
     (auto intro: keeps_rules keepsI simp: cs_broadcast_def split: option.splits prod.splits)

lemma connect_members: "keeps (\<lambda>s. cs_members s = t) (connect x n)"
  using keeps_part [OF connect_tables, of "\<lambda>(e, m, n). m"] by (simp add: tables_def)

lemma join_tail_members:
  "keeps (\<lambda>s. cs_members s = t) (seqM (broadcast_delta x d) (seqM (bump f) (connect x n)))"
  unfolding bump_def by (intro keeps_seq broadcast_delta_members connect_members keeps_mod) simp

lemma leave_tail_members:
  "keeps (\<lambda>s. cs_members s = t) (case dl of None \<Rightarrow> ret () | Some delta \<Rightarrow> broadcast_delta x delta)"
  by (auto intro: keeps_rules broadcast_delta_members split: option.splits)

lemma delta_tail_members:
  "keeps (\<lambda>s. cs_members s = t) (if c then broadcast_delta x d else ret ())"
  by (auto intro: keeps_rules broadcast_delta_members)

text \<open>
  C24: a join adds the node to the membership, and a leave removes it, whether or not the other
  nodes could be told and the connection could be opened; no other member changes.
\<close>

theorem join_and_leave_change_members:
  assumes "orset_laws (set_ops x)"
  shows "set (members_all (set_ops x) (cs_members (snd (cs_join x n s))))
      = insert n (set (members_all (set_ops x) (cs_members s)))
    \<and> set (members_all (set_ops x) (cs_members (snd (cs_leave x n s))))
      = set (members_all (set_ops x) (cs_members s)) - {n}"
proof -
  obtain d ms where add: "members_add (set_ops x) n (cs_members s) = (d, ms)" by fastforce
  then have "cs_members (snd (cs_join x n s)) = ms"
    by (simp add: cs_join_def withM_def seq_mod keeps_value [OF join_tail_members])
  moreover obtain dl ml where leave: "members_leave (set_ops x) n (cs_members s) = (dl, ml)"
    by fastforce
  then have "cs_members (snd (cs_leave x n s)) = ml"
    by (simp add: cs_leave_def withM_def seq_mod keeps_value [OF leave_tail_members])
  ultimately show ?thesis
    using members_add_all [OF assms, of n "cs_members s"] members_leave_all [OF assms, of n "cs_members s"]
      add leave
    by simp
qed

theorem join_and_leave_change_members_witness:
  "set (members_all sample_set_ops
      (cs_members (snd (cs_join (sample_env True) (sample_peer 9) sample_cluster))))
   = {sample_peer 9, sample_peer 5, sample_peer 3, sample_peer 4}"
proof -
  have "set_ops (sample_env True) = sample_set_ops" by (simp add: sample_env_def)
  moreover have "set (members_all sample_set_ops (cs_members sample_cluster))
      = {sample_peer 5, sample_peer 3, sample_peer 4}"
    by (simp add: members_all_def sample_set_ops_def sample_server_def)
  ultimately show ?thesis
    using join_and_leave_change_members [of "sample_env True" "sample_peer 9" sample_cluster]
    by (simp add: sample_set_laws)
qed

text \<open>
  Gossip stops: a delta the membership has already absorbed changes nothing when it arrives
  again, on whichever connection: nothing is broadcast and the state is the same.
\<close>

lemma delta_not_rebroadcast:
  assumes "orset_laws (set_ops x)" and "handle_decoded_message x i (DeltaMsg d) s = (r, s')"
  shows "handle_decoded_message x j (DeltaMsg d) s' = (Ok (), s')"
proof -
  obtain c ms where jd: "members_join_delta (set_ops x) d (cs_members s) = (c, ms)" by fastforce
  have "snd (handle_decoded_message x i (DeltaMsg d) s)
      = snd ((if c then broadcast_delta x d else ret ()) (s\<lparr>cs_members := ms\<rparr>))"
    using jd by (simp add: handle_decoded_message_def withM_def seq_mod)
  then have "cs_members s' = ms"
    using assms(2) by (simp add: keeps_value [OF delta_tail_members])
  moreover have "members_join_delta (set_ops x) d ms = (False, ms)"
    using members_join_delta_again [OF assms(1), of d "cs_members s"] jd by simp
  moreover have "s'\<lparr>cs_members := cs_members s'\<rparr> = s'" by simp
  ultimately show ?thesis
    by (simp add: handle_decoded_message_def act_defs)
qed

lemma delta_not_rebroadcast_witness:
  "\<exists>s'. handle_decoded_message (sample_env True) 7 (DeltaMsg (AddD (sample_peer 9))) sample_cluster
      = (Ok (), s')
    \<and> handle_decoded_message (sample_env True) 7 (DeltaMsg (AddD (sample_peer 9))) s' = (Ok (), s')"
proof -
  have laws: "orset_laws (set_ops (sample_env True))" by (simp add: sample_env_def sample_set_laws)
  obtain s' where "handle_decoded_message (sample_env True) 7 (DeltaMsg (AddD (sample_peer 9)))
      sample_cluster = (Ok (), s')"
    by (simp add: handle_decoded_message_def members_join_delta_def broadcast_delta_def
        encode_msg_def cs_broadcast_def conn_write_def act_defs sample_env_def sample_encode_def
        sample_set_ops_def sample_server_def)
  with delta_not_rebroadcast [OF laws this] show ?thesis by blast
qed

section \<open>Establishing connections\<close>

text \<open>
  A node's first \<open>Members\<close> message establishes the connection it came on and changes no other.
\<close>

lemma members_establish_effect:
  assumes "cl_inv x used peer {} None s" and "hm_get (connections s) i = Some c"
    and "hm_get (established s) n = None"
  shows "\<exists>s' slot. establish_connection x i n other s = (Ok (), s')
    \<and> hm_get (connections s') = (hm_get (connections s))
         (i \<mapsto> c\<lparr>conn_node := Some n, timer_wheel_index := slot\<rparr>)
    \<and> hm_get (established s') = (hm_get (established s))(n \<mapsto> i)
    \<and> cs_members s' = members_join (set_ops x) other (cs_members s) \<and> cs_node s' = cs_node s
    \<and> i \<in> slot_keys (cs_timer_wheel s') slot"
proof -
  obtain tw1 slot tw where rem: "tw_remove i (timer_wheel_index c) (cs_timer_wheel s) = Some tw1"
    and ins: "tw_insert i tw1 = Some (slot, tw)"
    using rearm_parts [OF assms(1,2)] .
  have "i \<in> slot_keys tw slot"
    using tw_insert_wf(7) [OF tw_remove_wf(1) [OF cl_inv_wf [OF assms(1)] rem] ins] by simp
  with assms(2,3) rem ins show ?thesis
    by (auto simp: establish_connection_def choose_connection_to_close_def mark_established_def
        wheel_remove_def wheel_insert_def act_defs)
qed

text \<open>
  \<open>connect\<close> registers a connection although the address could not be resolved: an error
  that carries no number of the operating system is taken for a connection in progress. The
  caller sees success and the node counts as a known peer until the timeout.
\<close>

lemma connect_ignores_unresolved_address:
  assumes "cl_inv x used peer {} None s"
    and "sk_new_v4 x (registrar s) = (Inr b, w1)" and "sk_to_tcp_stream x b w1 = (Inr sk, w2)"
    and "sk_set_nonblocking x sk w2 = (Inr (), w3)" and "sk_connect x sk (addr n) w3 = (Inl e, w4)"
    and "raw_os_error e = None" and "rg_register x sk Read w4 = (Inr i, w5)"
  shows "\<exists>s' c. connect x n s = (Ok (), s') \<and> hm_get (connections s') i = Some c
    \<and> conn_node c = Some n \<and> is_client c \<and> n \<in> set (known_peers (connections s'))"
proof -
  obtain slot tw where ins: "tw_insert i (cs_timer_wheel s) = Some (slot, tw)"
    using tw_insert_total [OF cl_inv_wf [OF assms(1)]] by blast
  let ?c = "(conn_new x sk (Some n) True)\<lparr>timer_wheel_index := slot\<rparr>"
  let ?s = "s\<lparr>registrar := w5, cs_timer_wheel := tw, connections := hm_insert i ?c (connections s)\<rparr>"
  have run: "connect x n s = (Ok (), ?s)"
    using assms(2-) ins
    by (simp add: connect_def tryIO_def sysM_def init_connection_def wheel_insert_def act_defs)
  have "(i, ?c) \<in> set (connections ?s)" by (rule map_of_SomeD) simp
  moreover have "conn_node ?c = Some n" by (simp add: conn_new_def)
  ultimately have "n \<in> set (known_peers (connections ?s))"
    by (force simp: known_peers_def List.map_filter_def)
  with run show ?thesis by (intro exI [of _ ?s] exI [of _ ?c]) (simp add: conn_new_def)
qed

definition nowhere :: node_id where
  "nowhere = \<lparr>name = ''far'', addr = []\<rparr>"

lemma connect_ignores_unresolved_address_witness:
  "\<exists>s'. connect (sample_env True) nowhere sample_cluster = (Ok (), s')
    \<and> nowhere \<in> set (known_peers (connections s'))"
proof -
  let ?w = "\<lparr>next_reg = 9, next_fd = 11, inbox = []\<rparr>"
  have "\<exists>s' c. connect (sample_env True) nowhere sample_cluster = (Ok (), s')
      \<and> hm_get (connections s') 9 = Some c \<and> conn_node c = Some nowhere
      \<and> is_client c \<and> nowhere \<in> set (known_peers (connections s'))"
    by (rule connect_ignores_unresolved_address [OF sample_server_inv [of 3], where e = unresolved
          and b = 10 and sk = 10 and ?w1.0 = ?w and ?w2.0 = ?w and ?w3.0 = ?w and ?w4.0 = ?w
          and ?w5.0 = "?w\<lparr>next_reg := 10\<rparr>"])
       (simp_all add: sample_env_def sample_server_def unresolved_def sample_register_def nowhere_def)
  then show ?thesis by blast
qed

section \<open>Envelopes and status\<close>

text \<open>
  An envelope for another node is written to the connection established for that node and to
  no other; without one it is dropped without an error.
\<close>

lemma send_remote_to_established:
  assumes "cl_inv x used peer {} None s"
  shows "(hm_get (established s) (node (env_to env)) = None \<longrightarrow> send_remote x env s = (Ok (), s))
    \<and> (\<forall>i. hm_get (established s) (node (env_to env)) = Some i \<longrightarrow>
       (\<exists>c. hm_get (connections s) i = Some c \<and> conn_node c = Some (node (env_to env))
         \<and> (\<forall>b wr w. msg_encode x (RemoteEnvelope env) = Some b \<longrightarrow>
              wr_write x (sock c) (Some b) (writer c) (registrar s) = (Inr True, wr, w) \<longrightarrow>
              send_remote x env s = (Ok (), s\<lparr>connections := hm_insert i (c\<lparr>writer := wr\<rparr>) (connections s),
                registrar := w\<rparr>))))"
proof (cases "hm_get (established s) (node (env_to env))")
  case None
  then show ?thesis by (simp add: send_remote_def act_defs)
next
  case (Some i)
  obtain c where c: "hm_get (connections s) i = Some c"
    using established_okD(1) [OF cl_invD(8) [OF assms(1)] Some] by blast
  moreover have "conn_node c = Some (node (env_to env))"
    using established_okD(2) [OF cl_invD(8) [OF assms(1)] Some c] by simp
  ultimately show ?thesis
    using Some
    by (auto simp: send_remote_def encode_msg_def cs_write_def write_conn_def conn_write_def act_defs)
qed

text \<open>
  A status request is answered with one envelope to the pid that asked, through the executor,
  that reports the members, the established nodes and the number of connections as they are, and
  changes nothing else.
\<close>

lemma cluster_status_reply:
  assumes "cl_inv x used peer {} None s"
  shows "\<exists>st. cs_get_status x cid s = (Ok (), s\<lparr>executor_tx := (executor_tx s)\<lparr>sent :=
      sent (executor_tx s) @ [ExecEnvelope (envelope_new (cid_pid cid) (cs_pid s) (ClusterStatus st) (Some cid))]\<rparr>\<rparr>)
    \<and> set (st_members st) = set (members_all (set_ops x) (cs_members s))
    \<and> set (st_established st) = dom (hm_get (established s))
    \<and> num_connections st = card (dom (hm_get (connections s)))"
proof -
  have "length (connections s) = card (dom (hm_get (connections s)))"
    using cl_invD(4) [OF assms] distinct_card [of "map fst (connections s)"]
    by (simp add: hm_ok_def dom_map_of_conv_image_fst)
  then show ?thesis
    using cl_invD(3) [OF assms]
    by (intro exI [of _ "\<lparr>st_members = members_all (set_ops x) (cs_members s),
        st_established = hs_collect (hm_keys (established s)),
        num_connections = length (connections s)\<rparr>"])
       (simp add: cs_get_status_def executor_send_def chan_send_def act_defs envelope_new_def hm_keys_dom)
qed

section \<open>A peer that changes its name\<close>

text \<open>
  C26: that peers keep their names is needed. When the peer of an established connection sends
  \<open>Members\<close> under a second name, both names are established for the one id. Once both have left
  the cluster, disconnecting them panics, in either order: the second \<open>connections.remove\<close> finds
  nothing.
\<close>

theorem renaming_peer_panics:
  assumes "cl_inv x used peer {} None s" and "hm_get (established s) m = Some i"
    and "hm_get (established s) n = None"
  shows "\<exists>s1. establish_connection x i n other s = (Ok (), s1)
    \<and> fst (disconnect_established x [n, m] s1) = Panic ''connections.remove''
    \<and> fst (disconnect_established x [m, n] s1) = Panic ''connections.remove''"
proof -
  obtain c where c: "hm_get (connections s) i = Some c"
    using established_okD(1) [OF cl_invD(8) [OF assms(1)] assms(2)] by blast
  obtain s1 slot where
    run: "establish_connection x i n other s = (Ok (), s1)" and
    conns: "hm_get (connections s1) = (hm_get (connections s))
         (i \<mapsto> c\<lparr>conn_node := Some n, timer_wheel_index := slot\<rparr>)" and
    est: "hm_get (established s1) = (hm_get (established s))(n \<mapsto> i)" and
    slot: "i \<in> slot_keys (cs_timer_wheel s1) slot"
    using members_establish_effect [OF assms(1) c assms(3), of other]
    by (elim exE conjE) (rule that)
  obtain tw where tw: "tw_remove i slot (cs_timer_wheel s1) = Some tw"
    using slot by (simp add: tw_remove_def slot_keys_def split: if_splits)
  have "fst (disconnect_established x [a, b] s1) = Panic ''connections.remove''"
    if ab: "hm_get (established s1) a = Some i" "hm_get (established s1) b = Some i" "a \<noteq> b" for a b
  proof -
    obtain r w where "rg_deregister x (sock c) (registrar s1) = (r, w)" by fastforce
    with ab conns tw show ?thesis
      by (cases r) (simp_all add: disconnect_established_def disconnect_node_def wheel_remove_def
          sysM_def act_defs)
  qed
  moreover have "hm_get (established s1) n = Some i" "hm_get (established s1) m = Some i" "n \<noteq> m"
    using est assms(2,3) by auto
  ultimately show ?thesis using run by blast
qed

theorem renaming_peer_panics_witness:
  "\<exists>s1. establish_connection (sample_env True) 7 (sample_peer 9) [] sample_cluster = (Ok (), s1)
    \<and> fst (disconnect_established (sample_env True) [sample_peer 9, sample_peer 3] s1)
      = Panic ''connections.remove''"
proof -
  have "hm_get (established sample_cluster) (sample_peer 3) = Some 7"
    "hm_get (established sample_cluster) (sample_peer 9) = None"
    by (simp_all add: sample_server_def)
  then show ?thesis
    using renaming_peer_panics [OF sample_server_inv [of 3]] by metis
qed

end
