(* ===== verification/ClusterPeers.thy ===== *)
theory ClusterPeers
  imports ClusterClaims2
begin

text \<open>
  Two cluster servers at the ends of one connection: what one writes is what the other reads.
\<close>

section \<open>Frames between two servers\<close>

text \<open>A frame that the codec of one server makes of a message and that of the other reads back.\<close>

definition carries ::
    "('t, 'w, 'f, 's, 'd, 'k) cluster_env \<Rightarrow> ('t, 'v, 'g, 's, 'd, 'l) cluster_env
      \<Rightarrow> ('t, 's, 'd) external_msg \<Rightarrow> bytes \<Rightarrow> bool" where
  "carries x y m f \<longleftrightarrow> msg_encode x m = Some f \<and> msg_decode y f = Some m"

text \<open>The next read of connection \<open>i\<close>, over which the members were sent, finds one frame.\<close>

definition delivers ::
    "('t, 'w, 'f, 's, 'd, 'k) cluster_env \<Rightarrow> usize \<Rightarrow> bytes
      \<Rightarrow> ('t, 'q, 'x, 'w, 'f, 's) cluster \<Rightarrow> bool" where
  "delivers x i b s \<longleftrightarrow>
     (case hm_get (connections s) i of
        None \<Rightarrow> False
      | Some c \<Rightarrow> conn_members_sent c \<and>
          (case rd_read x (sock c) (reader c) (registrar s) of
             (Inl e, rd, w) \<Rightarrow> False
           | (Inr n, rd, w) \<Rightarrow> rd_frames x rd = [b]))"

lemma delivers_frame [simp]:
  "delivers x i b (s\<lparr>cs_metrics := m\<rparr>) = delivers x i b s"
  "delivers x i b (s\<lparr>executor_tx := ch\<rparr>) = delivers x i b s"
  by (simp_all add: delivers_def cong: option.case_cong)

lemma seqM_ret: "seqM m (ret ()) = m"
  by (rule ext) (simp add: seqM_def bindM_def ret_def split: prod.splits result.splits)

lemma delivered_read:
  assumes inv: "cl_inv x used peer {} None s" and "delivers x i b s" and dec: "msg_decode x b = Some m"
  obtains c n rd w where "hm_get (connections s) i = Some c" "conn_members_sent c"
    "rd_read x (sock c) (reader c) (registrar s) = (Inr n, rd, w)" "honest_msg peer (sock c) m"
    "cs_read x i s = handle_decoded_message x i m (s\<lparr>connections :=
       hm_insert i (c\<lparr>reader := rd_drop x 1 rd\<rparr>) (connections s), registrar := w\<rparr>)"
    "cl_inv x used peer {} None (s\<lparr>connections :=
       hm_insert i (c\<lparr>reader := rd_drop x 1 rd\<rparr>) (connections s), registrar := w\<rparr>)"
proof -
  obtain c n rd w where c: "hm_get (connections s) i = Some c" "conn_members_sent c"
    and read: "rd_read x (sock c) (reader c) (registrar s) = (Inr n, rd, w)"
    and frames: "rd_frames x rd = [b]"
    using assms(2) by (auto simp: delivers_def split: option.splits prod.splits sum.splits)
  let ?c = "c\<lparr>reader := rd_drop x 1 rd\<rparr>"
  let ?s = "s\<lparr>connections := hm_insert i ?c (connections s), registrar := w\<rparr>"
  have "cl_inv x used peer {} None ?s"
    using ids_freshD(11) [OF cl_invD(1) [OF inv] read]
    by (intro cl_inv_world cl_inv_conn [OF inv c(1)]) simp_all
  moreover have "cs_read x i s = forM [m] (handle_decoded_message x i) ?s"
    using c read frames dec
    by (simp add: cs_read_def members_sent_def decode_messages_def withM_def bindM_def del: forM.simps)
  moreover have "honest_msg peer (sock c) m"
    using honest_peersD [OF cl_invD(2) [OF inv] read, of b m] frames dec by simp
  ultimately show thesis using that [OF c read] by (simp add: seqM_ret)
qed

lemma read_delivered:
  assumes inv: "cl_inv x used peer {} None s" and "delivers x i b s" and dec: "msg_decode x b = Some m"
  shows "\<exists>s1 c. cs_read x i s = handle_decoded_message x i m s1
    \<and> cl_inv x used peer {} None s1 \<and> tables s1 = tables s
    \<and> hm_get (connections s1) i = Some c \<and> conn_members_sent c \<and> honest_msg peer (sock c) m
    \<and> executor_tx s1 = executor_tx s"
proof (rule delivered_read [OF assms], goal_cases)
  case (1 c n rd w)
  let ?c = "c\<lparr>reader := rd_drop x 1 rd\<rparr>"
  from 1 show ?case
    by (intro exI [of _ "s\<lparr>connections := hm_insert i ?c (connections s), registrar := w\<rparr>"]
        exI [of _ ?c]) (simp add: tables_def)
qed

section \<open>Meeting\<close>

lemma send_members_tables: "keeps (\<lambda>s. tables s = t) (send_members x i)"
proof -
  have "keeps (\<lambda>s. tables s = t) (encode_members x i)" "keeps (\<lambda>s. tables s = t) (write_conn x i m)"
    "keeps (\<lambda>s. tables s = t) (update_conn i f)" for m f
    by (auto simp: encode_members_def encode_msg_def write_conn_def update_conn_def tables_def act_defs
        intro!: keepsI split: option.splits prod.splits)
  then show ?thesis unfolding send_members_def by (intro keeps_rules)
qed

lemma members_read_effect:
  assumes inv: "cl_inv x used peer {} None s" and "delivers x i b s"
    and "msg_decode x b = Some (Members n other)" and "hm_get (established s) n = None"
    and "n \<in> set (members_all (set_ops x) (members_join (set_ops x) other (cs_members s)))"
    and "cs_node s \<in> set (members_all (set_ops x) (members_join (set_ops x) other (cs_members s)))"
  shows "\<exists>s'. cs_read x i s = (Ok (), s') \<and> hm_get (established s') n = Some i
    \<and> cs_members s' = members_join (set_ops x) other (cs_members s)"
proof -
  obtain s1 c where s1: "cs_read x i s = handle_decoded_message x i (Members n other) s1"
    "cl_inv x used peer {} None s1" "tables s1 = tables s"
    and c: "hm_get (connections s1) i = Some c" "conn_members_sent c" "n = peer (sock c)"
    using read_delivered [OF assms(1-3)] by (auto simp: honest_msg_def)
  have "hm_get (established s1) n = None" using s1(3) assms(4) by (simp add: tables_def)
  with members_establish_effect [OF s1(2) c(1)] obtain s2 where
    s2: "establish_connection x i n other s1 = (Ok (), s2)" "hm_get (established s2) n = Some i"
      "cs_members s2 = members_join (set_ops x) other (cs_members s1)" "cs_node s2 = cs_node s1"
    by (metis fun_upd_same)
  have "cl_inv x used peer {} (Some (i, sock c)) s2"
    using safeD [OF establish_connection_safe cl_inv_pin [OF s1(2) c(1,2)]] s2(1) c(3) by blast
  then have "cl_inv x used peer {} None s2" by (rule cl_inv_unpin)
  from check_connections_effect [OF this] s1 s2 assms(5,6) show ?thesis
    by (auto simp: tables_def handle_decoded_message_def seqM_def bindM_def)
qed

definition merge_commutes :: "('s, 'd, 'k) orset_ops \<Rightarrow> bool" where
  "merge_commutes ops \<longleftrightarrow> (\<forall>s t. set (os_elements ops (os_join_state ops s t))
     = set (os_elements ops (os_join_state ops t s)))"

lemma merge_commutesD:
  assumes "merge_commutes ops"
  shows "set (members_all ops (members_join ops (members_get_orset m) m'))
    = set (members_all ops (members_join ops (members_get_orset m') m))"
  using assms by (simp add: merge_commutes_def members_all_def members_join_def members_get_orset_def)

section \<open>Two nodes to evaluate it on\<close>

text \<open>
  Node \<open>own\<close>, established with node 3, has accepted connection 8 from node \<open>other\<close>; the frame
  \<open>f\<close> waits on its socket.
\<close>

definition sample_end :: "nat \<Rightarrow> nat \<Rightarrow> bytes \<Rightarrow> sample_cluster" where
  "sample_end own other f = sample_cluster
     \<lparr>cs_node := sample_peer own,
      cs_members := \<lparr>me = sample_peer own, orset = [sample_peer own, sample_peer 3]\<rparr>,
      connections :=
        [(7, the (hm_get (connections sample_cluster) 7)),
         (8, \<lparr>sock = other, conn_node = None, is_client = False, conn_members_sent = False,
            timer_wheel_index = 4, reader = [], writer = []\<rparr>)],
      registrar := \<lparr>next_reg = 9, next_fd = 10, inbox = [(other, f)]\<rparr>\<rparr>"

lemma sample_end_inv:
  "cl_inv (sample_env True) sample_used sample_peer {} None (sample_end own other f)"
proof -
  have "own_slots {} (connections (sample_end own other f)) = own_slots {} (connections sample_cluster)"
    by (rule ext) (simp add: sample_end_def own_slots_def sample_server_def)
  with cl_invD(6) [OF sample_server_inv [of 3]]
  have "wheel.owns (cs_timer_wheel (sample_end own other f))
      (own_slots {} (connections (sample_end own other f)))"
    by (simp add: sample_end_def)
  then show ?thesis
    unfolding cl_inv_def
    by (intro conjI sample_ids_fresh sample_honest)
       (auto simp: sample_end_def sample_server_def hm_ok_def established_ok_def pinned_def
          sample_used_def split: if_splits)
qed

lemma sample_merge_commutes: "merge_commutes sample_set_ops"
  by (auto simp: merge_commutes_def sample_set_ops_def)

text \<open>
  C21: two nodes that open a connection meet. Each sends its members over its end and reads what
  the other sent: then each has established the connection for the other's name, and both have
  the same members. It needs that neither node finds itself or the other removed when the two
  memberships are merged.
\<close>
theorem connected_nodes_meet:
  assumes "cl_inv x used peer {} None a" and "cl_inv y used' peer' {} None b"
    and "hm_get (established a) (cs_node b) = None" and "hm_get (established b) (cs_node a) = None"
    and "carries x y (Members (cs_node a) (members_get_orset (cs_members a))) f"
    and "carries y x (Members (cs_node b) (members_get_orset (cs_members b))) g"
    and "send_members x i a = (Ok (), a1)" and "send_members y j b = (Ok (), b1)"
    and "delivers y j f b1" and "delivers x i g a1"
    and "set_ops y = set_ops x" and "merge_commutes (set_ops x)"
    and "{cs_node a, cs_node b} \<subseteq> set (members_all (set_ops x)
      (members_join (set_ops x) (members_get_orset (cs_members b)) (cs_members a)))"
  shows "\<exists>a2 b2. cs_read x i a1 = (Ok (), a2) \<and> cs_read y j b1 = (Ok (), b2)
    \<and> hm_get (established a2) (cs_node b) = Some i \<and> hm_get (established b2) (cs_node a) = Some j
    \<and> set (members_all (set_ops x) (cs_members a2)) = set (members_all (set_ops x) (cs_members b2))"
proof -
  have a1: "tables a1 = tables a" "cl_inv x used peer {} None a1"
    using keepsD [OF send_members_tables _ assms(7)] safeD [OF send_members_safe assms(1,7)] by blast+
  have b1: "tables b1 = tables b" "cl_inv y used' peer' {} None b1"
    using keepsD [OF send_members_tables _ assms(8)] safeD [OF send_members_safe assms(2,8)] by blast+
  note merged = merge_commutesD [OF assms(12), of "cs_members b" "cs_members a"]
  have "\<exists>a2. cs_read x i a1 = (Ok (), a2) \<and> hm_get (established a2) (cs_node b) = Some i
      \<and> cs_members a2 = members_join (set_ops x) (members_get_orset (cs_members b)) (cs_members a1)"
    using members_read_effect [OF a1(2) assms(10)] assms(3,6,13) a1(1)
    by (simp add: carries_def tables_def)
  moreover have "\<exists>b2. cs_read y j b1 = (Ok (), b2) \<and> hm_get (established b2) (cs_node a) = Some j
      \<and> cs_members b2 = members_join (set_ops y) (members_get_orset (cs_members a)) (cs_members b1)"
    using members_read_effect [OF b1(2) assms(9)] assms(4,5,11,13) b1(1) merged
    by (simp add: carries_def tables_def)
  ultimately show ?thesis using a1(1) b1(1) merged assms(11) by (auto simp: tables_def)
qed

theorem connected_nodes_meet_witness:
  "\<exists>a1 a2 b1 b2. send_members (sample_env True) 8 (sample_end 5 4 [0, 4, 4, 3]) = (Ok (), a1)
    \<and> send_members (sample_env True) 8 (sample_end 4 5 [0, 5, 5, 3]) = (Ok (), b1)
    \<and> cs_read (sample_env True) 8 a1 = (Ok (), a2) \<and> cs_read (sample_env True) 8 b1 = (Ok (), b2)
    \<and> hm_get (established a2) (sample_peer 4) = Some 8
    \<and> hm_get (established b2) (sample_peer 5) = Some 8"
proof -
  let ?a = "sample_end 5 4 [0, 4, 4, 3]" and ?b = "sample_end 4 5 [0, 5, 5, 3]"
  note simps = sample_end_def sample_server_def sample_env_def members_get_orset_def
  obtain a1 where a1: "send_members (sample_env True) 8 ?a = (Ok (), a1)"
    "delivers (sample_env True) 8 [0, 4, 4, 3] a1"
    by (simp add: send_members_def encode_members_def encode_msg_def write_conn_def conn_write_def
        update_conn_def act_defs delivers_def simps sample_encode_def sample_read_def from_peer_def)
  obtain b1 where b1: "send_members (sample_env True) 8 ?b = (Ok (), b1)"
    "delivers (sample_env True) 8 [0, 5, 5, 3] b1"
    by (simp add: send_members_def encode_members_def encode_msg_def write_conn_def conn_write_def
        update_conn_def act_defs delivers_def simps sample_encode_def sample_read_def from_peer_def)
  have carries:
    "carries (sample_env True) (sample_env True) (Members (cs_node ?a) (members_get_orset (cs_members ?a)))
      [0, 5, 5, 3]"
    "carries (sample_env True) (sample_env True) (Members (cs_node ?b) (members_get_orset (cs_members ?b)))
      [0, 4, 4, 3]"
    by (simp_all add: carries_def simps sample_encode_def sample_decode_def sample_index_def sample_peer_def)
  have ops: "set_ops (sample_env True) = sample_set_ops" by (simp add: sample_env_def)
  have members: "{cs_node ?a, cs_node ?b} \<subseteq> set (members_all (set_ops (sample_env True))
      (members_join (set_ops (sample_env True)) (members_get_orset (cs_members ?b)) (cs_members ?a)))"
    by (simp add: simps members_all_def members_join_def sample_set_ops_def)
  have none: "hm_get (established ?a) (cs_node ?b) = None" "hm_get (established ?b) (cs_node ?a) = None"
    by (simp_all add: simps)
  from connected_nodes_meet [OF sample_end_inv sample_end_inv none carries a1(1) b1(1) b1(2) a1(2)
      refl _ members] sample_merge_commutes ops a1(1) b1(1)
  show ?thesis by (auto simp: sample_end_def)
qed

end
