(* ===== verification/Gossip.thy ===== *)
theory Gossip
  imports ClusterPeers
begin

text \<open>
  Gossip of the membership in a cluster of any number of nodes. A node that joins or removes a
  member broadcasts the change as a delta of its membership set; a node that a delta changes
  broadcasts it on. This theory says what one turn of a cluster server does to its set and to
  the frames on its connections.
\<close>

section \<open>Hypotheses\<close>

text \<open>
  The set is a delta CRDT: \<open>le\<close> compares what two sets have seen. A set only grows, joining a
  delta is monotone, a delta that changes nothing was seen before, and the delta an operation
  returns carries what it changed. Sets that have seen the same have the same elements.
\<close>

definition delta_laws :: "('s, 'd, 'k) orset_ops \<Rightarrow> ('s \<Rightarrow> 's \<Rightarrow> bool) \<Rightarrow> bool" where
  "delta_laws ops le \<longleftrightarrow>
     (\<forall>s. le s s) \<and> (\<forall>s t u. le s t \<longrightarrow> le t u \<longrightarrow> le s u) \<and>
     (\<forall>d s. le s (snd (os_join ops d s))) \<and>
     (\<forall>d s t. le s t \<longrightarrow> le (snd (os_join ops d s)) (snd (os_join ops d t))) \<and>
     (\<forall>d s. \<not> fst (os_join ops d s) \<longrightarrow> le (snd (os_join ops d s)) s) \<and>
     (\<forall>e s d s'. os_add ops e s = (d, s') \<longrightarrow> le s s' \<and> le s' (snd (os_join ops d s))) \<and>
     (\<forall>e k s d s'. os_seen ops e s = Some k \<longrightarrow> os_remove ops e k s = (d, s') \<longrightarrow>
        le s s' \<and> le s' (snd (os_join ops d s))) \<and>
     (\<forall>s t. le s t \<longrightarrow> le t s \<longrightarrow> set (os_elements ops s) = set (os_elements ops t))"

lemma delta_lawsD:
  assumes "delta_laws ops le"
  shows "le s s" and "le s t \<Longrightarrow> le t u \<Longrightarrow> le s u"
    and "le s (snd (os_join ops d s))"
    and "le s t \<Longrightarrow> le (snd (os_join ops d s)) (snd (os_join ops d t))"
    and "\<not> fst (os_join ops d s) \<Longrightarrow> le (snd (os_join ops d s)) s"
    and "os_add ops e s = (d, s') \<Longrightarrow> le s s' \<and> le s' (snd (os_join ops d s))"
    and "os_seen ops e s = Some k \<Longrightarrow> os_remove ops e k s = (d, s') \<Longrightarrow>
      le s s' \<and> le s' (snd (os_join ops d s))"
    and "le s t \<Longrightarrow> le t s \<Longrightarrow> set (os_elements ops s) = set (os_elements ops t)"
proof -
  note laws = assms [unfolded delta_laws_def]
  have "\<forall>s. le s s"
    using laws by (elim conjE)
  then show "le s s" by blast
  have "\<forall>s t u. le s t \<longrightarrow> le t u \<longrightarrow> le s u"
    using laws by (elim conjE)
  then show "le s t \<Longrightarrow> le t u \<Longrightarrow> le s u" by blast
  have "\<forall>d s. le s (snd (os_join ops d s))"
    using laws by (elim conjE)
  then show "le s (snd (os_join ops d s))" by blast
  have "\<forall>d s t. le s t \<longrightarrow> le (snd (os_join ops d s)) (snd (os_join ops d t))"
    using laws by (elim conjE)
  then show "le s t \<Longrightarrow> le (snd (os_join ops d s)) (snd (os_join ops d t))" by blast
  have "\<forall>d s. \<not> fst (os_join ops d s) \<longrightarrow> le (snd (os_join ops d s)) s"
    using laws by (elim conjE)
  then show "\<not> fst (os_join ops d s) \<Longrightarrow> le (snd (os_join ops d s)) s" by blast
  have "\<forall>e s d s'. os_add ops e s = (d, s') \<longrightarrow> le s s' \<and> le s' (snd (os_join ops d s))"
    using laws by (elim conjE)
  then show "os_add ops e s = (d, s') \<Longrightarrow> le s s' \<and> le s' (snd (os_join ops d s))" by blast
  have "\<forall>e k s d s'. os_seen ops e s = Some k \<longrightarrow> os_remove ops e k s = (d, s') \<longrightarrow>
      le s s' \<and> le s' (snd (os_join ops d s))"
    using laws by (elim conjE)
  then show "os_seen ops e s = Some k \<Longrightarrow> os_remove ops e k s = (d, s') \<Longrightarrow>
      le s s' \<and> le s' (snd (os_join ops d s))" by blast
  have "\<forall>s t. le s t \<longrightarrow> le t s \<longrightarrow> set (os_elements ops s) = set (os_elements ops t)"
    using laws by (elim conjE)
  then show "le s t \<Longrightarrow> le t s \<Longrightarrow> set (os_elements ops s) = set (os_elements ops t)" by blast
qed

text \<open>
  \<open>wire w sk\<close> are the frames written to a socket so far. A write adds its frame, and no other
  call touches what was written.
\<close>

definition transports ::
    "('t, 'w, 'f, 's, 'd, 'k) cluster_env \<Rightarrow> ('w \<Rightarrow> fd \<Rightarrow> bytes list) \<Rightarrow> bool" where
  "transports x wire \<longleftrightarrow>
     (\<forall>sk b wr w r wr' w'. wr_write x sk (Some b) wr w = (r, wr', w') \<longrightarrow>
        (\<exists>ok. r = Inr ok) \<and> wire w' = (wire w)(sk := wire w sk @ [b])) \<and>
     (\<forall>i sk ev w r w'. rg_reregister x i sk ev w = (r, w') \<longrightarrow> r = Inr () \<and> wire w' = wire w) \<and>
     (\<forall>sk ev w. wire (snd (rg_register x sk ev w)) = wire w) \<and>
     (\<forall>w. wire (snd (sk_new_v4 x w)) = wire w) \<and>
     (\<forall>sk w. wire (snd (sk_to_tcp_stream x sk w)) = wire w) \<and>
     (\<forall>sk w. wire (snd (sk_set_nonblocking x sk w)) = wire w) \<and>
     (\<forall>sk a w. wire (snd (sk_connect x sk a w)) = wire w) \<and>
     (\<forall>sk f w r f' w'. rd_read x sk f w = (r, f', w') \<longrightarrow> wire w' = wire w)"

lemma transportsD:
  assumes "transports x wire"
  shows "wr_write x sk (Some b) wr w = (r, wr', w') \<Longrightarrow> \<exists>ok. r = Inr ok"
    and "wr_write x sk (Some b) wr w = (r, wr', w') \<Longrightarrow> wire w' = (wire w)(sk := wire w sk @ [b])"
    and "rg_reregister x i sk ev w = (r2, w') \<Longrightarrow> r2 = Inr () \<and> wire w' = wire w"
    and "wire (snd (rg_register x sk ev w)) = wire w" "wire (snd (sk_new_v4 x w)) = wire w"
    "wire (snd (sk_to_tcp_stream x sk w)) = wire w" "wire (snd (sk_set_nonblocking x sk w)) = wire w"
    "wire (snd (sk_connect x sk a w)) = wire w"
    and "rd_read x sk f w = (r3, f', w') \<Longrightarrow> wire w' = wire w"
  using assms unfolding transports_def by - (elim conjE; metis)+

text \<open>A frame that encodes a delta decodes to it, and a delta that was decoded can be encoded.\<close>

definition delta_codec :: "('t, 'w, 'f, 's, 'd, 'k) cluster_env \<Rightarrow> bool" where
  "delta_codec x \<longleftrightarrow>
     (\<forall>d b. msg_encode x (DeltaMsg d) = Some b \<longrightarrow> msg_decode x b = Some (DeltaMsg d)) \<and>
     (\<forall>d b. msg_decode x b = Some (DeltaMsg d) \<longrightarrow> msg_encode x (DeltaMsg d) \<noteq> None)"

section \<open>Connections that are broadcast to\<close>

text \<open>The sockets of the connections over which the members were sent.\<close>

definition ready :: "('t, 'q, 'x, 'w, 'f, 's) cluster \<Rightarrow> usize \<Rightarrow> fd option" where
  "ready s i = (case hm_get (connections s) i of
     None \<Rightarrow> None
   | Some c \<Rightarrow> if conn_members_sent c then Some (sock c) else None)"

definition own_sockets :: "('t, 'q, 'x, 'w, 'f, 's) cluster \<Rightarrow> bool" where
  "own_sockets s \<longleftrightarrow> inj_on (ready s) (dom (ready s))"

lemma ready_frame [simp]:
  "ready (s\<lparr>registrar := w\<rparr>) = ready s" "ready (s\<lparr>cs_members := ms\<rparr>) = ready s"
  "ready (s\<lparr>cs_metrics := m\<rparr>) = ready s" "ready (s\<lparr>executor_tx := ch\<rparr>) = ready s"
  "ready (s\<lparr>cs_timer_wheel := tw\<rparr>) = ready s"
  by (simp_all add: ready_def fun_eq_iff cong: option.case_cong)

abbreviation seen_frames :: "(usize \<times> 'f conn) list \<Rightarrow> (usize \<times> fd \<times> bool) list" where
  "seen_frames cs \<equiv> map (\<lambda>(i, c). (i, sock c, conn_members_sent c)) cs"

lemma ready_same:
  fixes s s' :: "('t, 'q, 'x, 'w, 'a, 's) cluster"
  assumes "seen_frames (connections s') = seen_frames (connections s)"
  shows "ready s' = ready s"
proof
  fix i
  have get: "map_option (\<lambda>c. (sock c, conn_members_sent c)) (hm_get cs i) = map_of (seen_frames cs) i"
    for cs :: "(usize \<times> 'a conn) list"
    by (induction cs) auto
  have "ready t i = (case map_of (seen_frames (connections t)) i of None \<Rightarrow> None
      | Some (sk, b) \<Rightarrow> if b then Some sk else None)" for t :: "('t, 'q, 'x, 'w, 'a, 's) cluster"
    by (simp add: ready_def flip: get split: option.splits)
  with assms show "ready s' i = ready s i" by simp
qed

section \<open>A broadcast\<close>

abbreviation sent_socks :: "(usize \<times> 'f conn) list \<Rightarrow> fd list" where
  "sent_socks cs \<equiv> map (\<lambda>(i, c). sock c) (filter (\<lambda>(i, c). conn_members_sent c) cs)"

lemma ready_entry: "hm_ok (connections s) \<Longrightarrow> (i, c) \<in> set (connections s) \<Longrightarrow> conn_members_sent c \<Longrightarrow>
    ready s i = Some (sock c)"
  by (simp add: ready_def hm_get_entry)

lemma ready_entryE:
  assumes "ready s i = Some sk"
  obtains c where "(i, c) \<in> set (connections s)" "conn_members_sent c" "sock c = sk"
  using assms by (auto simp: ready_def dest: map_of_SomeD split: option.splits if_splits)

lemma sent_socks_distinct:
  assumes ok: "hm_ok (connections s)" and "own_sockets s"
  shows "distinct (sent_socks (connections s))"
proof -
  let ?xs = "filter (\<lambda>(i, c). conn_members_sent c) (connections s)"
  have "distinct (connections s)" using ok by (simp add: hm_ok_def distinct_map)
  moreover have "inj_on (\<lambda>(i, c). sock c) (set ?xs)"
  proof (rule inj_onI, clarsimp)
    fix i c j d
    assume c: "(i, c) \<in> set (connections s)" "conn_members_sent c"
      and d: "(j, d) \<in> set (connections s)" "conn_members_sent d" and "sock c = sock d"
    with ready_entry [OF ok c] ready_entry [OF ok d] have "ready s i = ready s j" "i \<in> dom (ready s)"
      "j \<in> dom (ready s)" by auto
    with assms(2) have "i = j" unfolding own_sockets_def by (rule inj_onD)
    with hm_get_entry [OF ok c(1)] hm_get_entry [OF ok d(1)] show "i = j \<and> c = d" by simp
  qed
  ultimately show ?thesis by (simp add: distinct_map)
qed

lemma conn_write_wire:
  assumes "transports x wire" and "conn_write x i c (Some b) w = (r, c', w')"
  shows "r = Inr () \<and> sock c' = sock c \<and> conn_members_sent c' = conn_members_sent c
    \<and> wire w' = (wire w)(sock c := wire w (sock c) @ [b])"
proof -
  obtain q wr v where wr: "wr_write x (sock c) (Some b) (writer c) w = (q, wr, v)"
    by (metis prod_cases3)
  obtain ok where ok: "q = Inr ok" using transportsD(1) [OF assms(1) wr] by blast
  obtain q2 v2 where re: "rg_reregister x i (sock c) Both v = (q2, v2)" by fastforce
  from assms(2) wr ok re transportsD(3) [OF assms(1) re] transportsD(2) [OF assms(1) wr] show ?thesis
    by (auto simp: conn_write_def split: if_splits)
qed

lemma broadcast_wire:
  assumes "transports x wire"
  shows "broadcast_conns x b cs w = (es, cs', w') \<Longrightarrow> distinct (sent_socks cs) \<Longrightarrow>
    es = [] \<and> seen_frames cs' = seen_frames cs
    \<and> wire w' = (\<lambda>sk. if sk \<in> set (sent_socks cs) then wire w sk @ [b] else wire w sk)"
proof (induction cs arbitrary: es cs' w)
  case (Cons ic cs)
  obtain i c where ic: "ic = (i, c)" by fastforce
  from Cons.prems(1) [unfolded ic] show ?case
  proof (cases rule: broadcast_conns_step)
    case (1 es1 cs1)
    with Cons.IH [OF 1(2)] Cons.prems(2) ic show ?thesis by simp
  next
    case (2 r c1 w1 es1 cs1)
    note w1 = conn_write_wire [OF assms 2(2)]
    from 2 Cons.IH [OF 2(3)] Cons.prems(2) ic w1 show ?thesis
      by (auto simp: fun_eq_iff)
  qed
qed simp

lemma broadcast_effect:
  assumes "transports x wire" and "hm_ok (connections s)" and "own_sockets s"
  shows "\<exists>cs w. cs_broadcast x b s = (Ok (), s\<lparr>connections := cs, registrar := w\<rparr>)
    \<and> ready (s\<lparr>connections := cs, registrar := w\<rparr>) = ready s
    \<and> (\<forall>i sk. ready s i = Some sk \<longrightarrow> wire w sk = wire (registrar s) sk @ [b])"
proof -
  obtain es cs w where b: "broadcast_conns x b (connections s) (registrar s) = (es, cs, w)"
    by (metis prod_cases3)
  note sent = broadcast_wire [OF assms(1) b sent_socks_distinct [OF assms(2,3)]]
  have "wire w sk = wire (registrar s) sk @ [b]" if r: "ready s i = Some sk" for i sk
  proof -
    have "sk \<in> set (sent_socks (connections s))" using r by (elim ready_entryE) force
    with sent show ?thesis by simp
  qed
  moreover have "ready (s\<lparr>connections := cs, registrar := w\<rparr>) = ready s"
    using sent by (intro ready_same) simp
  ultimately show ?thesis using b sent
    by (intro exI [of _ cs] exI [of _ w]) (simp add: cs_broadcast_def)
qed

section \<open>Opening a connection\<close>

definition undisturbed ::
    "('t, 'w, 'f, 's, 'd, 'k) cluster_env \<Rightarrow> ('w \<Rightarrow> usize set) \<Rightarrow> (fd \<Rightarrow> node_id)
      \<Rightarrow> ('w \<Rightarrow> fd \<Rightarrow> bytes list) \<Rightarrow> (usize \<Rightarrow> fd option) \<Rightarrow> (fd \<Rightarrow> bytes list) \<Rightarrow> 's members
      \<Rightarrow> ('t, 'q, 'x, 'w, 'f, 's) cluster \<Rightarrow> bool" where
  "undisturbed x used peer wire R W M s \<longleftrightarrow> cl_inv x used peer {} None s \<and> ready s = R
     \<and> wire (registrar s) = W \<and> cs_members s = M"

lemma undisturbed_sysM:
  assumes "grows used f" and "\<And>w. wire (snd (f w)) = wire w"
  shows "keeps (undisturbed x used peer wire R W M) (sysM f)"
proof (rule keepsI, goal_cases)
  case (1 s)
  obtain r w where f: "f (registrar s) = (r, w)" by fastforce
  have "wire w = wire (registrar s)" using assms(2) [of "registrar s"] f by simp
  moreover have "cl_inv x used peer {} None (s\<lparr>registrar := w\<rparr>)"
    using 1 growsD [OF assms(1) f] by (intro cl_inv_world) (simp_all add: undisturbed_def)
  ultimately show ?case using 1 f by (simp add: undisturbed_def sysM_def)
qed

lemma undisturbed_tryIO:
  "grows used f \<Longrightarrow> (\<And>w. wire (snd (f w)) = wire w) \<Longrightarrow>
   keeps (undisturbed x used peer wire R W M) (tryIO f k)"
  unfolding tryIO_def by (auto intro!: keeps_rules undisturbed_sysM split: sum.splits)

text \<open>A new connection has a new id, and its members are not yet sent.\<close>

lemma undisturbed_init:
  assumes "transports x wire"
  shows "keeps (undisturbed x used peer wire R W M) (init_connection x sk n)"
proof (rule keepsI, goal_cases)
  case (1 s)
  then have inv: "cl_inv x used peer {} None s" by (simp add: undisturbed_def)
  obtain r w where reg: "rg_register x sk Read (registrar s) = (r, w)" by fastforce
  have w: "wire w = wire (registrar s)"
    using transportsD(4) [OF assms, of sk Read "registrar s"] reg by simp
  have inv': "cl_inv x used peer {} None (snd (init_connection x sk n s))"
    using safeD [OF init_connection_safe inv prod.collapse [symmetric]] by blast
  show ?case
  proof (cases r)
    case (Inl e)
    with 1 reg w inv' show ?thesis
      by (simp add: undisturbed_def init_connection_def tryIO_def sysM_def act_defs)
  next
    case (Inr i)
    have new: "hm_get (connections s) i = None"
      using ids_freshD(1) [OF cl_invD(1) [OF inv], of sk Read "registrar s" i w] reg Inr
        cl_invD(9) [OF inv, of i] by (cases "hm_get (connections s) i") auto
    obtain slot tw where "tw_insert i (cs_timer_wheel s) = Some (slot, tw)"
      using tw_insert_total [OF cl_inv_wf [OF inv]] by blast
    with reg Inr have s': "snd (init_connection x sk n s) = s\<lparr>registrar := w, cs_timer_wheel := tw,
        connections := hm_insert i ((conn_new x sk n (n \<noteq> None))\<lparr>timer_wheel_index := slot\<rparr>) (connections s)\<rparr>"
      by (simp add: init_connection_def tryIO_def sysM_def wheel_insert_def act_defs)
    have "ready (snd (init_connection x sk n s)) = ready s"
      unfolding s' using new by (simp add: ready_def conn_new_def fun_eq_iff)
    with 1 inv' w show ?thesis unfolding undisturbed_def s' by simp
  qed
qed

lemma undisturbed_connect:
  assumes "transports x wire" and "ids_fresh x used"
  shows "keeps (undisturbed x used peer wire R W M) (connect x n)"
  unfolding connect_def
  by (auto intro!: keeps_rules undisturbed_tryIO undisturbed_sysM undisturbed_init
      ids_fresh_grows [OF assms(2)] simp: transportsD(4-8) [OF assms(1)] assms(1))

lemma connect_errors:
  assumes "connect x n s = (Err e, s')"
  shows "get_ids e = []"
  using assms
  by (auto simp: connect_def init_connection_def tryIO_def sysM_def wheel_insert_def act_defs
      split: prod.splits sum.splits option.splits if_splits)

section \<open>What a turn tells the others\<close>

definition absorb :: "('s, 'd, 'k) orset_ops \<Rightarrow> 'd list \<Rightarrow> 's \<Rightarrow> 's" where
  "absorb ops ds s = fold (\<lambda>d s. snd (os_join ops d s)) ds s"

text \<open>
  \<open>told x le wire ds s s'\<close>: from \<open>s\<close> to \<open>s'\<close> the deltas \<open>ds\<close> were sent on every ready connection,
  in frames that decode to them, and they carry all that was new.
\<close>

definition told ::
    "('t, 'w, 'f, 's, 'd, 'k) cluster_env \<Rightarrow> ('s \<Rightarrow> 's \<Rightarrow> bool) \<Rightarrow> ('w \<Rightarrow> fd \<Rightarrow> bytes list)
      \<Rightarrow> 'd list \<Rightarrow> ('t, 'q, 'x, 'w, 'f, 's) cluster \<Rightarrow> ('t, 'q, 'x, 'w, 'f, 's) cluster \<Rightarrow> bool" where
  "told x le wire ds s s' \<longleftrightarrow> ready s' = ready s
     \<and> (\<exists>fs. map (msg_decode x) fs = map (\<lambda>d. Some (DeltaMsg d)) ds
          \<and> (\<forall>i sk. ready s i = Some sk \<longrightarrow> wire (registrar s') sk = wire (registrar s) sk @ fs))
     \<and> le (orset (cs_members s)) (orset (cs_members s'))
     \<and> le (orset (cs_members s')) (absorb (set_ops x) ds (orset (cs_members s)))"

lemma told_frame:
  "ready t = ready s \<Longrightarrow> wire (registrar t) = wire (registrar s) \<Longrightarrow> cs_members t = cs_members s \<Longrightarrow>
   told x le wire ds t s' \<Longrightarrow> told x le wire ds s s'"
  "ready t = ready s' \<Longrightarrow> wire (registrar t) = wire (registrar s') \<Longrightarrow> cs_members t = cs_members s' \<Longrightarrow>
   told x le wire ds s t \<Longrightarrow> told x le wire ds s s'"
  by (simp_all add: told_def)

text \<open>A delta is broadcast after the set was changed.\<close>

lemma delta_told:
  assumes "transports x wire" and "delta_codec x" and "cl_inv x used peer {} None s" and "own_sockets s"
    and "le (orset (cs_members s)) (orset m)"
    and "le (orset m) (snd (os_join (set_ops x) d (orset (cs_members s))))"
    and "broadcast_delta x d (s\<lparr>cs_members := m\<rparr>) = (r, s')"
  shows "(r = Ok () \<and> told x le wire [d] s s') \<or> (r = Err (EncodeError None None) \<and> msg_encode x (DeltaMsg d) = None)"
proof (cases "msg_encode x (DeltaMsg d)")
  case None
  with assms(7) show ?thesis by (simp add: broadcast_delta_def encode_msg_def act_defs)
next
  case (Some b)
  have "hm_ok (connections (s\<lparr>cs_members := m\<rparr>))" "own_sockets (s\<lparr>cs_members := m\<rparr>)"
    using cl_invD(4) [OF assms(3)] assms(4) by (simp_all add: own_sockets_def)
  from broadcast_effect [OF assms(1) this, of b] obtain cs w where
    s': "cs_broadcast x b (s\<lparr>cs_members := m\<rparr>) = (Ok (), s\<lparr>cs_members := m, connections := cs, registrar := w\<rparr>)"
    "ready (s\<lparr>cs_members := m, connections := cs, registrar := w\<rparr>) = ready s"
    "\<forall>i sk. ready s i = Some sk \<longrightarrow> wire w sk = wire (registrar s) sk @ [b]"
    by auto
  have "msg_decode x b = Some (DeltaMsg d)" using assms(2) Some by (simp add: delta_codec_def)
  with assms(5-7) s' Some show ?thesis
    by (auto simp: told_def absorb_def broadcast_delta_def encode_msg_def act_defs intro!: exI [of _ "[b]"])
qed

text \<open>Handling an error that names no connection changes only a counter.\<close>

lemma quiet_error: "get_ids e = [] \<Longrightarrow> \<exists>m. handle_error x e s = (Ok (), s\<lparr>cs_metrics := m\<rparr>)"
  by (auto simp: handle_error_def bump_def act_defs)

lemma cluster_handle_Running:
  assumes "cluster_handle x m s = (Running, s')"
  obtains "handle_cluster_msg x m s = (Ok (), s')"
  | e s1 where "handle_cluster_msg x m s = (Err e, s1)" "\<not> fatal e" "snd (handle_error x e s1) = s'"
  using assms by (auto simp: cluster_handle_def split: prod.splits result.splits if_splits)

section \<open>Turns\<close>

lemma join_turn_told:
  assumes x: "transports x wire" "delta_codec x" "delta_laws (set_ops x) le"
    and inv: "cl_inv x used peer {} None s" and own: "own_sockets s"
    and run: "cluster_handle x (Join n) s = (Running, s')"
  shows "\<exists>ds. told x le wire ds s s'"
proof -
  let ?s = "s\<lparr>cs_metrics := (cs_metrics s)\<lparr>joins := joins (cs_metrics s) + 1\<rparr>\<rparr>"
  obtain d m where add: "members_add (set_ops x) n (cs_members s) = (d, m)" by fastforce
  then have laws: "le (orset (cs_members ?s)) (orset m)"
    "le (orset m) (snd (os_join (set_ops x) d (orset (cs_members ?s))))"
    using delta_lawsD(6) [OF x(3), of n "orset (cs_members s)"]
    by (auto simp: members_add_def split: prod.splits)
  obtain r s1 where b: "broadcast_delta x d (?s\<lparr>cs_members := m\<rparr>) = (r, s1)" by fastforce
  obtain f where f: "handle_cluster_msg x (Join n) s = (case r of
      Ok u \<Rightarrow> connect x n (s1\<lparr>cs_metrics := f (cs_metrics s1)\<rparr>) | Err e \<Rightarrow> (Err e, s1) | Panic p \<Rightarrow> (Panic p, s1))"
    using add b
    by (auto simp: handle_cluster_msg_def cs_join_def bump_def act_defs split: result.splits prod.splits)
  have inv0: "cl_inv x used peer {} None (?s\<lparr>cs_members := m\<rparr>)" "own_sockets ?s"
    using inv own by (simp_all add: own_sockets_def)
  have inv1: "cl_inv x used peer {} None s1"
    using safeD [OF broadcasts_safe(1) inv0(1) b] by blast
  consider "r = Ok ()" "told x le wire [d] ?s s1" | "r = Err (EncodeError None None)"
    using delta_told [OF x(1,2) _ inv0(2) laws b] inv by auto
  then show ?thesis
  proof cases
    case 1
    let ?s1 = "s1\<lparr>cs_metrics := f (cs_metrics s1)\<rparr>"
    obtain q s2 where q: "connect x n ?s1 = (q, s2)" by fastforce
    have "undisturbed x used peer wire (ready s1) (wire (registrar s1)) (cs_members s1) ?s1"
      using inv1 by (simp add: undisturbed_def)
    from keepsD [OF undisturbed_connect [OF x(1) cl_invD(1) [OF inv]] this q]
    have s2: "ready s1 = ready s2" "wire (registrar s1) = wire (registrar s2)" "cs_members s1 = cs_members s2"
      by (simp_all add: undisturbed_def)
    have "\<exists>k. s' = s2\<lparr>cs_metrics := k\<rparr>"
    proof (rule cluster_handle_Running [OF run])
      assume "handle_cluster_msg x (Join n) s = (Ok (), s')"
      with f q 1(1) have "s' = s2\<lparr>cs_metrics := cs_metrics s2\<rparr>" by simp
      then show ?thesis by blast
    next
      fix e t assume "handle_cluster_msg x (Join n) s = (Err e, t)" "snd (handle_error x e t) = s'"
      with f q 1(1) connect_errors quiet_error [of e x t] show ?thesis by fastforce
    qed
    then obtain k where "s' = s2\<lparr>cs_metrics := k\<rparr>" by blast
    with s2 have "told x le wire [d] ?s s'" by (intro told_frame(2) [OF _ _ _ 1(2)]) simp_all
    then have "told x le wire [d] s s'" by (intro told_frame(1) [of ?s s]) simp_all
    then show ?thesis by blast
  next
    case 2
    with f run show ?thesis by (auto elim: cluster_handle_Running)
  qed
qed

lemma told_nothing: "delta_laws (set_ops x) le \<Longrightarrow> told x le wire [] s s"
  by (simp add: told_def absorb_def delta_lawsD(1))

lemma leave_turn_told:
  assumes x: "transports x wire" "delta_codec x" "delta_laws (set_ops x) le"
    and inv: "cl_inv x used peer {} None s" and own: "own_sockets s"
    and run: "cluster_handle x (Leave n) s = (Running, s')"
  shows "\<exists>ds. told x le wire ds s s'"
proof -
  let ?s = "s\<lparr>cs_metrics := (cs_metrics s)\<lparr>leaves := leaves (cs_metrics s) + 1\<rparr>\<rparr>"
  obtain dl m where lv: "members_leave (set_ops x) n (cs_members s) = (dl, m)" by fastforce
  have h: "handle_cluster_msg x (Leave n) s
      = (case dl of None \<Rightarrow> ret () | Some d \<Rightarrow> broadcast_delta x d) (?s\<lparr>cs_members := m\<rparr>)"
    using lv by (simp add: handle_cluster_msg_def cs_leave_def bump_def act_defs split: option.splits)
  show ?thesis
  proof (cases dl)
    case None
    with lv have "m = cs_members s" by (auto simp: members_leave_def split: option.splits prod.splits)
    with h None run have "s' = ?s\<lparr>cs_members := cs_members s\<rparr>"
      by (auto elim!: cluster_handle_Running simp: ret_def)
    then have "told x le wire [] s s'"
      by (intro told_frame(2) [OF _ _ _ told_nothing [OF x(3)]]) simp_all
    then show ?thesis by blast
  next
    case (Some d)
    obtain k where k: "os_seen (set_ops x) n (orset (cs_members s)) = Some k"
      "os_remove (set_ops x) n k (orset (cs_members s)) = (d, orset m)"
      using lv Some by (auto simp: members_leave_def split: option.splits prod.splits)
    note laws = delta_lawsD(7) [OF x(3) k]
    obtain r s1 where b: "broadcast_delta x d (?s\<lparr>cs_members := m\<rparr>) = (r, s1)" by fastforce
    have inv': "cl_inv x used peer {} None ?s" "own_sockets ?s"
      using inv own by (simp_all add: own_sockets_def)
    have "(r = Ok () \<and> told x le wire [d] ?s s1) \<or> r = Err (EncodeError None None)"
      using delta_told [OF x(1,2) inv' _ _ b] laws by auto
    with h Some b run have "told x le wire [d] ?s s'" by (auto elim!: cluster_handle_Running)
    then have "told x le wire [d] s s'" by (intro told_frame(1) [of ?s s]) simp_all
    then show ?thesis by blast
  qed
qed

text \<open>A delta is read from a connection.\<close>

lemma receive_turn_told:
  assumes x: "transports x wire" "delta_codec x" "delta_laws (set_ops x) le"
    and inv: "cl_inv x used peer {} None s" and own: "own_sockets s"
    and "delivers x j b s" and dec: "msg_decode x b = Some (DeltaMsg d)"
    and j: "j \<notin> {listener_id s, timer_id s, executor_timer_id s}"
    and run: "cluster_handle x (PollNotifications [\<lparr>n_id = j, n_event = Read\<rparr>]) s = (Running, s')"
  shows "told x le wire (if fst (os_join (set_ops x) d (orset (cs_members s))) then [d] else []) s s'
    \<and> le (snd (os_join (set_ops x) d (orset (cs_members s)))) (orset (cs_members s'))"
proof -
  let ?s = "s\<lparr>cs_metrics := (cs_metrics s)\<lparr>poll_notifications := poll_notifications (cs_metrics s) + 1\<rparr>\<rparr>"
  have "cl_inv x used peer {} None ?s" "delivers x j b ?s" using inv assms(6) by simp_all
  then obtain c k rd w where c: "hm_get (connections ?s) j = Some c" "conn_members_sent c"
    and read: "rd_read x (sock c) (reader c) (registrar ?s) = (Inr k, rd, w)"
    and h: "cs_read x j ?s = handle_decoded_message x j (DeltaMsg d) (?s\<lparr>connections :=
       hm_insert j (c\<lparr>reader := rd_drop x 1 rd\<rparr>) (connections ?s), registrar := w\<rparr>)"
    and inv1: "cl_inv x used peer {} None (?s\<lparr>connections :=
       hm_insert j (c\<lparr>reader := rd_drop x 1 rd\<rparr>) (connections ?s), registrar := w\<rparr>)"
    using dec by (rule delivered_read)
  let ?t = "?s\<lparr>connections := hm_insert j (c\<lparr>reader := rd_drop x 1 rd\<rparr>) (connections ?s), registrar := w\<rparr>"
  have t: "ready ?t = ready s" "wire (registrar ?t) = wire (registrar s)" "cs_members ?t = cs_members s"
    using c transportsD(9) [OF x(1) read] by (auto simp: ready_def fun_eq_iff)
  have own1: "own_sockets ?t" using own t(1) by (simp add: own_sockets_def)
  obtain ch m where jd: "members_join_delta (set_ops x) d (cs_members s) = (ch, m)" by fastforce
  have oj: "os_join (set_ops x) d (orset (cs_members s)) = (ch, orset m)"
    using jd by (auto simp: members_join_delta_def split: prod.splits)
  have turn: "cluster_handle x (PollNotifications [\<lparr>n_id = j, n_event = Read\<rparr>]) s
      = (case cs_read x j ?s of
           (Ok u, s1) \<Rightarrow> (Running, s1)
         | (Err e, s1) \<Rightarrow> (case handle_error x (PollNotificationErrors [e]) s1 of
             (Panic p, s2) \<Rightarrow> (Crashed p, s2) | (_, s2) \<Rightarrow> (Running, s2))
         | (Panic p, s1) \<Rightarrow> (Crashed p, s1))"
    using j by (simp add: cluster_handle_def handle_cluster_msg_def handle_poll_notifications_def
        handle_notification_def do_socket_io_def bump_def act_defs split: prod.splits result.splits)
  have msg: "cs_read x j ?s = (if ch then broadcast_delta x d else ret ()) (?t\<lparr>cs_members := m\<rparr>)"
    unfolding h using jd t(3) by (simp add: handle_decoded_message_def withM_def seq_mod)
  show ?thesis
  proof (cases ch)
    case False
    then have s': "s' = ?t\<lparr>cs_members := m\<rparr>" using turn msg run by (simp add: ret_def)
    have "le (orset m) (orset (cs_members s))" "le (orset (cs_members s)) (orset m)"
      using delta_lawsD(5) [OF x(3), of d "orset (cs_members s)"]
        delta_lawsD(3) [OF x(3), of "orset (cs_members s)" d] oj False by simp_all
    moreover have "ready s' = ready s" "wire (registrar s') = wire (registrar s)" "cs_members s' = m"
      unfolding s' using t by simp_all
    ultimately have "told x le wire [] s s'" by (simp add: told_def absorb_def)
    with oj s' delta_lawsD(1) [OF x(3)] False show ?thesis by simp
  next
    case True
    obtain r s1 where b: "broadcast_delta x d (?t\<lparr>cs_members := m\<rparr>) = (r, s1)" by fastforce
    have "le (orset (cs_members ?t)) (orset m)"
      "le (orset m) (snd (os_join (set_ops x) d (orset (cs_members ?t))))"
      using delta_lawsD(1,3) [OF x(3)] oj t(3) by (metis snd_conv)+
    moreover have "msg_encode x (DeltaMsg d) \<noteq> None" using x(2) dec unfolding delta_codec_def by blast
    ultimately have r: "r = Ok ()" "told x le wire [d] ?t s1" "cs_members s1 = m"
      using delta_told [OF x(1,2) inv1 own1 _ _ b] keepsD [OF broadcast_delta_members _ b, of m] by auto
    then have "s1 = s'" using turn msg b True run by simp
    with r(2) t have "told x le wire [d] s s'" by (intro told_frame(1) [of ?t s]) simp_all
    with r(3) \<open>s1 = s'\<close> oj delta_lawsD(1) [OF x(3)] True show ?thesis by simp
  qed
qed

end
