(* ===== verification/ChainCluster.thy ===== *)
theory ChainCluster
  imports ChainActors Gossip
begin

text \<open>
  What one turn of a cluster server does to the operations of a chain that is spread over nodes:
  it writes a frame for one that its executor hands it, hands its executor one that a frame
  brings, and has no others to tell of.
\<close>

section \<open>Hypotheses\<close>

text \<open>
  Besides the frames of \<open>transports\<close>, nothing that is done to a socket changes what was written to
  it; and the other side decodes what was encoded.
\<close>

definition wires ::
    "('t, 'w, 'f, 's, 'd, 'k) cluster_env \<Rightarrow> ('w \<Rightarrow> fd \<Rightarrow> bytes list) \<Rightarrow> bool" where
  "wires x wire \<longleftrightarrow> transports x wire
     \<and> (\<forall>sk w. wire (snd (rg_deregister x sk w)) = wire w)
     \<and> (\<forall>sk wr w r wr' w'. wr_write x sk None wr w = (r, wr', w') \<longrightarrow> wire w' = wire w)"

definition decodes_back :: "('t, 'w, 'f, 's, 'd, 'k) cluster_env \<Rightarrow> bool" where
  "decodes_back x \<longleftrightarrow> (\<forall>m b. msg_encode x m = Some b \<longrightarrow> msg_decode x b = Some m)"

lemma keeps_snd: "keeps P m \<Longrightarrow> P s \<Longrightarrow> P (snd (m s))"
  by (rule keepsD [of P m s "fst (m s)"]) simp_all

section \<open>Turns that leave the chain aside\<close>

definition plain_frame ::
    "(rabble_user_msg, 'w, 'f, 's, 'd, 'k) cluster_env \<Rightarrow> pid list \<Rightarrow> bytes \<Rightarrow> bool" where
  "plain_frame x ps f \<longleftrightarrow> (\<forall>env. msg_decode x f = Some (RemoteEnvelope env) \<longrightarrow> \<not> inner ps env)"

text \<open>\<open>W\<close> was written and \<open>E\<close> was sent before; what came after are no operations of the chain.\<close>

definition aside ::
    "(rabble_user_msg, 'w, 'f, 's, 'd, 'k) cluster_env \<Rightarrow> ('w \<Rightarrow> fd \<Rightarrow> bytes list) \<Rightarrow> pid list
      \<Rightarrow> (fd \<Rightarrow> bytes list) \<Rightarrow> (rabble_user_msg, replica, 'x) executor_msg list
      \<Rightarrow> (rabble_user_msg, replica, 'x, 'w, 'f, 's) cluster \<Rightarrow> bool" where
  "aside x wire ps W E s \<longleftrightarrow>
     (\<forall>sk. \<exists>fs. wire (registrar s) sk = W sk @ fs \<and> list_all (plain_frame x ps) fs)
     \<and> (\<exists>ms. sent (executor_tx s) = E @ ms \<and> list_all (quiet ps) ms)"

lemma aside_refl: "aside x wire ps (wire (registrar s)) (sent (executor_tx s)) s"
  by (simp add: aside_def)

lemma aside_frame [simp]:
  "aside x wire ps W E (s\<lparr>connections := cs\<rparr>) = aside x wire ps W E s"
  "aside x wire ps W E (s\<lparr>established := es\<rparr>) = aside x wire ps W E s"
  "aside x wire ps W E (s\<lparr>cs_timer_wheel := tw\<rparr>) = aside x wire ps W E s"
  "aside x wire ps W E (s\<lparr>cs_members := ms\<rparr>) = aside x wire ps W E s"
  "aside x wire ps W E (s\<lparr>cs_metrics := m\<rparr>) = aside x wire ps W E s"
  "aside x wire ps W E (s\<lparr>listener := l\<rparr>) = aside x wire ps W E s"
  by (simp_all add: aside_def)

lemma aside_world:
  "aside x wire ps W E s \<Longrightarrow> wire w = wire (registrar s) \<Longrightarrow> aside x wire ps W E (s\<lparr>registrar := w\<rparr>)"
  by (simp add: aside_def)

lemma aside_write:
  assumes "aside x wire ps W E s" and "\<And>sk. \<exists>fs. wire w sk = wire (registrar s) sk @ fs \<and> list_all (plain_frame x ps) fs"
  shows "aside x wire ps W E (s\<lparr>connections := cs, registrar := w\<rparr>)"
  using assms unfolding aside_def by (simp, metis append.assoc list_all_append)

named_theorems aside_rules "operations that leave the chain aside"

lemma wiresD:
  assumes "wires x wire"
  shows "transports x wire" "wire (snd (rg_deregister x sk w)) = wire w"
    "wr_write x sk None wr w = (r, wr', w') \<Longrightarrow> wire w' = wire w"
  using assms unfolding wires_def by blast+

lemma aside_sysM: "(\<And>w. wire (snd (f w)) = wire w) \<Longrightarrow> keeps (aside x wire ps W E) (sysM f)"
  by (rule keepsI) (auto simp: sysM_def split: prod.splits intro!: aside_world, metis snd_conv)

lemma aside_tryIO: "(\<And>w. wire (snd (f w)) = wire w) \<Longrightarrow> keeps (aside x wire ps W E) (tryIO f k)"
  unfolding tryIO_def by (auto intro!: keeps_rules aside_sysM split: sum.splits)

lemma aside_leaves [aside_rules]:
  "keeps (aside x wire ps W E) (wheel_insert i)" "keeps (aside x wire ps W E) (wheel_remove i k)"
  "keeps (aside x wire ps W E) cs_wheel_expire" "keeps (aside x wire ps W E) (encode_msg y m e)"
  "keeps (aside x wire ps W E) (bump g)" "keeps (aside x wire ps W E) (update_conn i h)"
  by (auto intro!: keepsI simp: wheel_insert_def wheel_remove_def cs_wheel_expire_def
      encode_msg_def bump_def update_conn_def act_defs split: prod.splits option.splits)

lemma aside_executor_send: "quiet ps m \<Longrightarrow> keeps (aside x wire ps W E) (executor_send m)"
  by (rule keepsI) (auto simp: executor_send_def chan_send_def aside_def)

lemma aside_mod: "(\<And>s. aside x wire ps W E (f s) = aside x wire ps W E s) \<Longrightarrow> keeps (aside x wire ps W E) (modM f)"
  by (rule keeps_mod) simp

definition plain_write where
  "plain_write x ps m \<longleftrightarrow> (\<forall>b. m = Some b \<longrightarrow> plain_frame x ps b)"

lemma conn_write_plain:
  assumes x: "wires x wire" and b: "plain_write x ps m" and run: "conn_write x i c m w = (r, c', w')"
  shows "\<exists>fs. wire w' sk = wire w sk @ fs \<and> list_all (plain_frame x ps) fs"
proof -
  obtain r1 wr w1 where wr: "wr_write x (sock c) m (writer c) w = (r1, wr, w1)" by (metis prod_cases3)
  have w1: "\<exists>fs. wire w1 sk = wire w sk @ fs \<and> list_all (plain_frame x ps) fs"
  proof (cases m)
    case None
    with wr wiresD(3) [OF x] show ?thesis by simp
  next
    case (Some f)
    with wr transportsD(2) [OF wiresD(1) [OF x]] b show ?thesis by (auto simp: plain_write_def)
  qed
  obtain r2 w2 where re: "rg_reregister x i (sock c) Both w1 = (r2, w2)" by fastforce
  have "wire w' = wire w1"
    using run wr re transportsD(3) [OF wiresD(1) [OF x] re]
    by (auto simp: conn_write_def split: sum.splits if_splits)
  with w1 show ?thesis by simp
qed

lemma aside_write_conn:
  assumes "wires x wire" and "plain_write x ps m"
  shows "keeps (aside x wire ps W E) (write_conn x i m)"
proof (rule keepsI, goal_cases)
  case (1 s)
  show ?case
    using 1 conn_write_plain [OF assms]
    by (auto simp: write_conn_def split: option.splits prod.splits)
       (rule aside_write; blast)
qed

lemma broadcast_plain:
  assumes "wires x wire" and "plain_frame x ps b"
  shows "broadcast_conns x b cs w = (es, cs', w') \<Longrightarrow>
    \<exists>fs. wire w' sk = wire w sk @ fs \<and> list_all (plain_frame x ps) fs"
proof (induction cs arbitrary: es cs' w)
  case (Cons ic cs)
  obtain i c where ic: "ic = (i, c)" by fastforce
  from Cons.prems [unfolded ic] show ?case
  proof (cases rule: broadcast_conns_step)
    case (2 r c1 w1 es1 cs1)
    have "plain_write x ps (Some b)" using assms(2) by (simp add: plain_write_def)
    from conn_write_plain [OF assms(1) this 2(2), of sk] Cons.IH [OF 2(3)] show ?thesis
      by (metis append.assoc list_all_append)
  qed (use Cons.IH in auto)
qed simp

lemma aside_broadcast:
  assumes "wires x wire" and "plain_frame x ps b"
  shows "keeps (aside x wire ps W E) (cs_broadcast x b)"
proof (rule keepsI, goal_cases)
  case (1 s)
  show ?case
    using 1 broadcast_plain [OF assms]
    by (auto simp: cs_broadcast_def split: prod.splits) (rule aside_write; blast)
qed

section \<open>Operations of the cluster server\<close>

lemma plain_encoded:
  "decodes_back x \<Longrightarrow> msg_encode x m = Some b \<Longrightarrow> (\<And>env. m = RemoteEnvelope env \<Longrightarrow> \<not> inner ps env) \<Longrightarrow>
   plain_frame x ps b"
  by (auto simp: decodes_back_def plain_frame_def)

lemma encode_msgD: "encode_msg x m k s = (Ok b, s') \<Longrightarrow> msg_encode x m = Some b"
  by (simp add: encode_msg_def act_defs split: option.splits)

lemma aside_broadcasts [aside_rules]:
  assumes "wires x wire" and "decodes_back x"
  shows "keeps (aside x wire ps W E) (broadcast_delta x d)" "keeps (aside x wire ps W E) (broadcast_pings x)"
  unfolding broadcast_delta_def broadcast_pings_def
  by (auto intro!: keeps_bind_result aside_rules aside_broadcast assms plain_encoded [OF assms(2)]
      dest!: encode_msgD)

lemma encode_membersD: "encode_members x i s = (Ok b, s') \<Longrightarrow> \<exists>n o'. msg_encode x (Members n o') = Some b"
  by (auto simp: encode_members_def withM_def dest: encode_msgD)

lemma aside_send_members [aside_rules]:
  assumes "wires x wire" and "decodes_back x"
  shows "keeps (aside x wire ps W E) (send_members x i)"
proof -
  have "keeps (aside x wire ps W E) (encode_members x i)"
    unfolding encode_members_def by (intro keeps_rules aside_rules)
  moreover have "plain_write x ps (Some b)" if "encode_members x i s = (Ok b, s')" for b s s'
    using encode_membersD [OF that] plain_encoded [OF assms(2)] by (auto simp: plain_write_def)
  ultimately show ?thesis
    unfolding send_members_def
    by (intro keeps_bind_result keeps_seq aside_write_conn assms(1) aside_rules)
qed

lemma aside_cs_write [aside_rules]:
  assumes "wires x wire" and "plain_write x ps m"
  shows "keeps (aside x wire ps W E) (cs_write x i m)"
proof -
  have "keeps (aside x wire ps W E) (tryIO (rg_reregister x i sk Read) k)" for sk k
    using transportsD(3) [OF wiresD(1) [OF assms(1)], of i sk Read]
    by (intro aside_tryIO) (metis prod.collapse)
  moreover have "keeps (aside x wire ps W E) (write_conn x i m)" by (rule aside_write_conn [OF assms])
  ultimately show ?thesis
    unfolding cs_write_def by (auto intro!: keeps_rules aside_rules split: option.splits)
qed

lemma aside_connect [aside_rules]:
  assumes "wires x wire"
  shows "keeps (aside x wire ps W E) (init_connection x sk k)" "keeps (aside x wire ps W E) (connect x n)"
proof -
  note t = transportsD(4-8) [OF wiresD(1) [OF assms]]
  have *: "keeps (aside x wire ps W E) (init_connection x sk k)" for sk k
    unfolding init_connection_def by (intro keeps_rules aside_rules aside_mod aside_tryIO t) simp
  then show "keeps (aside x wire ps W E) (init_connection x sk k)" .
  show "keeps (aside x wire ps W E) (connect x n)"
    unfolding connect_def by (auto intro!: keeps_rules aside_tryIO aside_sysM * simp: t)
qed

lemma aside_accept_loop [aside_rules]:
  assumes "wires x wire" and "decodes_back x"
  shows "keeps (aside x wire ps W E) (accept_loop x l)"
  using assms
  by (induction l rule: accept_loop.induct)
     (auto intro!: keeps_rules aside_rules aside_mod aside_tryIO
      simp: transportsD(6,7) [OF wiresD(1)])

lemma aside_cs_close [aside_rules]:
  assumes "wires x wire"
  shows "keeps (aside x wire ps W E) (cs_close x i)"
  unfolding cs_close_def
  by (auto intro!: keeps_rules aside_rules aside_mod aside_sysM
      simp: wiresD(2) [OF assms] split: option.splits if_splits)

lemma aside_establish [aside_rules]:
  assumes "wires x wire"
  shows "keeps (aside x wire ps W E) (mark_established i n)"
    "keeps (aside x wire ps W E) (establish_connection x i n other)"
    "keeps (aside x wire ps W E) (reset_timer i)"
  unfolding establish_connection_def mark_established_def reset_timer_def
  by (auto intro!: keeps_rules aside_rules aside_mod assms split: option.splits)

lemma aside_disconnect [aside_rules]:
  assumes "wires x wire"
  shows "keeps (aside x wire ps W E) (disconnect_all x)" "keeps (aside x wire ps W E) (disconnect_node x n)"
    "keeps (aside x wire ps W E) (disconnect_established x ns)"
  unfolding disconnect_all_def disconnect_established_def disconnect_node_def
  by (auto intro!: keeps_rules aside_rules aside_mod aside_sysM
      simp: wiresD(2) [OF assms] split: option.splits sum.splits)

lemma aside_membership [aside_rules]:
  assumes "wires x wire" and "decodes_back x"
  shows "keeps (aside x wire ps W E) (check_connections x)" "keeps (aside x wire ps W E) (cs_join x n)"
    "keeps (aside x wire ps W E) (cs_leave x n)" "keeps (aside x wire ps W E) (cs_tick x)"
  unfolding check_connections_def Let_def cs_join_def cs_leave_def cs_tick_def cs_deregister_def
  by (auto intro!: keeps_rules aside_rules aside_mod assms split: prod.splits option.splits)

lemma aside_send_remote:
  assumes "wires x wire" and "decodes_back x" and "\<not> inner ps env"
  shows "keeps (aside x wire ps W E) (send_remote x env)"
  unfolding send_remote_def
  by (auto intro!: keeps_with keeps_ret keeps_bind_result aside_rules assms(1)
      dest!: encode_msgD plain_encoded [OF assms(2), where ps = ps] simp: plain_write_def assms(3)
      split: option.splits)

lemma aside_replies [aside_rules]:
  "keeps (aside x wire ps W E) (cs_get_status y cid)" "keeps (aside x wire ps W E) (cs_send_metrics env)"
  "keeps (aside x wire ps W E) tick_executor"
  unfolding cs_get_status_def cs_send_metrics_def tick_executor_def
  by (auto intro!: keeps_rules aside_executor_send simp: inner_def split: msg.splits)

lemma aside_decoded:
  assumes "wires x wire" and "decodes_back x" and "\<And>env. m = RemoteEnvelope env \<Longrightarrow> \<not> inner ps env"
  shows "keeps (aside x wire ps W E) (handle_decoded_message x i m)"
  using assms(3) unfolding handle_decoded_message_def
  by (cases m)
     (auto intro!: keeps_rules aside_rules aside_mod aside_executor_send assms(1,2) split: prod.splits)

section \<open>Turns of the cluster server\<close>

text \<open>
  Messages that have to do with no operation of the chain: among the notifications, those of a
  timer, of the listener, of a socket that can be written, and of a frame with something else.
\<close>

definition own_id :: "('t, 'q, 'x, 'w, 'f, 's) cluster \<Rightarrow> usize \<Rightarrow> bool" where
  "own_id s j \<longleftrightarrow> j \<in> {listener_id s, timer_id s, executor_timer_id s}"

fun harmless ::
    "(rabble_user_msg, 'w, 'f, 's, 'd, 'k) cluster_env \<Rightarrow> pid list
      \<Rightarrow> (rabble_user_msg, 'q, 'x, 'w, 'f, 's) cluster \<Rightarrow> rabble_user_msg cluster_msg \<Rightarrow> bool" where
  "harmless x ps s (PollNotifications ns) \<longleftrightarrow> (\<forall>nt \<in> set ns. n_event nt = Write) \<or>
     (\<exists>nt. ns = [nt] \<and> (own_id s (n_id nt) \<or> members_sent (n_id nt) s \<noteq> Some True
        \<or> (\<exists>f. delivers x (n_id nt) f s \<and> plain_frame x ps f)))"
| "harmless x ps s (ClusterEnvelope env) \<longleftrightarrow> \<not> inner ps env"
| "harmless x ps s m \<longleftrightarrow> True"

lemma forM_one: "forM [m] f = f m"
  by (simp add: seqM_ret)

lemma delivered_frame:
  assumes "delivers x i b s"
  obtains c n rd w where "hm_get (connections s) i = Some c"
    "rd_read x (sock c) (reader c) (registrar s) = (Inr n, rd, w)"
    "cs_read x i s = (case msg_decode x b of
        None \<Rightarrow> (Err (DecodeError i (conn_node c)), s\<lparr>connections :=
          hm_insert i (c\<lparr>reader := rd_drop x 1 rd\<rparr>) (connections s), registrar := w\<rparr>)
      | Some m \<Rightarrow> handle_decoded_message x i m (s\<lparr>connections :=
          hm_insert i (c\<lparr>reader := rd_drop x 1 rd\<rparr>) (connections s), registrar := w\<rparr>))"
proof -
  obtain c n rd w where c: "hm_get (connections s) i = Some c" "conn_members_sent c"
    and read: "rd_read x (sock c) (reader c) (registrar s) = (Inr n, rd, w)" "rd_frames x rd = [b]"
    using assms by (auto simp: delivers_def split: option.splits prod.splits sum.splits)
  then have "cs_read x i s = (case msg_decode x b of
        None \<Rightarrow> (Err (DecodeError i (conn_node c)), s\<lparr>connections :=
          hm_insert i (c\<lparr>reader := rd_drop x 1 rd\<rparr>) (connections s), registrar := w\<rparr>)
      | Some m \<Rightarrow> forM [m] (handle_decoded_message x i) (s\<lparr>connections :=
          hm_insert i (c\<lparr>reader := rd_drop x 1 rd\<rparr>) (connections s), registrar := w\<rparr>))"
    by (simp add: cs_read_def members_sent_def decode_messages_def withM_def bindM_def del: forM.simps
        split: option.splits)
  with that [OF c(1) read(1)] show thesis by (simp only: forM_one cong: option.case_cong)
qed

lemma aside_read:
  assumes x: "wires x wire" "decodes_back x" and s: "aside x wire ps W E s"
    and h: "members_sent i s \<noteq> Some True \<or> (\<exists>f. delivers x i f s \<and> plain_frame x ps f)"
  shows "aside x wire ps W E (snd (cs_read x i s))"
proof (cases "\<exists>f. delivers x i f s \<and> plain_frame x ps f")
  case True
  then obtain f where f: "delivers x i f s" "plain_frame x ps f" by blast
  show ?thesis
  proof (rule delivered_frame [OF f(1)], goal_cases)
    case (1 c n rd w)
    have t: "aside x wire ps W E (s\<lparr>connections :=
        hm_insert i (c\<lparr>reader := rd_drop x 1 rd\<rparr>) (connections s), registrar := w\<rparr>)"
      using transportsD(9) [OF wiresD(1) [OF x(1)] 1(2)] by (intro aside_write [OF s]) simp
    show ?case
    proof (cases "msg_decode x f")
      case (Some m)
      have "keeps (aside x wire ps W E) (handle_decoded_message x i m)"
        using f(2) Some by (intro aside_decoded [OF x]) (simp add: plain_frame_def)
      from keeps_snd [OF this t] 1 Some show ?thesis by simp
    qed (use 1 t in simp)
  qed
next
  case False
  with h have "members_sent i s = None \<or> members_sent i s = Some False"
    by (cases "members_sent i s") auto
  then show ?thesis
    using s keeps_snd [OF aside_send_members [OF x] s]
    by (auto simp: cs_read_def withM_def ret_def)
qed

lemma aside_then:
  assumes "aside x wire ps W E (snd (m s))" and "keeps (aside x wire ps W E) k"
  shows "aside x wire ps W E (snd (seqM m k s))"
proof -
  obtain r s1 where m: "m s = (r, s1)" by fastforce
  with assms(1) keeps_snd [OF assms(2), of s1] show ?thesis
    by (cases r) (auto simp: act_defs)
qed

lemma aside_notification_own:
  assumes x: "wires x wire" "decodes_back x"
  shows "own_id s (n_id nt) \<or> n_event nt = Write \<Longrightarrow> aside x wire ps W E s \<Longrightarrow>
    aside x wire ps W E (snd (handle_notification x nt s))"
proof -
  have w: "keeps (aside x wire ps W E) (cs_write x i None)" for i
    using x(1) by (intro aside_cs_write) (simp_all add: plain_write_def)
  have a: "keeps (aside x wire ps W E) (accept_connection x)"
    unfolding accept_connection_def by (intro keeps_rules aside_rules x)
  note k = a aside_membership(4) [OF x] aside_replies(3) w
  show "aside x wire ps W E (snd (handle_notification x nt s))"
    if "own_id s (n_id nt) \<or> n_event nt = Write" "aside x wire ps W E s"
    using that k [THEN keeps_snd, OF that(2)]
    by (auto simp: handle_notification_def own_id_def withM_def do_socket_io_def)
qed

lemma aside_socket:
  assumes x: "wires x wire" "decodes_back x" and "aside x wire ps W E (snd (cs_read x (n_id nt) s))"
    and "n_event nt \<noteq> Write" and "\<not> own_id s (n_id nt)"
  shows "aside x wire ps W E (snd (handle_notification x nt s))"
proof -
  have w: "keeps (aside x wire ps W E) (cs_write x i None)" for i
    using x(1) by (intro aside_cs_write) (simp_all add: plain_write_def)
  show ?thesis
    using assms(3-5) aside_then [where m = "cs_read x (n_id nt)" and s = s, OF assms(3) w]
    by (cases "n_event nt") (auto simp: handle_notification_def own_id_def withM_def do_socket_io_def)
qed

lemma aside_batch:
  assumes "aside x wire ps W E (snd (handle_notification x nt s))"
  shows "aside x wire ps W E (snd (handle_poll_notifications x [nt] s))"
  using assms
  by (auto simp: handle_poll_notifications_def act_defs split: prod.splits result.splits)

lemma aside_writable:
  assumes x: "wires x wire" "decodes_back x" and ns: "\<forall>nt \<in> set ns. n_event nt = Write"
  shows "keeps (aside x wire ps W E) (handle_poll_notifications x ns)"
proof -
  have "keeps (aside x wire ps W E) (handle_notification x nt)" if "n_event nt = Write" for nt
    using that by (intro keepsI aside_notification_own [OF x]) simp_all
  with ns show ?thesis unfolding handle_poll_notifications_def by (auto intro!: keeps_rules)
qed

lemma aside_handled:
  assumes x: "wires x wire" "decodes_back x" and h: "harmless x ps s m" and s: "aside x wire ps W E s"
  shows "aside x wire ps W E (snd (handle_cluster_msg x m s))"
proof (cases m)
  case (PollNotifications ns)
  let ?s = "s\<lparr>cs_metrics := (cs_metrics s)\<lparr>poll_notifications := poll_notifications (cs_metrics s) + 1\<rparr>\<rparr>"
  have s1: "aside x wire ps W E ?s" using s by simp
  have "aside x wire ps W E (snd (handle_poll_notifications x ns ?s))"
  proof (cases "\<forall>nt \<in> set ns. n_event nt = Write")
    case True
    from keeps_snd [OF aside_writable [OF x this] s1] show ?thesis .
  next
    case False
    then have "\<exists>nt. ns = [nt] \<and> (own_id s (n_id nt) \<or> members_sent (n_id nt) s \<noteq> Some True
        \<or> (\<exists>f. delivers x (n_id nt) f s \<and> plain_frame x ps f))"
      using h [unfolded PollNotifications harmless.simps] by (elim disjE) blast+
    then obtain nt where nt: "ns = [nt]" and c: "own_id s (n_id nt) \<or> members_sent (n_id nt) s \<noteq> Some True
        \<or> (\<exists>f. delivers x (n_id nt) f s \<and> plain_frame x ps f)" by blast
    have ev: "n_event nt \<noteq> Write" using False nt by simp
    have ids: "own_id ?s (n_id nt) = own_id s (n_id nt)" "members_sent (n_id nt) ?s = members_sent (n_id nt) s"
      by (simp_all add: own_id_def members_sent_def)
    show ?thesis
    proof (cases "own_id s (n_id nt)")
      case True
      with aside_notification_own [OF x _ s1] ids show ?thesis unfolding nt by (intro aside_batch) simp
    next
      case False
      with c ids have "aside x wire ps W E (snd (cs_read x (n_id nt) ?s))"
        by (intro aside_read [OF x s1]) auto
      from aside_socket [OF x this ev] False ids show ?thesis unfolding nt by (intro aside_batch) simp
    qed
  qed
  with PollNotifications show ?thesis by (simp add: handle_cluster_msg_def bump_def act_defs)
next
  case (ClusterEnvelope env)
  have "keeps (aside x wire ps W E) (handle_cluster_msg x m)"
    using h unfolding ClusterEnvelope handle_cluster_msg_def
    by (auto intro!: keeps_rules aside_rules aside_send_remote x)
  from keeps_snd [OF this s] show ?thesis .
next
  case ClusterShutdown
  with s show ?thesis by (simp add: handle_cluster_msg_def act_defs)
qed (auto simp: handle_cluster_msg_def intro!: keeps_snd [where P = "aside x wire ps W E", OF _ s] keeps_rules aside_rules x)

lemma aside_turn:
  assumes x: "wires x wire" "decodes_back x" and s: "aside x wire ps W E (snd (handle_cluster_msg x m s))"
    and run: "cluster_handle x m s = (st, s')"
  shows "aside x wire ps W E s'"
proof -
  have e: "keeps (aside x wire ps W E) (handle_error x e)" for e
    unfolding handle_error_def by (intro keeps_rules aside_rules x)
  obtain r s1 where h: "handle_cluster_msg x m s = (r, s1)" by fastforce
  with run s keepsD [OF e] show ?thesis
    by (cases r) (auto simp: cluster_handle_def split: prod.splits result.splits)
qed

lemma harmless_turn:
  assumes "wires x wire" and "decodes_back x" and "harmless x ps s m"
    and "cluster_handle x m s = (st, s')"
  shows "aside x wire ps (wire (registrar s)) (sent (executor_tx s)) s'"
  using aside_turn [OF assms(1,2) aside_handled [OF assms(1-3) aside_refl] assms(4)] .

text \<open>A frame with an operation hands it to the executor.\<close>

lemma carried_in_turn:
  assumes x: "wires x wire" "decodes_back x" and f: "delivers x (n_id nt) f s"
    and d: "msg_decode x f = Some (RemoteEnvelope env)" and up: "rx_alive (executor_tx s)"
    and nt: "n_event nt \<noteq> Write" "\<not> own_id s (n_id nt)"
    and run: "cluster_handle x (PollNotifications [nt]) s = (st, s')"
  shows "aside x wire ps (wire (registrar s)) (sent (executor_tx s) @ [ExecEnvelope env]) s'"
proof (rule aside_turn [OF x _ run])
  let ?j = "n_id nt" and ?s = "s\<lparr>cs_metrics := (cs_metrics s)\<lparr>poll_notifications := poll_notifications (cs_metrics s) + 1\<rparr>\<rparr>"
  let ?E = "sent (executor_tx s) @ [ExecEnvelope env]"
  have f': "delivers x ?j f ?s" using f by simp
  have "aside x wire ps (wire (registrar s)) ?E (snd (cs_read x ?j ?s))"
  proof (rule delivered_frame [OF f'], goal_cases)
    case (1 c n rd w)
    have "wire w = wire (registrar s)"
      using transportsD(9) [OF wiresD(1) [OF x(1)] 1(2)] by simp
    with 1 d up show ?case
      by (simp add: aside_def handle_decoded_message_def executor_send_def chan_send_def bump_def act_defs)
  qed
  then have "aside x wire ps (wire (registrar s)) ?E (snd (handle_poll_notifications x [nt] ?s))"
    using nt by (intro aside_batch aside_socket [OF x]) (simp_all add: own_id_def)
  then show "aside x wire ps (wire (registrar s)) ?E (snd (handle_cluster_msg x (PollNotifications [nt]) s))"
    by (simp add: handle_cluster_msg_def bump_def act_defs)
qed

text \<open>An operation that the executor hands over is written to the connection established for its node.\<close>

lemma carried_out_turn:
  assumes x: "wires x wire" and to: "env_to env \<noteq> cs_pid s"
    and i: "hm_get (established s) (node (env_to env)) = Some i" and c: "hm_get (connections s) i = Some c"
    and run: "cluster_handle x (ClusterEnvelope env) s = (Running, s')"
  shows "\<exists>b. msg_encode x (RemoteEnvelope env) = Some b
    \<and> wire (registrar s') = (wire (registrar s))(sock c := wire (registrar s) (sock c) @ [b])
    \<and> executor_tx s' = executor_tx s"
proof (cases "msg_encode x (RemoteEnvelope env)")
  case None
  with to i run show ?thesis
    by (auto simp: handle_cluster_msg_def send_remote_def encode_msg_def bump_def act_defs
        elim!: cluster_handle_Running)
next
  case (Some b)
  obtain r c' w where w: "conn_write x i c (Some b) (registrar s) = (r, c', w)" by (metis prod_cases3)
  note wrote = conn_write_wire [OF wiresD(1) [OF x] w]
  with to i c Some w have "fst (handle_cluster_msg x (ClusterEnvelope env) s) = Ok ()"
    "registrar (snd (handle_cluster_msg x (ClusterEnvelope env) s)) = w"
    "executor_tx (snd (handle_cluster_msg x (ClusterEnvelope env) s)) = executor_tx s"
    by (simp_all add: handle_cluster_msg_def send_remote_def encode_msg_def cs_write_def write_conn_def
        bump_def act_defs)
  moreover have "handle_cluster_msg x (ClusterEnvelope env) s = (Ok (), s')"
    using calculation(1) run by (auto elim!: cluster_handle_Running)
  ultimately show ?thesis using wrote Some by simp
qed

end
