(* ===== verification/ChainNet.thy ===== *)
theory ChainNet
  imports ChainCluster
begin

text \<open>
  A chain of replicas on several nodes, as \<open>tests/multi_node_chain_replication.rs\<close> sets it up: the
  nodes, the frames on their connections, and the invariant that no operation is lost, doubled or
  overtaken between a replica and its successor, wherever they are.
\<close>

section \<open>The executor's own queue\<close>

text \<open>All that the executor sends itself are envelopes.\<close>

definition posts :: "('t, 'q, 'c, 'x, 'w) executor \<Rightarrow> bool" where
  "posts s \<longleftrightarrow> list_all (\<lambda>m. \<exists>env. m = ExecEnvelope env) (ex_tx s)"

lemma posts_frame [simp]:
  "posts (s\<lparr>ex_metrics := m\<rparr>) = posts s" "posts (s\<lparr>ex_timer_wheel := c\<rparr>) = posts s"
  "posts (s\<lparr>ex_world := w\<rparr>) = posts s" "posts (s\<lparr>cluster_tx := ch\<rparr>) = posts s"
  "posts (s\<lparr>processes := ps\<rparr>) = posts s" "posts (s\<lparr>envelopes := es\<rparr>) = posts s"
  "posts (s\<lparr>service_senders := ss\<rparr>) = posts s"
  by (simp_all add: posts_def)

lemma posts_send: "keeps posts (cluster_send env)" "keeps posts (route_to_service x env)"
  by (auto intro!: keepsI simp: cluster_send_def route_to_service_def
      split: prod.splits bool.splits option.splits)

lemma posts_handle_envelope:
  assumes "\<And>e. keeps posts (rt e)"
  shows "keeps posts (handle_executor_envelope x rt env)"
  unfolding handle_executor_envelope_def exec_send_metrics_def
  by (auto intro!: keeps_rules keeps_mod assms split: msg.splits)

lemma posts_output:
  assumes "\<And>e. keeps posts (rt e)"
  shows "keeps posts (route_output x rt env)"
  unfolding route_output_def
  by (auto intro!: keeps_rules keeps_mod posts_send posts_handle_envelope assms) (simp add: posts_def)

lemma posts_route_to_process:
  assumes "\<And>e. keeps posts (rt e)"
  shows "keeps posts (route_to_process x rt env)"
  unfolding route_to_process_def run_process_def
  by (auto intro!: keeps_rules keeps_mod posts_send posts_handle_envelope posts_output assms
      split: option.splits prod.splits)

lemma posts_route_d: "keeps posts (route_d x d env)"
proof (induction d arbitrary: env)
  case (Suc d)
  then show ?case
    by (auto simp: route_def intro!: keeps_rules posts_send posts_route_to_process)
qed (simp add: keeps_rules)

lemma posts_dispatch: "keeps posts (exec_dispatch x d m)"
  unfolding exec_dispatch_def exec_envelope_def exec_start_def exec_stop_def register_service_def
    exec_get_status_def exec_tick_def Let_def
  by (auto intro!: keeps_rules keeps_mod posts_send posts_route_to_process posts_handle_envelope posts_route_d
      split: executor_msg.splits option.splits prod.splits)

lemma executor_turn_posts:
  "\<exists>ms. ns_exec_rx (executor_turn e m S) = tl (ns_exec_rx S) @ ms \<and> list_all (settled ps) ms"
proof -
  let ?s = "(ns_exec S)\<lparr>ex_tx := [], cluster_tx := empty_chan (ns_cluster_status S = Running)\<rparr>"
  obtain st ex where ex: "exec_handle (ne_exec e) (ne_depth e) m ?s = (st, ex)" by fastforce
  have s: "posts ?s" by (simp add: posts_def)
  then have "posts ex"
    using ex keepsD [OF posts_dispatch s]
    by (cases m) (auto simp: exec_handle_def split: prod.splits result.splits)
  then have "list_all (settled ps) (ex_tx ex)" by (auto simp: posts_def list_all_iff)
  then show ?thesis using ex by (simp add: executor_turn_def)
qed

section \<open>Nodes and connections\<close>

text \<open>\<open>got N a b\<close> counts the frames of \<open>a\<close> that \<open>b\<close> has read.\<close>

record ('q, 'c, 'x, 'v, 'w, 'f, 's) mesh =
  site :: "node_id \<Rightarrow> (rabble_user_msg, 'q, 'c, 'x, 'v, 'w, 'f, 's) node_system"
  got :: "node_id \<Rightarrow> node_id \<Rightarrow> nat"

text \<open>The socket of the connection that is established for a node.\<close>

definition line :: "('t, 'q, 'x, 'w, 'f, 's) cluster \<Rightarrow> node_id \<Rightarrow> fd option" where
  "line s b = (case hm_get (established s) b of
     None \<Rightarrow> None
   | Some i \<Rightarrow> map_option sock (hm_get (connections s) i))"

definition wrote ::
    "('w \<Rightarrow> fd \<Rightarrow> bytes list) \<Rightarrow> ('q, 'c, 'x, 'v, 'w, 'f, 's) mesh \<Rightarrow> node_id \<Rightarrow> node_id \<Rightarrow> bytes list" where
  "wrote wire N a b = (case line (ns_cluster (site N a)) b of
     None \<Rightarrow> []
   | Some sk \<Rightarrow> wire (registrar (ns_cluster (site N a))) sk)"

definition in_transit ::
    "('w \<Rightarrow> fd \<Rightarrow> bytes list) \<Rightarrow> ('q, 'c, 'x, 'v, 'w, 'f, 's) mesh \<Rightarrow> node_id \<Rightarrow> node_id \<Rightarrow> bytes list" where
  "in_transit wire N a b = drop (got N a b) (wrote wire N a b)"

lemma wrote_same:
  "ns_cluster (site N' a) = ns_cluster (site N a) \<Longrightarrow> wrote wire N' a b = wrote wire N a b"
  by (simp add: wrote_def cong: option.case_cong)

text \<open>A hop of the chain leads from the node of a replica to the node of its successor.\<close>

definition hop :: "pid list \<Rightarrow> node_id \<Rightarrow> node_id \<Rightarrow> bool" where
  "hop ps a b \<longleftrightarrow> a \<noteq> b \<and> (\<exists>p t. link ps p t \<and> node p = a \<and> node t = b)"

text \<open>The node's threads run, and the connections that the chain uses stay.\<close>

definition steady :: "pid list \<Rightarrow> node_id
    \<Rightarrow> ('t, 'q, 'c, 'x, 'v, 'w, 'f, 's) node_system \<Rightarrow> ('t, 'q, 'c, 'x, 'v, 'w, 'f, 's) node_system \<Rightarrow> bool" where
  "steady ps a S S' \<longleftrightarrow> both_run S'
     \<and> (\<forall>b. hop ps a b \<longrightarrow> line (ns_cluster S') b = line (ns_cluster S) b)
     \<and> (\<forall>b. hop ps b a \<longrightarrow>
          hm_get (established (ns_cluster S')) b = hm_get (established (ns_cluster S)) b)"

text \<open>
  The turns of the nodes of a chain. Those of one node: its executor, its poller, requests that
  leave the chain alone, and its cluster server on an envelope from its executor or on a message
  that has to do with no operation of the chain. Those between two: a node reads the next frame
  that the node before it in the chain wrote.
\<close>

datatype ('q, 'x) mesh_turn =
    At node_id "(rabble_user_msg, 'q, 'x) node_turn"
  | Arrives node_id node_id

definition cluster_minds ::
    "(rabble_user_msg, 'w, 'f, 's, 'd, 'k) cluster_env \<Rightarrow> pid list \<Rightarrow> node_id
      \<Rightarrow> (rabble_user_msg, 'q, 'c, 'x, 'v, 'w, 'f, 's) node_system \<Rightarrow> bool" where
  "cluster_minds x ps a S \<longleftrightarrow> (\<forall>m rest. ns_cluster_rx S = m # rest \<longrightarrow>
     outgoing m \<noteq> [] \<or> harmless x ps (ns_cluster S) m
       \<and> (\<forall>nt b. m = PollNotifications [nt] \<longrightarrow> n_event nt \<noteq> Write \<longrightarrow> hop ps b a \<longrightarrow>
            hm_get (established (ns_cluster S)) b \<noteq> Some (n_id nt)))"

inductive mesh_step ::
    "(rabble_user_msg, replica, 'c, 'x, 'v, 'w, 'f, 's, 'd, 'k) node_env \<Rightarrow> ('w \<Rightarrow> fd \<Rightarrow> bytes list)
      \<Rightarrow> pid list \<Rightarrow> (replica, 'c, 'x, 'v, 'w, 'f, 's) mesh \<Rightarrow> (replica, 'x) mesh_turn
      \<Rightarrow> (replica, 'c, 'x, 'v, 'w, 'f, 's) mesh \<Rightarrow> bool"
  for e wire ps where
  at: "a \<in> node ` set ps \<Longrightarrow> node_step e (site N a) t S' \<Longrightarrow> steady ps a (site N a) S' \<Longrightarrow>
    quiet_turn ps t \<Longrightarrow> (t = ClusterTurn \<Longrightarrow> cluster_minds (ne_cluster e) ps a (site N a)) \<Longrightarrow>
    mesh_step e wire ps N (At a t) (N\<lparr>site := (site N)(a := S')\<rparr>)"
| arrives: "hop ps a b \<Longrightarrow> ns_cluster_rx (site N b) = PollNotifications [nt] # rest \<Longrightarrow>
    n_event nt \<noteq> Write \<Longrightarrow> \<not> own_id (ns_cluster (site N b)) (n_id nt) \<Longrightarrow>
    hm_get (established (ns_cluster (site N b))) a = Some (n_id nt) \<Longrightarrow>
    in_transit wire N a b = f # fs \<Longrightarrow> delivers (ne_cluster e) (n_id nt) f (ns_cluster (site N b)) \<Longrightarrow>
    node_step e (site N b) ClusterTurn S' \<Longrightarrow> steady ps b (site N b) S' \<Longrightarrow>
    mesh_step e wire ps N (Arrives b a)
      (N\<lparr>site := (site N)(b := S'), got := (got N)(a := (got N a)(b := Suc (got N a b)))\<rparr>)"

inductive mesh_steps ::
    "(rabble_user_msg, replica, 'c, 'x, 'v, 'w, 'f, 's, 'd, 'k) node_env \<Rightarrow> ('w \<Rightarrow> fd \<Rightarrow> bytes list)
      \<Rightarrow> pid list \<Rightarrow> (replica, 'c, 'x, 'v, 'w, 'f, 's) mesh \<Rightarrow> (replica, 'x) mesh_turn list
      \<Rightarrow> (replica, 'c, 'x, 'v, 'w, 'f, 's) mesh \<Rightarrow> bool"
  for e wire ps where
  none: "mesh_steps e wire ps N [] N"
| turn: "mesh_step e wire ps N t N' \<Longrightarrow> mesh_steps e wire ps N' ts N'' \<Longrightarrow>
    mesh_steps e wire ps N (t # ts) N''"

section \<open>The invariant\<close>

definition frame_op :: "(rabble_user_msg, 'w, 'f, 's, 'd, 'k) cluster_env \<Rightarrow> pid \<Rightarrow> bytes \<Rightarrow> usize list" where
  "frame_op x t f = (case msg_decode x f of Some (RemoteEnvelope env) \<Rightarrow> op_in t env | _ \<Rightarrow> [])"

definition frame_ops :: "(rabble_user_msg, 'w, 'f, 's, 'd, 'k) cluster_env \<Rightarrow> pid \<Rightarrow> bytes list \<Rightarrow> usize list" where
  "frame_ops x t fs = concat (map (frame_op x t) fs)"

lemma frame_ops_simps [simp]:
  "frame_ops x t [] = []" "frame_ops x t (f # fs) = frame_op x t f @ frame_ops x t fs"
  "frame_ops x t (fs @ gs) = frame_ops x t fs @ frame_ops x t gs"
  by (simp_all add: frame_ops_def)

lemma frame_op_plain: "t \<in> set (tl ps) \<Longrightarrow> plain_frame x ps f \<Longrightarrow> frame_op x t f = []"
  by (auto simp: frame_op_def plain_frame_def split: option.splits external_msg.splits)

lemma frame_ops_plain: "t \<in> set (tl ps) \<Longrightarrow> list_all (plain_frame x ps) fs \<Longrightarrow> frame_ops x t fs = []"
  by (induction fs) (auto simp: frame_op_plain)

abbreviation letters_in :: "('t, 'q, 'x) executor_msg list \<Rightarrow> pid \<Rightarrow> 't envelope list" where
  "letters_in \<equiv> mailbox"

definition letters_out :: "'t cluster_msg list \<Rightarrow> 't envelope list" where
  "letters_out q = concat (map outgoing q)"

lemma letters_out_simps [simp]:
  "letters_out [] = []" "letters_out (m # q) = outgoing m @ letters_out q"
  "letters_out (q @ q') = letters_out q @ letters_out q'"
  by (simp_all add: letters_out_def)

abbreviation replicas :: "(rabble_user_msg, replica, 'c, 'x, 'v, 'w, 'f, 's) node_system \<Rightarrow> pid \<Rightarrow> replica option" where
  "replicas S \<equiv> hm_get (processes (ns_exec S))"

text \<open>
  At node \<open>a\<close>: its replicas are there and linked; its executor has only operations for them in its
  queue, and its cluster server only operations that they send to other nodes; the connections to
  those nodes have sockets of their own.
\<close>

definition place_ok :: "pid list \<Rightarrow> node_id \<Rightarrow> (rabble_user_msg, replica, 'c, 'x, 'v, 'w, 'f, 's) node_system \<Rightarrow> bool" where
  "place_ok ps a S \<longleftrightarrow> both_run S \<and> exec_on a (ns_exec S) \<and> cs_pid (ns_cluster S) = cluster_pid a
     \<and> wired_on a ps (replicas S) \<and> list_all (settled ps) (ns_exec_rx S)
     \<and> (\<forall>b. hop ps a b \<longrightarrow> line (ns_cluster S) b \<noteq> None)
     \<and> inj_on (line (ns_cluster S)) {b. hop ps a b}
     \<and> (\<forall>p t. link ps p t \<longrightarrow> (node t \<noteq> a \<longrightarrow> ops_to t (letters_in (ns_exec_rx S) t) = [])
          \<and> (node p \<noteq> a \<or> node t = a \<longrightarrow> ops_to t (letters_out (ns_cluster_rx S)) = []))"

text \<open>The operations between a replica and its successor, the oldest first.\<close>

definition history_at :: "(replica, 'c, 'x, 'v, 'w, 'f, 's) mesh \<Rightarrow> pid \<Rightarrow> usize list" where
  "history_at N p = recorded (replicas (site N (node p))) p"

definition underway ::
    "(rabble_user_msg, 'w, 'f, 's, 'd, 'k) cluster_env \<Rightarrow> ('w \<Rightarrow> fd \<Rightarrow> bytes list)
      \<Rightarrow> (replica, 'c, 'x, 'v, 'w, 'f, 's) mesh \<Rightarrow> pid \<Rightarrow> pid \<Rightarrow> usize list" where
  "underway x wire N p t = ops_to t (letters_in (ns_exec_rx (site N (node t))) t)
     @ (if node p = node t then []
        else frame_ops x t (in_transit wire N (node p) (node t))
          @ ops_to t (letters_out (ns_cluster_rx (site N (node p)))))"

definition mesh_inv ::
    "(rabble_user_msg, 'w, 'f, 's, 'd, 'k) cluster_env \<Rightarrow> ('w \<Rightarrow> fd \<Rightarrow> bytes list) \<Rightarrow> pid list
      \<Rightarrow> (replica, 'c, 'x, 'v, 'w, 'f, 's) mesh \<Rightarrow> bool" where
  "mesh_inv x wire ps N \<longleftrightarrow> (\<forall>a \<in> node ` set ps. place_ok ps a (site N a))
     \<and> (\<forall>a b. hop ps a b \<longrightarrow> got N a b \<le> length (wrote wire N a b)
          \<and> (\<forall>p t. link ps p t \<longrightarrow> node p \<noteq> a \<or> node t \<noteq> b \<longrightarrow> frame_ops x t (in_transit wire N a b) = []))
     \<and> (\<forall>p t. link ps p t \<longrightarrow> history_at N p = history_at N t @ underway x wire N p t)"

lemma mesh_invD:
  assumes "mesh_inv x wire ps N"
  shows "a \<in> node ` set ps \<Longrightarrow> place_ok ps a (site N a)"
    and "hop ps a b \<Longrightarrow> got N a b \<le> length (wrote wire N a b)"
    and "hop ps a b \<Longrightarrow> link ps p t \<Longrightarrow> node p \<noteq> a \<or> node t \<noteq> b \<Longrightarrow> frame_ops x t (in_transit wire N a b) = []"
    and "link ps p t \<Longrightarrow> history_at N p = history_at N t @ underway x wire N p t"
  using assms unfolding mesh_inv_def by blast+

lemma mesh_invI:
  assumes "\<And>a. a \<in> node ` set ps \<Longrightarrow> place_ok ps a (site N a)"
    and "\<And>a b. hop ps a b \<Longrightarrow> got N a b \<le> length (wrote wire N a b)"
    and "\<And>a b p t. hop ps a b \<Longrightarrow> link ps p t \<Longrightarrow> node p \<noteq> a \<or> node t \<noteq> b \<Longrightarrow>
      frame_ops x t (in_transit wire N a b) = []"
    and "\<And>p t. link ps p t \<Longrightarrow> history_at N p = history_at N t @ underway x wire N p t"
  shows "mesh_inv x wire ps N"
  using assms unfolding mesh_inv_def by blast

lemma hopI: "link ps p t \<Longrightarrow> node p \<noteq> node t \<Longrightarrow> hop ps (node p) (node t)"
  unfolding hop_def by blast

lemma hop_mem: "hop ps a b \<Longrightarrow> a \<in> node ` set ps \<and> b \<in> node ` set ps \<and> a \<noteq> b"
  unfolding hop_def by (auto dest: link_mem)

section \<open>A turn of an executor\<close>

lemma executor_turn_place:
  assumes x: "runs_replicas (ne_exec e)" "timers_exact (ne_exec e) tk" and ps: "spread_pids ps"
    and S: "place_ok ps n S" and rx: "ns_exec_rx S = m # rest" and st: "steady ps n S (executor_turn e m S)"
    and here: "\<forall>p t. link ps p t \<longrightarrow> node p = n \<longrightarrow> node t = n \<longrightarrow>
      recorded (replicas S) p = recorded (replicas S) t @ ops_to t (letters_in (ns_exec_rx S) t)"
    and out: "\<forall>p t. link ps p t \<longrightarrow> node p = n \<longrightarrow> node t \<noteq> n \<longrightarrow>
      recorded (replicas S) p = Z t @ ops_to t (letters_out (ns_cluster_rx S))"
  shows "place_ok ps n (executor_turn e m S)"
    and "link ps p t \<Longrightarrow> node p = n \<Longrightarrow> node t = n \<Longrightarrow>
      recorded (replicas (executor_turn e m S)) p = recorded (replicas (executor_turn e m S)) t
        @ ops_to t (letters_in (ns_exec_rx (executor_turn e m S)) t)"
    and "link ps p t \<Longrightarrow> node p = n \<Longrightarrow> node t \<noteq> n \<Longrightarrow>
      recorded (replicas (executor_turn e m S)) p = Z t @ ops_to t (letters_out (ns_cluster_rx (executor_turn e m S)))"
    and "link ps p t \<Longrightarrow> node p \<noteq> n \<Longrightarrow> node t = n \<Longrightarrow>
      recorded (replicas S) t @ ops_to t (letters_in (ns_exec_rx S) t)
      = recorded (replicas (executor_turn e m S)) t @ ops_to t (letters_in (ns_exec_rx (executor_turn e m S)) t)"
proof -
  let ?T = "executor_turn e m S"
  have on: "exec_on n (ns_exec S)" and run: "ns_exec_status ?T = Running" and dist: "distinct ps"
    using S st ps by (simp_all add: place_ok_def steady_def both_run_def spread_pids_def)
  have up: "ns_exec_status S = Running" using S by (simp add: place_ok_def both_run_def)
  note turn = executor_turn_simulated [OF timers_exact_sim [OF x(2)] on rx up, unfolded run, OF loop_status.distinct(3)]
  define src where "src t = recorded (replicas S) t @ ops_to t (letters_in (ns_exec_rx S) t)" for t
  define Src where "Src t = (if node t = n then src t else [])" for t
  define Dst where "Dst t = (if \<exists>p. link ps p t \<and> node p = n then Z t else [])" for t
  have Dst: "Dst t = (if node p = n then Z t else [])" if "link ps p t" for p t
    using link_unique(1) [OF dist that] that unfolding Dst_def by metis
  define G where "G = tk (ex_timer_wheel (ns_exec S))"
  have acts: "ac_state (node_actors K S) = replicas S" "ac_mail (node_actors K S) = letters_in (ns_exec_rx S)"
    "ac_outbox (node_actors K S) = letters_out (ns_cluster_rx S)" "ac_jobs (node_actors K S) = []"
    for K and S :: "(rabble_user_msg, replica, 'a, 'b, 'c, 'd, 'e, 'f) node_system"
    by (simp_all add: node_actors_def' letters_out_def)
  note [simp] = acts
  have stray: "node t \<noteq> n \<Longrightarrow> ops_to t (letters_in (ns_exec_rx S) t) = []"
    "node p \<noteq> n \<or> node t = n \<Longrightarrow> ops_to t (letters_out (ns_cluster_rx S)) = []" if "link ps p t" for p t
    using S that by (auto simp: place_ok_def)
  have "sorted_mail n ps (node_actors G S)"
    unfolding sorted_mail_def using stray link_into by (fastforce simp: stray)
  moreover have "ledger n ps Src Dst (node_actors G S)"
    unfolding ledger_def
  proof (intro allI impI)
    fix p t assume l: "link ps p t"
    show "noted n (ac_state (node_actors G S)) Src p t = noted n (ac_state (node_actors G S)) Dst t t
        @ pre t (ac_jobs (node_actors G S)) @ ops_to t (ac_mail (node_actors G S) t)
        @ ops_to t (ac_outbox (node_actors G S)) @ out_of t (ac_jobs (node_actors G S))"
      using here [rule_format, OF l] out [rule_format, OF l] stray [OF l] Dst [OF l] by (simp add: noted_def Src_def src_def)
  qed
  ultimately have "chain_at n ps Src Dst (node_actors G S)"
    using S by (simp add: chain_at_def place_ok_def tame_def)
  moreover have "\<exists>tr G'. handles (ne_exec e) n (first_event (ne_exec e) (ns_exec S) m) (node_actors G S) tr (node_actors G' ?T)"
    using turn(2) [of G] by (auto simp: G_def)
  then obtain tr G' where
    "handles (ne_exec e) n (first_event (ne_exec e) (ns_exec S) m) (node_actors G S) tr (node_actors G' ?T)" by blast
  moreover have "settled ps m" using S rx by (simp add: place_ok_def)
  ultimately have C: "chain_at n ps Src Dst (node_actors G' ?T)"
    using handles_chain [OF x(1) ps] by blast
  then have eq: "noted n (replicas ?T) Src p t = noted n (replicas ?T) Dst t t
      @ ops_to t (letters_in (ns_exec_rx ?T) t) @ ops_to t (letters_out (ns_cluster_rx ?T))"
    and out': "node t = n \<Longrightarrow> ops_to t (letters_out (ns_cluster_rx ?T)) = []"
    and in': "node t \<noteq> n \<Longrightarrow> ops_to t (letters_in (ns_exec_rx ?T) t) = []" if "link ps p t" for p t
    using that link_mem [OF that] by (auto simp: chain_at_def ledger_def sorted_mail_def)
  show "recorded (replicas ?T) p = recorded (replicas ?T) t @ ops_to t (letters_in (ns_exec_rx ?T) t)"
    if "link ps p t" "node p = n" "node t = n" for p t
    using eq [OF that(1)] out' [OF that(1)] that by (simp add: noted_def)
  show "recorded (replicas ?T) p = Z t @ ops_to t (letters_out (ns_cluster_rx ?T))"
    if "link ps p t" "node p = n" "node t \<noteq> n" for p t
    using eq [OF that(1)] in' [OF that(1)] that Dst [OF that(1)] by (simp add: noted_def)
  show "recorded (replicas S) t @ ops_to t (letters_in (ns_exec_rx S) t)
      = recorded (replicas ?T) t @ ops_to t (letters_in (ns_exec_rx ?T) t)"
    if "link ps p t" "node p \<noteq> n" "node t = n" for p t
    using eq [OF that(1)] out' [OF that(1)] that by (simp add: noted_def Src_def src_def)
  have far: "ops_to t (letters_out (ns_cluster_rx ?T)) = []" if "link ps p t" "node p \<noteq> n" for p t
    using eq [OF that(1)] out' [OF that(1)] Dst [OF that(1)] that by (cases "node t = n") (simp_all add: noted_def Src_def)
  have cl: "ns_cluster ?T = ns_cluster S"
    by (simp add: executor_turn_def split: prod.splits)
  obtain ms where ms: "ns_exec_rx ?T = rest @ ms" "list_all (settled ps) ms"
    using executor_turn_posts [of e m S ps] rx by auto
  have "inj_on (line (ns_cluster ?T)) {b. hop ps n b}" using S cl by (simp add: place_ok_def)
  moreover have "exec_on n (ns_exec ?T)"
    by (rule turn(1))
  moreover have "wired_on n ps (replicas ?T)" using C by (simp add: chain_at_def)
  moreover have "list_all (settled ps) (ns_exec_rx ?T)" using ms S rx by (simp add: place_ok_def)
  ultimately show "place_ok ps n ?T"
    using S st cl in' out' far by (auto simp: place_ok_def steady_def)
qed

lemma steady_wrote:
  assumes "steady ps a S S'" and "hop ps a b"
  shows "line (ns_cluster S') b = line (ns_cluster S) b"
  using assms by (simp add: steady_def)

lemma executor_turn_mesh:
  assumes x: "runs_replicas (ne_exec e)" "timers_exact (ne_exec e) tk" and ps: "spread_pids ps"
    and inv: "mesh_inv x wire ps N" and n: "n \<in> node ` set ps"
    and rx: "ns_exec_rx (site N n) = m # rest" and st: "steady ps n (site N n) (executor_turn e m (site N n))"
  shows "mesh_inv x wire ps (N\<lparr>site := (site N)(n := executor_turn e m (site N n))\<rparr>)"
proof -
  let ?S = "site N n" and ?T = "executor_turn e m (site N n)"
  let ?N = "N\<lparr>site := (site N)(n := ?T)\<rparr>"
  have dist: "distinct ps" using ps by (simp add: spread_pids_def)
  note I = mesh_invD [OF inv]
  note S = I(1) [OF n] and eq = I(4)
  define Z where "Z t = history_at N t @ ops_to t (letters_in (ns_exec_rx (site N (node t))) t)
      @ frame_ops x t (in_transit wire N n (node t))" for t
  have here: "\<forall>p t. link ps p t \<longrightarrow> node p = n \<longrightarrow> node t = n \<longrightarrow>
      recorded (replicas ?S) p = recorded (replicas ?S) t @ ops_to t (letters_in (ns_exec_rx ?S) t)"
    using eq by (auto simp: history_at_def underway_def)
  have out: "\<forall>p t. link ps p t \<longrightarrow> node p = n \<longrightarrow> node t \<noteq> n \<longrightarrow>
      recorded (replicas ?S) p = Z t @ ops_to t (letters_out (ns_cluster_rx ?S))"
    using eq by (auto simp: history_at_def underway_def Z_def)
  note T = executor_turn_place [OF x ps S rx st here out]
  have cl: "ns_cluster ?T = ns_cluster ?S" by (simp add: executor_turn_def split: prod.splits)
  have wr: "wrote wire ?N a b = wrote wire N a b" "in_transit wire ?N a b = in_transit wire N a b" for a b
    using cl wrote_same [of ?N a N] by (auto simp: in_transit_def)
  show ?thesis
  proof (rule mesh_invI)
    fix p t assume l: "link ps p t"
    consider "node p = n" "node t = n" | "node p = n" "node t \<noteq> n" | "node p \<noteq> n" "node t = n"
      | "node p \<noteq> n" "node t \<noteq> n" by blast
    then show "history_at ?N p = history_at ?N t @ underway x wire ?N p t"
    proof cases
      case 1
      with T(2) [OF l] show ?thesis by (simp add: history_at_def underway_def)
    next
      case 2
      with T(3) [OF l] show ?thesis by (simp add: history_at_def underway_def Z_def wr)
    next
      case 3
      with T(4) [OF l] eq [OF l] show ?thesis by (simp add: history_at_def underway_def wr)
    next
      case 4
      with eq [OF l] show ?thesis by (simp add: history_at_def underway_def wr)
    qed
  qed (use I T(1) wr in simp_all)
qed

section \<open>Other turns\<close>

text \<open>
  What a turn of the cluster server, or a request, does to the operations for a replica \<open>t\<close>: \<open>I t\<close>
  come into the executor's queue, \<open>U t\<close> leave the queue of the cluster server, and \<open>V b t\<close> are
  written to the connection to \<open>b\<close>.
\<close>

definition moved ::
    "(rabble_user_msg, 'w, 'f, 's, 'd, 'k) cluster_env \<Rightarrow> ('w \<Rightarrow> fd \<Rightarrow> bytes list) \<Rightarrow> pid list \<Rightarrow> node_id
      \<Rightarrow> (pid \<Rightarrow> usize list) \<Rightarrow> (pid \<Rightarrow> usize list) \<Rightarrow> (node_id \<Rightarrow> pid \<Rightarrow> usize list)
      \<Rightarrow> (rabble_user_msg, replica, 'c, 'x, 'v, 'w, 'f, 's) node_system
      \<Rightarrow> (rabble_user_msg, replica, 'c, 'x, 'v, 'w, 'f, 's) node_system \<Rightarrow> bool" where
  "moved x wire ps n I U V S S' \<longleftrightarrow> steady ps n S S' \<and> ns_exec S' = ns_exec S
     \<and> cs_pid (ns_cluster S') = cs_pid (ns_cluster S)
     \<and> (\<exists>ms. ns_exec_rx S' = ns_exec_rx S @ ms \<and> list_all (settled ps) ms
          \<and> (\<forall>t \<in> set (tl ps). ops_to t (letters_in ms t) = I t))
     \<and> (\<forall>t \<in> set (tl ps). ops_to t (letters_out (ns_cluster_rx S)) = U t @ ops_to t (letters_out (ns_cluster_rx S')))
     \<and> (\<forall>b sk. hop ps n b \<longrightarrow> line (ns_cluster S) b = Some sk \<longrightarrow> (\<exists>fs.
          wire (registrar (ns_cluster S')) sk = wire (registrar (ns_cluster S)) sk @ fs
          \<and> (\<forall>t \<in> set (tl ps). frame_ops x t fs = V b t)))"

lemma moved_place:
  assumes S: "place_ok ps n S" and mv: "moved x wire ps n I U V S S'"
    and I: "\<And>t. t \<in> set (tl ps) \<Longrightarrow> node t \<noteq> n \<Longrightarrow> I t = []"
  shows "place_ok ps n S'"
proof -
  obtain ms where ms: "ns_exec_rx S' = ns_exec_rx S @ ms" "list_all (settled ps) ms"
    "\<forall>t \<in> set (tl ps). ops_to t (letters_in ms t) = I t"
    using mv by (auto simp: moved_def)
  have line: "line (ns_cluster S') b = line (ns_cluster S) b" if "hop ps n b" for b
    using mv that by (simp add: moved_def steady_def)
  then have inj: "inj_on (line (ns_cluster S')) {b. hop ps n b} = inj_on (line (ns_cluster S)) {b. hop ps n b}"
    by (intro inj_on_cong) simp
  have none: "ops_to t (letters_out (ns_cluster_rx S')) = []"
    if "t \<in> set (tl ps)" "ops_to t (letters_out (ns_cluster_rx S)) = []" for t
    using mv that by (simp add: moved_def)
  have "ops_to t (letters_in (ns_exec_rx S') t) = []" if "link ps p t" "node t \<noteq> n" for p t
    using that S ms I [of t] link_mem [OF that(1)] by (auto simp: place_ok_def)
  moreover have "ops_to t (letters_out (ns_cluster_rx S')) = []" if "link ps p t" "node p \<noteq> n \<or> node t = n" for p t
    using that S none link_mem [OF that(1)] unfolding place_ok_def by blast
  ultimately show ?thesis
    using S mv ms inj line by (auto simp: place_ok_def moved_def steady_def)
qed

text \<open>
  \<open>G\<close> counts the frames read after the turn. The turn fits when what came in was on its way to a
  replica of this node, and what went out is for a replica of another.
\<close>

definition fits ::
    "(rabble_user_msg, 'w, 'f, 's, 'd, 'k) cluster_env \<Rightarrow> ('w \<Rightarrow> fd \<Rightarrow> bytes list) \<Rightarrow> pid list
      \<Rightarrow> (replica, 'c, 'x, 'v, 'w, 'f, 's) mesh \<Rightarrow> node_id
      \<Rightarrow> (pid \<Rightarrow> usize list) \<Rightarrow> (pid \<Rightarrow> usize list) \<Rightarrow> (node_id \<Rightarrow> pid \<Rightarrow> usize list)
      \<Rightarrow> (node_id \<Rightarrow> node_id \<Rightarrow> nat) \<Rightarrow> bool" where
  "fits x wire ps N n I U V G \<longleftrightarrow> (\<forall>a b. b \<noteq> n \<longrightarrow> G a b = got N a b)
     \<and> (\<forall>a. hop ps a n \<longrightarrow> got N a n \<le> G a n \<and> G a n \<le> length (wrote wire N a n))
     \<and> (\<forall>p t. link ps p t \<longrightarrow>
          (node t \<noteq> n \<or> node p = n \<longrightarrow> I t = [])
          \<and> (node p = n \<and> node t \<noteq> n \<longrightarrow> V (node t) t = U t)
          \<and> (node p \<noteq> n \<and> node t = n \<longrightarrow> frame_ops x t (in_transit wire N (node p) n)
               = I t @ frame_ops x t (drop (G (node p) n) (wrote wire N (node p) n)))
          \<and> (\<forall>b. hop ps n b \<and> (node p \<noteq> n \<or> node t \<noteq> b) \<longrightarrow> V b t = []))"

lemma fitsD:
  assumes "fits x wire ps N n I U V G"
  shows "b \<noteq> n \<Longrightarrow> G a b = got N a b"
    and "hop ps a n \<Longrightarrow> got N a n \<le> G a n" "hop ps a n \<Longrightarrow> G a n \<le> length (wrote wire N a n)"
    and "link ps p t \<Longrightarrow> node t \<noteq> n \<or> node p = n \<Longrightarrow> I t = []"
    and "link ps p t \<Longrightarrow> node p = n \<Longrightarrow> node t \<noteq> n \<Longrightarrow> V (node t) t = U t"
    and "link ps p t \<Longrightarrow> node p \<noteq> n \<Longrightarrow> node t = n \<Longrightarrow> frame_ops x t (in_transit wire N (node p) n)
      = I t @ frame_ops x t (drop (G (node p) n) (wrote wire N (node p) n))"
    and "hop ps n b \<Longrightarrow> link ps p t \<Longrightarrow> node p \<noteq> n \<or> node t \<noteq> b \<Longrightarrow> V b t = []"
  using assms unfolding fits_def by blast+

abbreviation after_turn where
  "after_turn N n S' G \<equiv> N\<lparr>site := (site N)(n := S'), got := G\<rparr>"

lemma wrote_other: "a \<noteq> n \<Longrightarrow> wrote wire (after_turn N n S' G) a b = wrote wire N a b"
  by (intro wrote_same) simp

text \<open>The frames of this node, those that it has read, and those between others.\<close>

lemma moved_sent:
  assumes inv: "mesh_inv x wire ps N" and n: "n \<in> node ` set ps" and mv: "moved x wire ps n I U V (site N n) S'"
    and F: "fits x wire ps N n I U V G" and h: "hop ps n b" and t: "t \<in> set (tl ps)"
  shows "frame_ops x t (in_transit wire (after_turn N n S' G) n b) = frame_ops x t (in_transit wire N n b) @ V b t"
    and "G n b \<le> length (wrote wire (after_turn N n S' G) n b)"
proof -
  obtain sk where "line (ns_cluster (site N n)) b = Some sk"
    using mesh_invD(1) [OF inv n] h by (auto simp: place_ok_def)
  moreover from this have "line (ns_cluster S') b = Some sk" using mv h by (simp add: moved_def steady_def)
  ultimately obtain fs where "wrote wire (after_turn N n S' G) n b = wrote wire N n b @ fs" "frame_ops x t fs = V b t"
    using mv h t by (fastforce simp: moved_def wrote_def)
  moreover have "b \<noteq> n" using hop_mem [OF h] by blast
  ultimately show "frame_ops x t (in_transit wire (after_turn N n S' G) n b) = frame_ops x t (in_transit wire N n b) @ V b t"
    and "G n b \<le> length (wrote wire (after_turn N n S' G) n b)"
    using mesh_invD(2) [OF inv h] fitsD(1) [OF F] by (simp_all add: in_transit_def)
qed

lemma moved_rest:
  assumes "fits x wire ps N n I U V G"
  shows "a \<noteq> n \<Longrightarrow> b \<noteq> n \<Longrightarrow> in_transit wire (after_turn N n S' G) a b = in_transit wire N a b"
    and "hop ps a n \<Longrightarrow> in_transit wire (after_turn N n S' G) a n = drop (G a n - got N a n) (in_transit wire N a n)"
proof -
  note got = fitsD(1,2) [OF assms]
  show "in_transit wire (after_turn N n S' G) a b = in_transit wire N a b" if "a \<noteq> n" "b \<noteq> n"
    unfolding in_transit_def wrote_other [OF that(1)] by (simp add: got(1) [OF that(2)])
  show "in_transit wire (after_turn N n S' G) a n = drop (G a n - got N a n) (in_transit wire N a n)" if "hop ps a n"
    using got(2) [OF that] hop_mem [OF that] by (simp add: in_transit_def wrote_other)
qed

lemma moved_link:
  assumes inv: "mesh_inv x wire ps N" and n: "n \<in> node ` set ps" and mv: "moved x wire ps n I U V (site N n) S'"
    and F: "fits x wire ps N n I U V G" and l: "link ps p t"
  shows "history_at (after_turn N n S' G) p
    = history_at (after_turn N n S' G) t @ underway x wire (after_turn N n S' G) p t"
proof -
  let ?S = "site N n" and ?N = "after_turn N n S' G"
  have t: "t \<in> set (tl ps)" using link_mem [OF l] by blast
  have hist: "history_at ?N k = history_at N k" for k using mv by (simp add: history_at_def moved_def)
  obtain ms where ms: "ns_exec_rx S' = ns_exec_rx ?S @ ms" "ops_to t (letters_in ms t) = I t"
    using mv t by (auto simp: moved_def)
  have U: "ops_to t (letters_out (ns_cluster_rx ?S)) = U t @ ops_to t (letters_out (ns_cluster_rx S'))"
    using mv t by (simp add: moved_def)
  note eq = mesh_invD(4) [OF inv l]
  consider "node p = n" "node t = n" | "node p = n" "node t \<noteq> n" | "node p \<noteq> n" "node t = n"
    | "node p \<noteq> n" "node t \<noteq> n" by blast
  then show ?thesis
  proof cases
    case 1
    with eq ms fitsD(4) [OF F l] show ?thesis by (simp add: hist underway_def)
  next
    case 2
    then have "hop ps n (node t)" using hopI [OF l] by auto
    from moved_sent(1) [OF inv n mv F this t] 2 eq U fitsD(5) [OF F l] show ?thesis by (simp add: hist underway_def)
  next
    case 3
    have "in_transit wire ?N (node p) n = drop (G (node p) n) (wrote wire N (node p) n)"
      unfolding in_transit_def wrote_other [OF 3(1)] by simp
    with 3 eq ms fitsD(6) [OF F l] show ?thesis by (simp add: hist underway_def)
  next
    case 4
    with eq moved_rest(1) [OF F 4] show ?thesis by (simp add: hist underway_def)
  qed
qed

lemma moved_frames:
  assumes inv: "mesh_inv x wire ps N" and n: "n \<in> node ` set ps" and mv: "moved x wire ps n I U V (site N n) S'"
    and F: "fits x wire ps N n I U V G" and h: "hop ps a b"
  shows "G a b \<le> length (wrote wire (after_turn N n S' G) a b)"
    and "link ps p t \<Longrightarrow> node p \<noteq> a \<or> node t \<noteq> b \<Longrightarrow>
      frame_ops x t (in_transit wire (after_turn N n S' G) a b) = []"
proof -
  let ?N = "after_turn N n S' G"
  note le = mesh_invD(2) [OF inv h] and none = mesh_invD(3) [OF inv h]
  obtain p0 t0 where t0: "t0 \<in> set (tl ps)" "link ps p0 t0" using h by (auto simp: hop_def dest: link_mem)
  have drop: "frame_ops x t fs = [] \<Longrightarrow> frame_ops x t (drop k fs) = []" for t k fs
    by (metis append_is_Nil_conv append_take_drop_id frame_ops_simps(3))
  have "G a b \<le> length (wrote wire ?N a b) \<and>
    (link ps p t \<longrightarrow> node p \<noteq> a \<or> node t \<noteq> b \<longrightarrow> frame_ops x t (in_transit wire ?N a b) = [])" for p t
  proof (cases "a = n")
    case True
    then show ?thesis
      using moved_sent(2) [OF inv n mv F _ t0(1), of b] moved_sent(1) [OF inv n mv F, of b t] none [of p t]
        fitsD(7) [OF F, of b p t] link_mem [of ps p t] h by auto
  next
    case False
    then show ?thesis
      using fitsD(1,3) [OF F] moved_rest [OF F] h le none drop
      by (cases "b = n") (auto simp: wrote_other [OF False])
  qed
  then show "G a b \<le> length (wrote wire ?N a b)"
    and "link ps p t \<Longrightarrow> node p \<noteq> a \<or> node t \<noteq> b \<Longrightarrow> frame_ops x t (in_transit wire ?N a b) = []"
    by blast+
qed

lemma moved_mesh:
  assumes inv: "mesh_inv x wire ps N" and n: "n \<in> node ` set ps"
    and mv: "moved x wire ps n I U V (site N n) S'" and F: "fits x wire ps N n I U V G"
  shows "mesh_inv x wire ps (after_turn N n S' G)"
proof (rule mesh_invI)
  have "I t = []" if "t \<in> set (tl ps)" "node t \<noteq> n" for t
    using link_into [OF that(1)] fitsD(4) [OF F] that(2) by blast
  then have "place_ok ps n S'" by (rule moved_place [OF mesh_invD(1) [OF inv n] mv])
  then show "place_ok ps a (site (after_turn N n S' G) a)" if "a \<in> node ` set ps" for a
    using mesh_invD(1) [OF inv that] by simp
qed (use moved_link [OF inv n mv F] moved_frames [OF inv n mv F] in auto)

lemma fits_nothing: "mesh_inv x wire ps N \<Longrightarrow> fits x wire ps N n (\<lambda>t. []) (\<lambda>t. []) (\<lambda>b t. []) (got N)"
  by (auto simp: fits_def in_transit_def dest: mesh_invD(2))

lemma quiet_ops: "list_all (quiet ps) ms \<Longrightarrow> t \<in> set (tl ps) \<Longrightarrow> ops_to t (letters_in ms t) = []"
proof (induction ms)
  case (Cons m ms)
  have "mailbox (m # ms) t = mailbox [m] t @ mailbox ms t" by (simp add: mailbox_def)
  moreover have "ops_to t (mailbox [m] t) = []"
    using Cons.prems by (cases m) (auto simp: mailbox_envelope mailbox_def)
  ultimately show ?case using Cons by simp
qed (simp add: mailbox_def)

lemma quiet_all_settled: "list_all (quiet ps) ms \<Longrightarrow> list_all (settled ps) ms"
  by (auto simp: list_all_iff quiet_settled)

lemma harmless_frame: "harmless x ps (s\<lparr>executor_tx := ch\<rparr>) m = harmless x ps s m"
  by (cases m) (simp_all add: own_id_def members_sent_def)

lemma cluster_turn_Running:
  assumes "both_run S" and "ns_cluster_rx S = m # rest" and "both_run (cluster_turn e m S)"
  obtains c where "cluster_handle (ne_cluster e) m ((ns_cluster S)\<lparr>executor_tx := empty_chan True\<rparr>) = (Running, c)"
    "cluster_turn e m S = S\<lparr>ns_cluster := c, ns_cluster_status := Running, ns_cluster_rx := rest,
       ns_exec_rx := ns_exec_rx S @ sent (executor_tx c)\<rparr>" "cs_pid c = cs_pid (ns_cluster S)"
proof -
  let ?s = "(ns_cluster S)\<lparr>executor_tx := empty_chan True\<rparr>"
  obtain st c where c: "cluster_handle (ne_cluster e) m ?s = (st, c)" by fastforce
  have turn: "cluster_turn e m S = S\<lparr>ns_cluster := c, ns_cluster_status := st, ns_cluster_rx := rest,
      ns_exec_rx := ns_exec_rx S @ sent (executor_tx c)\<rparr>"
    using c assms(1,2) by (simp add: cluster_turn_def both_run_def)
  then have st: "st = Running" using assms(3) by (simp add: both_run_def)
  have "reply_ok (\<lambda>env. True) (cs_pid (ns_cluster S)) m" by (cases m) simp_all
  then have "sends (\<lambda>m. True) (cs_pid (ns_cluster S)) c"
    using sends_handle [OF _ _ _ _ c, of "\<lambda>m. True" "cs_pid (ns_cluster S)"]
    by (simp add: sends_def peers_send_def empty_chan_def)
  with that [of c] c turn st show thesis by (simp add: sends_def)
qed

text \<open>A turn of the cluster server that is no write of an operation.\<close>

lemma aside_moved:
  assumes turn: "cluster_turn e m S = S\<lparr>ns_cluster := c, ns_cluster_status := Running, ns_cluster_rx := rest,
       ns_exec_rx := ns_exec_rx S @ sent (executor_tx c)\<rparr>"
    and rx: "ns_cluster_rx S = m # rest" and "cs_pid c = cs_pid (ns_cluster S)"
    and st: "steady ps n S (cluster_turn e m S)"
    and a: "aside x wire ps (wire (registrar (ns_cluster S))) E c" and E: "list_all (settled ps) E"
  shows "moved x wire ps n (\<lambda>t. ops_to t (letters_in E t)) (\<lambda>t. ops_to t (outgoing m)) (\<lambda>b t. []) S
    (cluster_turn e m S)"
proof -
  obtain ms where ms: "sent (executor_tx c) = E @ ms" "list_all (quiet ps) ms"
    using a by (auto simp: aside_def)
  have "\<exists>fs. wire (registrar c) sk = wire (registrar (ns_cluster S)) sk @ fs
      \<and> (\<forall>t \<in> set (tl ps). frame_ops x t fs = [])" for sk
    using a frame_ops_plain unfolding aside_def by blast
  with assms ms quiet_ops [OF ms(2)] quiet_all_settled [OF ms(2)] show ?thesis
    by (simp add: moved_def)
qed

lemma harmless_mesh:
  assumes x: "wires (ne_cluster e) wire" "decodes_back (ne_cluster e)" and ps: "spread_pids ps"
    and inv: "mesh_inv (ne_cluster e) wire ps N" and n: "n \<in> node ` set ps"
    and rx: "ns_cluster_rx (site N n) = m # rest" and h: "harmless (ne_cluster e) ps (ns_cluster (site N n)) m"
    and st: "steady ps n (site N n) (cluster_turn e m (site N n))"
  shows "mesh_inv (ne_cluster e) wire ps (N\<lparr>site := (site N)(n := cluster_turn e m (site N n))\<rparr>)"
proof -
  let ?S = "site N n"
  note M = mesh_invD [OF inv]
  have run: "both_run ?S" "both_run (cluster_turn e m ?S)" using M(1) [OF n] st by (simp_all add: place_ok_def steady_def)
  obtain c where c: "cluster_handle (ne_cluster e) m ((ns_cluster ?S)\<lparr>executor_tx := empty_chan True\<rparr>) = (Running, c)"
    and turn: "cluster_turn e m ?S = ?S\<lparr>ns_cluster := c, ns_cluster_status := Running, ns_cluster_rx := rest,
       ns_exec_rx := ns_exec_rx ?S @ sent (executor_tx c)\<rparr>" "cs_pid c = cs_pid (ns_cluster ?S)"
    by (rule cluster_turn_Running [OF run(1) rx run(2)])
  have "aside (ne_cluster e) wire ps (wire (registrar (ns_cluster ?S))) [] c"
    using harmless_turn [OF x _ c] h by (simp add: harmless_frame empty_chan_def)
  from aside_moved [OF turn(1) rx turn(2) st this]
  have "moved (ne_cluster e) wire ps n (\<lambda>t. []) (\<lambda>t. ops_to t (outgoing m)) (\<lambda>b t. []) ?S (cluster_turn e m ?S)"
    by (simp add: mailbox_def)
  moreover have "ops_to t (outgoing m) = []" if "t \<in> set (tl ps)" for t
    using that h by (cases m) simp_all
  ultimately have mv: "moved (ne_cluster e) wire ps n (\<lambda>t. []) (\<lambda>t. []) (\<lambda>b t. []) ?S (cluster_turn e m ?S)"
    by (simp add: moved_def)
  from moved_mesh [OF inv n mv fits_nothing [OF inv]] show ?thesis by simp
qed

text \<open>An operation for another node is written to the connection to it.\<close>

lemma carry_mesh:
  assumes x: "wires (ne_cluster e) wire" "decodes_back (ne_cluster e)" and ps: "spread_pids ps"
    and inv: "mesh_inv (ne_cluster e) wire ps N" and n: "n \<in> node ` set ps"
    and rx: "ns_cluster_rx (site N n) = ClusterEnvelope env # rest" and i: "inner ps env"
    and st: "steady ps n (site N n) (cluster_turn e (ClusterEnvelope env) (site N n))"
  shows "mesh_inv (ne_cluster e) wire ps (N\<lparr>site := (site N)(n := cluster_turn e (ClusterEnvelope env) (site N n))\<rparr>)"
proof -
  let ?S = "site N n" and ?m = "ClusterEnvelope env" and ?x = "ne_cluster e"
  let ?t = "env_to env"
  note M = mesh_invD [OF inv]
  note S = M(1) [OF n]
  have run: "both_run ?S" "both_run (cluster_turn e ?m ?S)" using S st by (simp_all add: place_ok_def steady_def)
  obtain c where c: "cluster_handle ?x ?m ((ns_cluster ?S)\<lparr>executor_tx := empty_chan True\<rparr>) = (Running, c)"
    and turn: "cluster_turn e ?m ?S = ?S\<lparr>ns_cluster := c, ns_cluster_status := Running, ns_cluster_rx := rest,
       ns_exec_rx := ns_exec_rx ?S @ sent (executor_tx c)\<rparr>" "cs_pid c = cs_pid (ns_cluster ?S)"
    by (rule cluster_turn_Running [OF run(1) rx run(2)])
  obtain v where v: "env_msg env = User (Op v)" and t: "?t \<in> set (tl ps)" using i by (auto simp: inner_def)
  obtain p where l: "link ps p ?t" using link_into [OF t] by blast
  have op: "op_in ?t env = [v]" using v by (simp add: op_in_def)
  have "node p = n \<and> node ?t \<noteq> n"
  proof (rule ccontr)
    assume "\<not> (node p = n \<and> node ?t \<noteq> n)"
    then have "ops_to ?t (letters_out (ns_cluster_rx ?S)) = []" using S l unfolding place_ok_def by blast
    with rx op show False by simp
  qed
  then have p: "node p = n" "node ?t \<noteq> n" by simp_all
  then have h: "hop ps n (node ?t)" using hopI [OF l] by auto
  then have "line (ns_cluster ?S) (node ?t) \<noteq> None" using S by (simp add: place_ok_def)
  then obtain i k where k: "hm_get (established (ns_cluster ?S)) (node ?t) = Some i"
    "hm_get (connections (ns_cluster ?S)) i = Some k"
    by (auto simp: line_def split: option.splits)
  have line: "line (ns_cluster ?S) (node ?t) = Some (sock k)" using k by (simp add: line_def)
  have "pname (cs_pid (ns_cluster ?S)) = ''cluster_server''" using S by (simp add: place_ok_def cluster_pid_def)
  then have "?t \<noteq> cs_pid (ns_cluster ?S)" using ps tl_mem [OF t] by (auto simp: spread_pids_def)
  then obtain b where b: "msg_encode ?x (RemoteEnvelope env) = Some b"
    "wire (registrar c) = (wire (registrar (ns_cluster ?S)))(sock k := wire (registrar (ns_cluster ?S)) (sock k) @ [b])"
    "sent (executor_tx c) = []"
    using carried_out_turn [OF x(1) _ _ _ c, of i k] k by (auto simp: empty_chan_def)
  define V where "V a u = (if a = node ?t then op_in u env else [])" for a u
  have op_b: "frame_op ?x u b = op_in u env" for u
    using x(2) b(1) by (simp add: decodes_back_def frame_op_def)
  have "\<exists>fs. wire (registrar c) sk = wire (registrar (ns_cluster ?S)) sk @ fs
      \<and> (\<forall>u \<in> set (tl ps). frame_ops ?x u fs = V a u)"
    if "hop ps n a" "line (ns_cluster ?S) a = Some sk" for a sk
  proof (cases "a = node ?t")
    case True
    with that line b(2) op_b show ?thesis by (auto simp: V_def intro!: exI [of _ "[b]"])
  next
    case False
    have "sk \<noteq> sock k"
    proof
      assume "sk = sock k"
      with that line have "line (ns_cluster ?S) a = line (ns_cluster ?S) (node ?t)" by simp
      moreover have "inj_on (line (ns_cluster ?S)) {b. hop ps n b}" using S by (simp add: place_ok_def)
      ultimately show False using that h False by (auto dest: inj_onD)
    qed
    with b(2) False show ?thesis by (auto simp: V_def)
  qed
  then have mv: "moved ?x wire ps n (\<lambda>u. []) (\<lambda>u. op_in u env) V ?S (cluster_turn e ?m ?S)"
    using st turn rx b(3) by (auto simp: moved_def mailbox_def)
  have dist: "distinct ps" using ps by (simp add: spread_pids_def)
  have other: "op_in u env = []" if "u \<noteq> ?t" for u using that by (intro op_in_other) simp
  have "V (node u) u = op_in u env" for u
    using other [of u] by (cases "u = ?t") (auto simp: V_def)
  moreover have "V a u = []" if "hop ps n a" "link ps q u" "node q \<noteq> n \<or> node u \<noteq> a" for a q u
    using that other [of u] link_unique(1) [OF dist l] p by (auto simp: V_def)
  ultimately have "fits ?x wire ps N n (\<lambda>u. []) (\<lambda>u. op_in u env) V (got N)"
    using M(2) unfolding fits_def in_transit_def by auto
  from moved_mesh [OF inv n mv this] show ?thesis by simp
qed

text \<open>A frame arrives.\<close>

lemma arrive_mesh:
  assumes x: "wires (ne_cluster e) wire" "decodes_back (ne_cluster e)" and ps: "spread_pids ps"
    and inv: "mesh_inv (ne_cluster e) wire ps N" and h: "hop ps a n"
    and rx: "ns_cluster_rx (site N n) = PollNotifications [nt] # rest"
    and nt: "n_event nt \<noteq> Write" "\<not> own_id (ns_cluster (site N n)) (n_id nt)"
    and f: "in_transit wire N a n = f # fs" "delivers (ne_cluster e) (n_id nt) f (ns_cluster (site N n))"
    and st: "steady ps n (site N n) (cluster_turn e (PollNotifications [nt]) (site N n))"
  shows "mesh_inv (ne_cluster e) wire ps
    (N\<lparr>site := (site N)(n := cluster_turn e (PollNotifications [nt]) (site N n)),
       got := (got N)(a := (got N a)(n := Suc (got N a n)))\<rparr>)" (is "mesh_inv ?x wire ps ?N")
proof -
  let ?S = "site N n" and ?m = "PollNotifications [nt]" and ?s = "(ns_cluster (site N n))\<lparr>executor_tx := empty_chan True\<rparr>"
  note M = mesh_invD [OF inv]
  have n: "n \<in> node ` set ps" and ne: "a \<noteq> n" using hop_mem [OF h] by simp_all
  have run: "both_run ?S" "both_run (cluster_turn e ?m ?S)" using M(1) [OF n] st by (simp_all add: place_ok_def steady_def)
  obtain c where c: "cluster_handle ?x ?m ?s = (Running, c)"
    and turn: "cluster_turn e ?m ?S = ?S\<lparr>ns_cluster := c, ns_cluster_status := Running, ns_cluster_rx := rest,
       ns_exec_rx := ns_exec_rx ?S @ sent (executor_tx c)\<rparr>" "cs_pid c = cs_pid (ns_cluster ?S)"
    by (rule cluster_turn_Running [OF run(1) rx run(2)])
  have d: "delivers ?x (n_id nt) f ?s" and own: "\<not> own_id ?s (n_id nt)"
    using f(2) nt(2) by (simp_all add: own_id_def)
  have "\<exists>E. aside ?x wire ps (wire (registrar (ns_cluster ?S))) E c \<and> list_all (settled ps) E
      \<and> (\<forall>t \<in> set (tl ps). ops_to t (letters_in E t) = frame_op ?x t f)"
  proof (cases "plain_frame ?x ps f")
    case True
    then have "harmless ?x ps ?s ?m" using d by auto
    from harmless_turn [OF x this c] have "aside ?x wire ps (wire (registrar (ns_cluster ?S))) [] c"
      by (simp add: empty_chan_def)
    with frame_op_plain [OF _ True] show ?thesis by (intro exI [of _ "[]"]) (simp add: mailbox_def)
  next
    case False
    then obtain env where env: "msg_decode ?x f = Some (RemoteEnvelope env)" by (auto simp: plain_frame_def)
    have "aside ?x wire ps (wire (registrar (ns_cluster ?S))) [ExecEnvelope env] c"
      using carried_in_turn [OF x d env _ nt(1) own c] by (simp add: empty_chan_def)
    then show ?thesis using env
      by (intro exI [of _ "[ExecEnvelope env]"]) (simp add: mailbox_envelope frame_op_def op_in_def)
  qed
  then obtain E where E: "aside ?x wire ps (wire (registrar (ns_cluster ?S))) E c" "list_all (settled ps) E"
    "\<forall>t \<in> set (tl ps). ops_to t (letters_in E t) = frame_op ?x t f" by blast
  have mv: "moved ?x wire ps n (\<lambda>t. frame_op ?x t f) (\<lambda>t. []) (\<lambda>b t. []) ?S (cluster_turn e ?m ?S)"
    using aside_moved [OF turn(1) rx turn(2) st E(1,2)] E(3) by (simp add: moved_def)
  have len: "Suc (got N a n) \<le> length (wrote wire N a n)"
    using f(1) by (metis Suc_leI drop_all in_transit_def leI list.distinct(1))
  have split: "frame_ops ?x t (in_transit wire N a n) = frame_op ?x t f @ frame_ops ?x t (drop (Suc (got N a n)) (wrote wire N a n))" for t
  proof -
    have "drop (Suc (got N a n)) (wrote wire N a n) = fs"
      using f(1) by (metis in_transit_def drop_Suc list.sel(3) tl_drop)
    with f(1) show ?thesis by simp
  qed
  have stray: "frame_op ?x t f = []" if "link ps p t" "node p \<noteq> a \<or> node t \<noteq> n" for p t
    using M(3) [OF h that] f(1) by simp
  have far: "frame_op ?x t f = []" if "link ps p t" "node t \<noteq> n \<or> node p = n" for p t
    using stray that ne by blast
  have "fits ?x wire ps N n (\<lambda>t. frame_op ?x t f) (\<lambda>t. []) (\<lambda>b t. [])
      ((got N)(a := (got N a)(n := Suc (got N a n))))"
    unfolding fits_def
    using M(2) len split far stray by (auto simp: in_transit_def)
  then show ?thesis by (rule moved_mesh [OF inv n mv])
qed

text \<open>A request, or the poller, adds to the queues only what leaves the chain alone.\<close>

lemma quiet_turn_mesh:
  assumes ps: "spread_pids ps" and inv: "mesh_inv x wire ps N" and n: "n \<in> node ` set ps"
    and st: "steady ps n (site N n) S'" and S': "S' = (site N n)\<lparr>ns_exec_rx := ns_exec_rx (site N n) @ ms,
      ns_cluster_rx := ns_cluster_rx (site N n) @ cs\<rparr>"
    and ms: "list_all (quiet ps) ms" and cs: "letters_out cs = []"
  shows "mesh_inv x wire ps (N\<lparr>site := (site N)(n := S')\<rparr>)"
proof -
  note M = mesh_invD [OF inv]
  have mv: "moved x wire ps n (\<lambda>t. []) (\<lambda>t. []) (\<lambda>b t. []) (site N n) S'"
    using st quiet_ops [OF ms] quiet_all_settled [OF ms] cs
    by (auto simp: moved_def S' intro!: exI [of _ ms] exI [of _ "[]"])
  from moved_mesh [OF inv n mv fits_nothing [OF inv]] show ?thesis by simp
qed

lemma request_mesh:
  assumes "spread_pids ps" and "mesh_inv x wire ps N" and "n \<in> node ` set ps"
    and "steady ps n (site N n) (request_turn e r (site N n))" and q: "quiet_turn ps (Request r)"
  shows "mesh_inv x wire ps (N\<lparr>site := (site N)(n := request_turn e r (site N n))\<rparr>)"
proof -
  let ?h = "snd (request_action e r (node_new (ns_id (site N n))
    (empty_chan (ns_exec_status (site N n) = Running)) (empty_chan (ns_cluster_status (site N n) = Running))))"
  have "list_all (quiet ps) (sent (nd_executor_tx ?h))" "letters_out (sent (nd_cluster_tx ?h)) = []"
    using q
    by (cases r; auto simp: node_requests node_shutdown_def node_new_def send_executor_result
          send_cluster_result empty_chan_def act_defs split: sum.splits)+
  then show ?thesis
    by (intro quiet_turn_mesh [OF assms(1-4)]) (simp_all add: request_turn_def Let_def)
qed

section \<open>Runs\<close>

lemma mesh_step_inv:
  assumes x: "runs_replicas (ne_exec e)" "timers_exact (ne_exec e) tk"
    and w: "wires (ne_cluster e) wire" "decodes_back (ne_cluster e)" and ps: "spread_pids ps"
    and inv: "mesh_inv (ne_cluster e) wire ps N" and step: "mesh_step e wire ps N t N'"
  shows "mesh_inv (ne_cluster e) wire ps N'"
  using step
proof cases
  case (at a u S')
  note st = at(5)
  from at(4) show ?thesis
  proof cases
    case (executor m rest)
    then show ?thesis using executor_turn_mesh [OF x ps inv at(3)] st at(2) by simp
  next
    case (cluster m rest)
    show ?thesis
    proof (cases "harmless (ne_cluster e) ps (ns_cluster (site N a)) m")
      case True
      with cluster show ?thesis using harmless_mesh [OF w ps inv at(3)] st at(2) by simp
    next
      case False
      then have "outgoing m \<noteq> []" using at(7) cluster by (auto simp: cluster_minds_def)
      then obtain env where m: "m = ClusterEnvelope env" by (cases m) auto
      with False have "inner ps env" by simp
      with cluster m show ?thesis using carry_mesh [OF w ps inv at(3)] st at(2) by simp
    qed
  next
    case (poller ns)
    then have S': "S' = (site N a)\<lparr>ns_exec_rx := ns_exec_rx (site N a) @ [],
        ns_cluster_rx := ns_cluster_rx (site N a) @ [PollNotifications ns]\<rparr>"
      using mesh_invD(1) [OF inv at(3)] by (simp add: poller_turn_def place_ok_def both_run_def)
    from quiet_turn_mesh [OF ps inv at(3) st this] at(2) show ?thesis by simp
  next
    case (request r)
    then show ?thesis using request_mesh [OF ps inv at(3), of e r] st at(2,6) by simp
  qed
next
  case (arrives a b nt rest f fs S')
  then have "S' = cluster_turn e (PollNotifications [nt]) (site N b)" by (auto elim: cluster_turnE)
  with arrives arrive_mesh [OF w ps inv] show ?thesis by blast
qed

lemma mesh_steps_inv:
  assumes "mesh_steps e wire ps N ts N'" and "runs_replicas (ne_exec e)" and "timers_exact (ne_exec e) tk"
    and "wires (ne_cluster e) wire" and "decodes_back (ne_cluster e)" and "spread_pids ps"
  shows "mesh_inv (ne_cluster e) wire ps N \<Longrightarrow> mesh_inv (ne_cluster e) wire ps N'"
  using assms(1) by (induction rule: mesh_steps.induct) (auto dest: mesh_step_inv [OF assms(2-6)])

end
