(* ===== verification/GossipNet.thy ===== *)
theory GossipNet
  imports Gossip
begin

text \<open>
  A cluster of cluster servers whose memberships are told by gossip. Links are pairs of
  connections that both ends hold ready; the frames a node has written to its end and the other
  node has not yet read are on the way. The invariant says that nothing is lost: what a node has
  seen, each neighbour has seen or will see from the frames on the way to it. So once nothing is
  on the way, all connected nodes have the same members.
\<close>

section \<open>The network\<close>

text \<open>\<open>taken N a b\<close> counts the frames of \<open>a\<close> that \<open>b\<close> has read; \<open>port a b\<close> is \<open>a\<close>'s connection to \<open>b\<close>.\<close>

record ('t, 'q, 'x, 'w, 'f, 's) network =
  server :: "node_id \<Rightarrow> ('t, 'q, 'x, 'w, 'f, 's) cluster"
  taken :: "node_id \<Rightarrow> node_id \<Rightarrow> nat"

type_synonym topology = "node_id \<Rightarrow> node_id \<Rightarrow> usize option"

definition written ::
    "('w \<Rightarrow> fd \<Rightarrow> bytes list) \<Rightarrow> topology \<Rightarrow> ('t, 'q, 'x, 'w, 'f, 's) network \<Rightarrow> node_id \<Rightarrow> node_id \<Rightarrow> bytes list" where
  "written wire port N a b =
     (case port a b of
        None \<Rightarrow> []
      | Some i \<Rightarrow> (case ready (server N a) i of
            None \<Rightarrow> []
          | Some sk \<Rightarrow> wire (registrar (server N a)) sk))"

definition on_the_way ::
    "('w \<Rightarrow> fd \<Rightarrow> bytes list) \<Rightarrow> topology \<Rightarrow> ('t, 'q, 'x, 'w, 'f, 's) network \<Rightarrow> node_id \<Rightarrow> node_id \<Rightarrow> bytes list" where
  "on_the_way wire port N a b = drop (taken N a b) (written wire port N a b)"

lemma written_same:
  "server N' a = server N a \<Longrightarrow> written wire port N' a b = written wire port N a b"
  by (simp add: written_def cong: option.case_cong)

text \<open>
  A turn of one cluster server: its user lets a node join or leave, or its poller reports that the
  next frame of a neighbour can be read.
\<close>

datatype gossip_turn = JoinAt node_id node_id | LeaveAt node_id node_id | ReadFrom node_id node_id

inductive gossip_step ::
    "('t, 'w, 'f, 's, 'd, 'k) cluster_env \<Rightarrow> ('w \<Rightarrow> fd \<Rightarrow> bytes list) \<Rightarrow> topology
      \<Rightarrow> ('t, 'q, 'x, 'w, 'f, 's) network \<Rightarrow> gossip_turn \<Rightarrow> ('t, 'q, 'x, 'w, 'f, 's) network \<Rightarrow> bool"
  for x wire port where
  join: "cluster_handle x (Join n) (server N a) = (Running, s') \<Longrightarrow>
    gossip_step x wire port N (JoinAt a n) (N\<lparr>server := (server N)(a := s')\<rparr>)"
| leave: "cluster_handle x (Leave n) (server N a) = (Running, s') \<Longrightarrow>
    gossip_step x wire port N (LeaveAt a n) (N\<lparr>server := (server N)(a := s')\<rparr>)"
| read: "port a b \<noteq> None \<Longrightarrow> port b a = Some j \<Longrightarrow> on_the_way wire port N a b = f # fs \<Longrightarrow>
    delivers x j f (server N b) \<Longrightarrow>
    j \<notin> {listener_id (server N b), timer_id (server N b), executor_timer_id (server N b)} \<Longrightarrow>
    cluster_handle x (PollNotifications [\<lparr>n_id = j, n_event = Read\<rparr>]) (server N b) = (Running, s') \<Longrightarrow>
    gossip_step x wire port N (ReadFrom b a) (N\<lparr>server := (server N)(b := s'),
      taken := (taken N)(a := (taken N a)(b := Suc (taken N a b)))\<rparr>)"

inductive gossip_steps ::
    "('t, 'w, 'f, 's, 'd, 'k) cluster_env \<Rightarrow> ('w \<Rightarrow> fd \<Rightarrow> bytes list) \<Rightarrow> topology
      \<Rightarrow> ('t, 'q, 'x, 'w, 'f, 's) network \<Rightarrow> gossip_turn list \<Rightarrow> ('t, 'q, 'x, 'w, 'f, 's) network \<Rightarrow> bool"
  for x wire port where
  none: "gossip_steps x wire port N [] N"
| turn: "gossip_step x wire port N t N' \<Longrightarrow> gossip_steps x wire port N' ts N'' \<Longrightarrow>
    gossip_steps x wire port N (t # ts) N''"

section \<open>The invariant\<close>

definition links_ok :: "topology \<Rightarrow> bool" where
  "links_ok port \<longleftrightarrow> (\<forall>a b. port a b \<noteq> None \<longrightarrow> a \<noteq> b \<and> port b a \<noteq> None)"

definition node_ok ::
    "('t, 'w, 'f, 's, 'd, 'k) cluster_env \<Rightarrow> ('w \<Rightarrow> usize set) \<Rightarrow> (fd \<Rightarrow> node_id) \<Rightarrow> topology
      \<Rightarrow> ('t, 'q, 'x, 'w, 'f, 's) network \<Rightarrow> bool" where
  "node_ok x used peer port N \<longleftrightarrow> (\<forall>a b i. port a b = Some i \<longrightarrow>
     cl_inv x used peer {} None (server N a) \<and> own_sockets (server N a) \<and> ready (server N a) i \<noteq> None)"

definition known :: "('t, 'q, 'x, 'w, 'f, 's) network \<Rightarrow> node_id \<Rightarrow> 's" where
  "known N a = orset (cs_members (server N a))"

definition link_ok ::
    "('t, 'w, 'f, 's, 'd, 'k) cluster_env \<Rightarrow> ('s \<Rightarrow> 's \<Rightarrow> bool) \<Rightarrow> ('w \<Rightarrow> fd \<Rightarrow> bytes list) \<Rightarrow> topology
      \<Rightarrow> ('t, 'q, 'x, 'w, 'f, 's) network \<Rightarrow> node_id \<Rightarrow> node_id \<Rightarrow> bool" where
  "link_ok x le wire port N a b \<longleftrightarrow> taken N a b \<le> length (written wire port N a b) \<and>
     (\<exists>ds. map (msg_decode x) (on_the_way wire port N a b) = map (\<lambda>d. Some (DeltaMsg d)) ds
        \<and> le (known N a) (absorb (set_ops x) ds (known N b)))"

definition gossip_inv where
  "gossip_inv x used peer le wire port N \<longleftrightarrow> node_ok x used peer port N
     \<and> (\<forall>a b. port a b \<noteq> None \<longrightarrow> link_ok x le wire port N a b)"

lemma absorb_simps [simp]:
  "absorb ops [] s = s" "absorb ops (d # ds) s = absorb ops ds (snd (os_join ops d s))"
  "absorb ops (ds @ es) s = absorb ops es (absorb ops ds s)"
  by (simp_all add: absorb_def)

lemma absorb_mono:
  assumes "delta_laws ops le"
  shows "le s t \<Longrightarrow> le (absorb ops ds s) (absorb ops ds t)"
  by (induction ds arbitrary: s t) (auto intro: delta_lawsD(4) [OF assms])

text \<open>
  One turn of node \<open>b\<close>: it tells its neighbours what is new, and may take the first frames of
  those on the way to it, whose deltas it has then seen.
\<close>

lemma turn_links:
  assumes laws: "delta_laws (set_ops x) le" and ports: "links_ok port"
    and inv: "gossip_inv x used peer le wire port N"
    and told: "told x le wire es (server N b) s'"
    and T: "\<And>p q. q \<noteq> b \<Longrightarrow> T p q = taken N p q"
    and got: "\<And>p ds. port p b \<noteq> None \<Longrightarrow>
      map (msg_decode x) (on_the_way wire port N p b) = map (\<lambda>d. Some (DeltaMsg d)) ds \<Longrightarrow>
      taken N p b \<le> T p b \<and> T p b \<le> length (written wire port N p b)
      \<and> le (absorb (set_ops x) ds (known N b))
           (absorb (set_ops x) (drop (T p b - taken N p b) ds) (orset (cs_members s')))"
    and link: "port p q \<noteq> None"
  shows "link_ok x le wire port (N\<lparr>server := (server N)(b := s'), taken := T\<rparr>) p q"
proof -
  let ?N = "N\<lparr>server := (server N)(b := s'), taken := T\<rparr>"
  note trans = delta_lawsD(2) [OF laws]
  have ne: "p \<noteq> q" using ports link by (auto simp: links_ok_def)
  obtain ds where len: "taken N p q \<le> length (written wire port N p q)"
    and ds: "map (msg_decode x) (on_the_way wire port N p q) = map (\<lambda>d. Some (DeltaMsg d)) ds"
    and le: "le (known N p) (absorb (set_ops x) ds (known N q))"
    using inv link by (auto simp: gossip_inv_def link_ok_def)
  obtain fs where fs: "map (msg_decode x) fs = map (\<lambda>d. Some (DeltaMsg d)) es"
    and wire: "\<And>i sk. ready (server N b) i = Some sk \<Longrightarrow> wire (registrar s') sk = wire (registrar (server N b)) sk @ fs"
    and ready: "ready s' = ready (server N b)"
    and grown: "le (known N b) (orset (cs_members s'))"
    and told_le: "le (orset (cs_members s')) (absorb (set_ops x) es (known N b))"
    using told by (auto simp: told_def known_def)
  consider "p = b" "q \<noteq> b" | "q = b" "p \<noteq> b" | "p \<noteq> b" "q \<noteq> b" using ne by blast
  then show ?thesis
  proof cases
    case 1
    obtain i where i: "port b q = Some i" using link 1 by auto
    then have "ready (server N b) i \<noteq> None" using inv unfolding gossip_inv_def node_ok_def by blast
    then obtain sk where sk: "ready (server N b) i = Some sk" by blast
    have w: "written wire port ?N b q = written wire port N b q @ fs"
      using i sk ready wire by (simp add: written_def)
    then have way: "on_the_way wire port ?N b q = on_the_way wire port N b q @ fs"
      using T [OF 1(2)] len 1 by (simp add: on_the_way_def)
    have "le (orset (cs_members s')) (absorb (set_ops x) (ds @ es) (known N q))"
      using trans [OF told_le] absorb_mono [OF laws, of "known N b" _ es] le 1 by simp
    with ds fs way w T [OF 1(2)] len 1 show ?thesis
      by (auto simp: link_ok_def known_def intro!: exI [of _ "ds @ es"])
  next
    case 2
    have w: "written wire port ?N p b = written wire port N p b"
      using 2 by (intro written_same) simp
    have g: "taken N p b \<le> T p b" "T p b \<le> length (written wire port N p b)"
      "le (absorb (set_ops x) ds (known N b))
           (absorb (set_ops x) (drop (T p b - taken N p b) ds) (orset (cs_members s')))"
      using got [of p ds] link ds 2 by blast+
    have "on_the_way wire port ?N p b = drop (T p b - taken N p b) (on_the_way wire port N p b)"
      using g(1) w by (simp add: on_the_way_def)
    then have "map (msg_decode x) (on_the_way wire port ?N p b)
        = map (\<lambda>d. Some (DeltaMsg d)) (drop (T p b - taken N p b) ds)"
      using ds 2 by (simp add: drop_map [symmetric])
    moreover have "le (known N p) (absorb (set_ops x) (drop (T p b - taken N p b) ds) (orset (cs_members s')))"
      using trans [OF _ g(3)] le 2 by simp
    ultimately show ?thesis using g(2) w 2 by (auto simp: link_ok_def known_def)
  next
    case 3
    have "written wire port ?N p q = written wire port N p q" using 3 by (intro written_same) simp
    with 3 len ds le T [OF 3(2)] show ?thesis
      by (auto simp: link_ok_def known_def on_the_way_def)
  qed
qed

lemma turn_inv:
  assumes laws: "delta_laws (set_ops x) le" and ports: "links_ok port"
    and inv: "gossip_inv x used peer le wire port N"
    and told: "told x le wire es (server N b) s'" and safe: "cl_inv x used peer {} None s'"
    and T: "\<And>p q. q \<noteq> b \<Longrightarrow> T p q = taken N p q"
    and got: "\<And>p ds. port p b \<noteq> None \<Longrightarrow>
      map (msg_decode x) (on_the_way wire port N p b) = map (\<lambda>d. Some (DeltaMsg d)) ds \<Longrightarrow>
      taken N p b \<le> T p b \<and> T p b \<le> length (written wire port N p b)
      \<and> le (absorb (set_ops x) ds (known N b))
           (absorb (set_ops x) (drop (T p b - taken N p b) ds) (orset (cs_members s')))"
  shows "gossip_inv x used peer le wire port (N\<lparr>server := (server N)(b := s'), taken := T\<rparr>)"
proof -
  have "ready s' = ready (server N b)" using told by (simp add: told_def)
  then have "node_ok x used peer port (N\<lparr>server := (server N)(b := s'), taken := T\<rparr>)"
    unfolding node_ok_def
  proof (intro allI impI, goal_cases)
    case (1 p q i)
    with inv have "cl_inv x used peer {} None (server N p) \<and> own_sockets (server N p)
        \<and> ready (server N p) i \<noteq> None"
      unfolding gossip_inv_def node_ok_def by blast
    with safe \<open>ready s' = ready (server N b)\<close> show ?case
      by (cases "p = b") (simp_all add: own_sockets_def)
  qed
  with turn_links [OF laws ports inv told T got] show ?thesis unfolding gossip_inv_def by blast
qed

text \<open>A node without links is no part of the network.\<close>

lemma alone_inv:
  assumes "links_ok port" and "gossip_inv x used peer le wire port N" and "\<forall>q. port a q = None"
  shows "gossip_inv x used peer le wire port (N\<lparr>server := (server N)(a := s')\<rparr>)"
proof -
  have "p \<noteq> a \<and> q \<noteq> a" if "port p q \<noteq> None" for p q
    using that assms(1,3) unfolding links_ok_def by metis
  then have same: "server (N\<lparr>server := (server N)(a := s')\<rparr>) p = server N p"
    "server (N\<lparr>server := (server N)(a := s')\<rparr>) q = server N q" if "port p q \<noteq> None" for p q
    using that by simp_all
  have "node_ok x used peer port (N\<lparr>server := (server N)(a := s')\<rparr>)"
    unfolding node_ok_def
  proof (intro allI impI, goal_cases)
    case (1 p q i)
    then have "server (N\<lparr>server := (server N)(a := s')\<rparr>) p = server N p" using same(1) [of p q] by simp
    with 1 assms(2) show ?case by (simp only: gossip_inv_def node_ok_def) blast
  qed
  moreover have "link_ok x le wire port (N\<lparr>server := (server N)(a := s')\<rparr>) p q" if "port p q \<noteq> None" for p q
    using assms(2) that same [OF that] written_same [OF same(1) [OF that]]
    by (simp add: gossip_inv_def link_ok_def known_def on_the_way_def)
  ultimately show ?thesis by (simp add: gossip_inv_def)
qed

lemma user_turn_inv:
  assumes laws: "delta_laws (set_ops x) le" and ports: "links_ok port"
    and inv: "gossip_inv x used peer le wire port N"
    and run: "cluster_handle x m (server N a) = (Running, s')"
    and told: "cl_inv x used peer {} None (server N a) \<Longrightarrow> own_sockets (server N a) \<Longrightarrow>
      \<exists>ds. told x le wire ds (server N a) s'"
  shows "gossip_inv x used peer le wire port (N\<lparr>server := (server N)(a := s')\<rparr>)"
proof (cases "\<exists>q. port a q \<noteq> None")
  case True
  then have ok: "cl_inv x used peer {} None (server N a)" "own_sockets (server N a)"
    using inv unfolding gossip_inv_def node_ok_def by blast+
  then obtain es where es: "told x le wire es (server N a) s'" using told by blast
  have safe: "cl_inv x used peer {} None s'" using cluster_handle_inv [OF ok(1) run] by blast
  have grown: "le (known N a) (orset (cs_members s'))" using es by (simp add: told_def known_def)
  have "taken N p a \<le> length (written wire port N p a)" if "port p a \<noteq> None" for p
    using inv that by (simp add: gossip_inv_def link_ok_def)
  with absorb_mono [OF laws grown]
  have "gossip_inv x used peer le wire port (N\<lparr>server := (server N)(a := s'), taken := taken N\<rparr>)"
    by (intro turn_inv [OF laws ports inv es safe]) simp_all
  then show ?thesis by simp
qed (use alone_inv [OF ports inv] in auto)

lemma gossip_step_inv:
  assumes x: "transports x wire" "delta_codec x" and laws: "delta_laws (set_ops x) le"
    and ports: "links_ok port" and inv: "gossip_inv x used peer le wire port N"
    and step: "gossip_step x wire port N t N'"
  shows "gossip_inv x used peer le wire port N'"
  using step
proof cases
  case (join n a s')
  show ?thesis unfolding join
    by (rule user_turn_inv [OF laws ports inv join(3) join_turn_told [OF x laws _ _ join(3)]])
next
  case (leave n a s')
  show ?thesis unfolding leave
    by (rule user_turn_inv [OF laws ports inv leave(3) leave_turn_told [OF x laws _ _ leave(3)]])
next
  case (read a b j f fs s')
  have ok: "cl_inv x used peer {} None (server N b)" "own_sockets (server N b)"
    using inv read(4) unfolding gossip_inv_def node_ok_def by blast+
  have safe: "cl_inv x used peer {} None s'" using cluster_handle_inv [OF ok(1) read(8)] by blast
  obtain d ds where d: "map (msg_decode x) (on_the_way wire port N a b) = map (\<lambda>d. Some (DeltaMsg d)) (d # ds)"
  proof -
    have "link_ok x le wire port N a b" using inv read(3) by (simp add: gossip_inv_def)
    then obtain es where "map (msg_decode x) (on_the_way wire port N a b) = map (\<lambda>d. Some (DeltaMsg d)) es"
      by (auto simp: link_ok_def)
    with read(5) that show thesis by (cases es) auto
  qed
  then have "msg_decode x f = Some (DeltaMsg d)" using read(5) by simp
  note read_told = receive_turn_told [OF x laws ok read(6) this read(7,8)]
  then obtain es where es: "told x le wire es (server N b) s'" by blast
  have got: "le (snd (os_join (set_ops x) d (known N b))) (orset (cs_members s'))"
    using read_told by (simp add: known_def)
  have grown: "le (known N b) (orset (cs_members s'))" using es by (simp add: told_def known_def)
  have len: "taken N p b \<le> length (written wire port N p b)" if "port p b \<noteq> None" for p
    using inv that by (simp add: gossip_inv_def link_ok_def)
  have more: "Suc (taken N a b) \<le> length (written wire port N a b)"
    using read(5) by (metis Suc_leI drop_all leI list.distinct(1) on_the_way_def)
  have unique: "es' = d # ds"
    if "map (msg_decode x) (on_the_way wire port N a b) = map (\<lambda>d. Some (DeltaMsg d)) es'" for es'
  proof -
    have inj: "inj (\<lambda>d. Some (DeltaMsg d))" by (simp add: inj_def)
    show ?thesis by (rule map_injective [OF trans [OF that [symmetric] d] inj])
  qed
  define T where "T = (taken N)(a := (taken N a)(b := Suc (taken N a b)))"
  have taken: "taken N p b \<le> T p b \<and> T p b \<le> length (written wire port N p b)
      \<and> le (absorb (set_ops x) es' (known N b))
           (absorb (set_ops x) (drop (T p b - taken N p b) es') (orset (cs_members s')))"
    if "port p b \<noteq> None" "map (msg_decode x) (on_the_way wire port N p b) = map (\<lambda>d. Some (DeltaMsg d)) es'" for p es'
  proof (cases "p = a")
    case True
    then have "es' = d # ds" using unique that(2) by blast
    with True more absorb_mono [OF laws got] show ?thesis by (simp add: T_def)
  next
    case False
    with len [OF that(1)] absorb_mono [OF laws grown] show ?thesis by (simp add: T_def)
  qed
  have "gossip_inv x used peer le wire port (N\<lparr>server := (server N)(b := s'), taken := T\<rparr>)"
    by (rule turn_inv [OF laws ports inv es safe]) (use taken in \<open>simp_all add: T_def\<close>)
  then show ?thesis unfolding read T_def .
qed

lemma gossip_steps_inv:
  assumes "gossip_steps x wire port N ts N'" and "transports x wire" and "delta_codec x"
    and "delta_laws (set_ops x) le" and "links_ok port"
  shows "gossip_inv x used peer le wire port N \<Longrightarrow> gossip_inv x used peer le wire port N'"
  using assms by (induction rule: gossip_steps.induct) (auto dest: gossip_step_inv)

section \<open>Paths of links\<close>

definition linked :: "topology \<Rightarrow> node_id \<Rightarrow> node_id \<Rightarrow> bool" where
  "linked port a b \<longleftrightarrow> port a b \<noteq> None"

lemma linked_sym: "links_ok port \<Longrightarrow> linked port a b \<Longrightarrow> linked port b a"
  by (simp add: links_ok_def linked_def)

lemma linked_path_sym:
  assumes "links_ok port"
  shows "(linked port)\<^sup>*\<^sup>* a b \<Longrightarrow> (linked port)\<^sup>*\<^sup>* b a"
  by (induction rule: rtranclp_induct)
     (auto intro: converse_rtranclp_into_rtranclp linked_sym [OF assms])

text \<open>A network in which nothing is on the way, and neighbours know the same, has the invariant.\<close>

lemma gossip_inv_start:
  assumes "node_ok x used peer port N"
    and "\<forall>p q. linked port p q \<longrightarrow> taken N p q = length (written wire port N p q) \<and> le (known N p) (known N q)"
  shows "gossip_inv x used peer le wire port N"
proof -
  have "link_ok x le wire port N p q" if "port p q \<noteq> None" for p q
    using assms(2) that by (simp add: link_ok_def on_the_way_def linked_def)
  with assms(1) show ?thesis by (simp add: gossip_inv_def)
qed

text \<open>Nothing that \<open>a\<close> knows is unknown to a node it has a path to, when nothing is on the way.\<close>

lemma quiet_path:
  assumes "delta_laws (set_ops x) le" and "gossip_inv x used peer le wire port N"
    and "\<And>a b. linked port a b \<Longrightarrow> on_the_way wire port N a b = []"
  shows "(linked port)\<^sup>*\<^sup>* a b \<Longrightarrow> le (known N a) (known N b)"
proof (induction rule: rtranclp_induct)
  case base
  show ?case by (rule delta_lawsD(1) [OF assms(1)])
next
  case (step b c)
  have "link_ok x le wire port N b c"
    using assms(2) step(2) unfolding gossip_inv_def linked_def by blast
  then have "le (known N b) (known N c)"
    using assms(3) [OF step(2)] by (auto simp: link_ok_def)
  with step(3) show ?case by (rule delta_lawsD(2) [OF assms(1)])
qed

end
