(* ===== verification/GossipEnds.thy ===== *)
theory GossipEnds
  imports GossipNet
begin

text \<open>
  Gossip comes to rest: a node passes a delta on only when it has not seen it, so reading alone
  can go on only for a bounded number of turns.
\<close>

section \<open>Hypothesis\<close>

text \<open>A delta that was joined was seen, and stays seen as the set grows.\<close>

definition delta_seen :: "('s, 'd, 'k) orset_ops \<Rightarrow> ('s \<Rightarrow> 's \<Rightarrow> bool) \<Rightarrow> bool" where
  "delta_seen ops le \<longleftrightarrow>
     (\<forall>d s. \<not> fst (os_join ops d (snd (os_join ops d s)))) \<and>
     (\<forall>d s t. le s t \<longrightarrow> \<not> fst (os_join ops d s) \<longrightarrow> \<not> fst (os_join ops d t))"

section \<open>What one read moves\<close>

abbreviation news :: "('t, 'w, 'f, 's, 'd, 'k) cluster_env \<Rightarrow> 'd \<Rightarrow> 's \<Rightarrow> 'd list" where
  "news x d s \<equiv> (if fst (os_join (set_ops x) d s) then [d] else [])"

lemma read_moves:
  assumes x: "transports x wire" "delta_codec x" and laws: "delta_laws (set_ops x) le"
    and ports: "links_ok port" and inv: "gossip_inv x used peer le wire port N"
    and step: "gossip_step x wire port N (ReadFrom b a) N'"
  obtains f fs d where "port a b \<noteq> None" "on_the_way wire port N a b = f # fs"
    "msg_decode x f = Some (DeltaMsg d)" "on_the_way wire port N' a b = fs"
    "\<forall>q. port b q \<noteq> None \<longrightarrow> (\<exists>gs. on_the_way wire port N' b q = on_the_way wire port N b q @ gs
       \<and> map (msg_decode x) gs = map (\<lambda>d. Some (DeltaMsg d)) (news x d (known N b)))"
    "\<forall>p q. p \<noteq> b \<longrightarrow> (p, q) \<noteq> (a, b) \<longrightarrow> on_the_way wire port N' p q = on_the_way wire port N p q"
    "\<forall>p. le (known N p) (known N' p)"
    "le (snd (os_join (set_ops x) d (known N b))) (known N' b)"
  using step
proof cases
  case (read j f fs s')
  have ok: "cl_inv x used peer {} None (server N b)" "own_sockets (server N b)"
    using inv read(3) unfolding gossip_inv_def node_ok_def by blast+
  have "link_ok x le wire port N a b" using inv read(2) by (simp add: gossip_inv_def)
  then obtain es where "map (msg_decode x) (on_the_way wire port N a b) = map (\<lambda>d. Some (DeltaMsg d)) es"
    by (auto simp: link_ok_def)
  with read(4) obtain d where d: "msg_decode x f = Some (DeltaMsg d)" by (cases es) auto
  note told = receive_turn_told [OF x laws ok read(5) d read(6,7)]
  have ab: "a \<noteq> b" using ports read(2) by (simp add: links_ok_def)
  have server: "server N' p = (if p = b then s' else server N p)" for p using read(1) by simp
  have taken: "taken N' p q = (if p = a \<and> q = b then Suc (taken N p q) else taken N p q)" for p q
    using read(1) by simp
  have ready: "ready s' = ready (server N b)" using told by (simp add: told_def)
  have same: "written wire port N' p q = written wire port N p q" if "p \<noteq> b" for p q
    using server that by (intro written_same) simp
  show ?thesis
  proof (rule that [OF read(2,4) d], goal_cases)
    case 1
    have "on_the_way wire port N' a b = drop 1 (on_the_way wire port N a b)"
      using same [OF ab] taken by (simp add: on_the_way_def drop_Suc drop_tl)
    then show ?case using read(4) by simp
  next
    case 2
    have "\<exists>gs. on_the_way wire port N' b q = on_the_way wire port N b q @ gs
       \<and> map (msg_decode x) gs = map (\<lambda>d. Some (DeltaMsg d)) (news x d (known N b))"
      if bq: "port b q \<noteq> None" for q
    proof -
      obtain gs where gs: "map (msg_decode x) gs = map (\<lambda>d. Some (DeltaMsg d)) (news x d (known N b))"
        and wire: "\<And>i sk. ready (server N b) i = Some sk \<Longrightarrow>
          wire (registrar s') sk = wire (registrar (server N b)) sk @ gs"
        using told unfolding told_def known_def by blast
      obtain i where i: "port b q = Some i" using bq by auto
      then have "ready (server N b) i \<noteq> None" using inv unfolding gossip_inv_def node_ok_def by blast
      then obtain sk where sk: "ready (server N b) i = Some sk" by blast
      have "taken N b q \<le> length (written wire port N b q)"
        using inv bq by (simp add: gossip_inv_def link_ok_def)
      then have "on_the_way wire port N' b q = on_the_way wire port N b q @ gs"
        using i sk ready wire server [of b] taken [of b q] ab by (simp add: on_the_way_def written_def)
      with gs show ?thesis by blast
    qed
    then show ?case by blast
  next
    case 3
    with same taken show ?case by (auto simp: on_the_way_def)
  next
    case 4
    show ?case using told delta_lawsD(1) [OF laws] server by (simp add: known_def told_def)
  next
    case 5
    show ?case using told server by (simp add: known_def)
  qed
qed

section \<open>The frames on the way\<close>

definition links :: "topology \<Rightarrow> (node_id \<times> node_id) set" where
  "links port = {(a, b). port a b \<noteq> None}"

definition degree :: "topology \<Rightarrow> node_id \<Rightarrow> nat" where
  "degree port b = card {l \<in> links port. fst l = b}"

definition pending ::
    "('w \<Rightarrow> fd \<Rightarrow> bytes list) \<Rightarrow> topology \<Rightarrow> ('t, 'q, 'x, 'w, 'f, 's) network \<Rightarrow> nat" where
  "pending wire port N = (\<Sum>(a, b) \<in> links port. length (on_the_way wire port N a b))"

definition way_deltas ::
    "('t, 'w, 'f, 's, 'd, 'k) cluster_env \<Rightarrow> ('w \<Rightarrow> fd \<Rightarrow> bytes list) \<Rightarrow> topology
      \<Rightarrow> ('t, 'q, 'x, 'w, 'f, 's) network \<Rightarrow> 'd set" where
  "way_deltas x wire port N = {d. \<exists>a b. port a b \<noteq> None \<and>
     Some (DeltaMsg d) \<in> msg_decode x ` set (on_the_way wire port N a b)}"

text \<open>The deltas of \<open>D\<close> that a node has not seen.\<close>

definition unseen ::
    "('t, 'w, 'f, 's, 'd, 'k) cluster_env \<Rightarrow> 'd set \<Rightarrow> ('t, 'q, 'x, 'w, 'f, 's) network \<Rightarrow> node_id \<Rightarrow> 'd set" where
  "unseen x D N b = {d \<in> D. fst (os_join (set_ops x) d (known N b))}"

definition potential where
  "potential x wire port D N =
     pending wire port N + (\<Sum>b \<in> fst ` links port. card (unseen x D N b) * degree port b)"

lemma sum_links:
  assumes "finite (links port)" and "(a, b) \<in> links port"
    and "\<And>p q. (p, q) \<in> links port \<Longrightarrow>
      g p q + (if (p, q) = (a, b) then 1 else 0) = f p q + (if p = b then k else (0::nat))"
  shows "(\<Sum>(p, q) \<in> links port. g p q) + 1 = (\<Sum>(p, q) \<in> links port. f p q) + k * degree port b"
proof -
  have one: "(\<Sum>l \<in> links port. if l = (a, b) then 1 else 0) = (1 :: nat)"
    using assms(1,2) by simp
  have deg: "(\<Sum>l \<in> links port. if fst l = b then k else 0) = k * degree port b"
  proof -
    have "(\<Sum>l \<in> links port. if fst l = b then k else 0) = (\<Sum>l \<in> {l \<in> links port. fst l = b}. k)"
      by (rule sum.inter_filter [symmetric, OF assms(1)])
    then show ?thesis by (simp add: degree_def)
  qed
  have "(\<Sum>l \<in> links port. (case l of (p, q) \<Rightarrow> g p q) + (if l = (a, b) then 1 else 0))
      = (\<Sum>l \<in> links port. (case l of (p, q) \<Rightarrow> f p q) + (if fst l = b then k else 0))"
  proof (intro sum.cong refl)
    fix l assume "l \<in> links port"
    then show "(case l of (p, q) \<Rightarrow> g p q) + (if l = (a, b) then 1 else 0)
        = (case l of (p, q) \<Rightarrow> f p q) + (if fst l = b then k else 0)"
      using assms(3) [of "fst l" "snd l"] by (cases l) (simp only: fst_conv snd_conv case_prod_conv)
  qed
  then show ?thesis by (simp only: sum.distrib one deg)
qed

lemma read_potential:
  assumes x: "transports x wire" "delta_codec x" and laws: "delta_laws (set_ops x) le"
    and seen: "delta_seen (set_ops x) le" and ports: "links_ok port" "finite (links port)"
    and D: "finite D" "way_deltas x wire port N \<subseteq> D"
    and inv: "gossip_inv x used peer le wire port N"
    and step: "gossip_step x wire port N (ReadFrom b a) N'"
  shows "potential x wire port D N' < potential x wire port D N \<and> way_deltas x wire port N' \<subseteq> D"
proof -
  obtain f fs d where ab: "port a b \<noteq> None" and way: "on_the_way wire port N a b = f # fs"
    and d: "msg_decode x f = Some (DeltaMsg d)" and way': "on_the_way wire port N' a b = fs"
    and out: "\<forall>q. port b q \<noteq> None \<longrightarrow> (\<exists>gs. on_the_way wire port N' b q = on_the_way wire port N b q @ gs
       \<and> map (msg_decode x) gs = map (\<lambda>d. Some (DeltaMsg d)) (news x d (known N b)))"
    and rest: "\<forall>p q. p \<noteq> b \<longrightarrow> (p, q) \<noteq> (a, b) \<longrightarrow> on_the_way wire port N' p q = on_the_way wire port N p q"
    and grown: "\<forall>p. le (known N p) (known N' p)"
    and joined: "le (snd (os_join (set_ops x) d (known N b))) (known N' b)"
    by (rule read_moves [OF x laws ports(1) inv step]) (rule that)
  let ?k = "length (news x d (known N b))"
  have ne: "a \<noteq> b" using ab ports(1) by (simp add: links_ok_def)
  have dD: "d \<in> D"
  proof -
    have "Some (DeltaMsg d) \<in> msg_decode x ` set (on_the_way wire port N a b)" using way d by force
    with ab D(2) show ?thesis unfolding way_deltas_def by blast
  qed
  have new: "set (on_the_way wire port N' p q) \<subseteq> set (on_the_way wire port N p q)
      \<union> {g. msg_decode x g = Some (DeltaMsg d)}" if l: "port p q \<noteq> None" for p q
  proof (cases "p = b")
    case True
    with l have "port b q \<noteq> None" by simp
    with out obtain gs where gs: "on_the_way wire port N' b q = on_the_way wire port N b q @ gs"
      "map (msg_decode x) gs = map (\<lambda>d. Some (DeltaMsg d)) (news x d (known N b))"
      by blast
    then have "set (map (msg_decode x) gs) \<subseteq> {Some (DeltaMsg d)}" by (simp split: if_splits)
    with gs(1) True show ?thesis by auto
  next
    case False
    with rest way way' show ?thesis by (cases "(p, q) = (a, b)") auto
  qed
  have closed: "way_deltas x wire port N' \<subseteq> D"
  proof
    fix d' assume "d' \<in> way_deltas x wire port N'"
    then obtain p q g where g: "port p q \<noteq> None" "g \<in> set (on_the_way wire port N' p q)"
      "msg_decode x g = Some (DeltaMsg d')" unfolding way_deltas_def by force
    from new [OF g(1)] g(2) consider "g \<in> set (on_the_way wire port N p q)" | "msg_decode x g = Some (DeltaMsg d)"
      by blast
    then show "d' \<in> D"
    proof cases
      case 1
      then have "Some (DeltaMsg d') \<in> msg_decode x ` set (on_the_way wire port N p q)" using g(3) by force
      with g(1) D(2) show ?thesis unfolding way_deltas_def by blast
    qed (use g(3) dD in simp)
  qed
  have "length (on_the_way wire port N' p q) + (if (p, q) = (a, b) then 1 else 0)
      = length (on_the_way wire port N p q) + (if p = b then ?k else 0)" if l: "(p, q) \<in> links port" for p q
  proof (cases "p = b")
    case True
    have "port b q \<noteq> None" using l True by (simp add: links_def)
    with out obtain gs where gs: "on_the_way wire port N' b q = on_the_way wire port N b q @ gs"
      "map (msg_decode x) gs = map (\<lambda>d. Some (DeltaMsg d)) (news x d (known N b))" by blast
    have "length gs = ?k" using arg_cong [OF gs(2), of length] by simp
    with gs(1) True ne show ?thesis by simp
  next
    case False
    with rest way way' show ?thesis by auto
  qed
  from sum_links [OF ports(2) _ this] have pending: "pending wire port N' + 1 = pending wire port N + ?k * degree port b"
    using ab by (simp add: pending_def links_def)
  have fewer: "unseen x D N' p \<subseteq> unseen x D N p" for p
    using grown seen unfolding unseen_def delta_seen_def by blast
  have less: "card (unseen x D N' b) + ?k \<le> card (unseen x D N b)"
  proof (cases "fst (os_join (set_ops x) d (known N b))")
    case True
    have "\<not> fst (os_join (set_ops x) d (known N' b))" using seen joined unfolding delta_seen_def by blast
    then have "d \<in> unseen x D N b" "d \<notin> unseen x D N' b" using True dD by (simp_all add: unseen_def)
    then have "unseen x D N' b \<subset> unseen x D N b" using fewer by blast
    from psubset_card_mono [OF _ this] True D(1) show ?thesis by (simp add: unseen_def)
  next
    case False
    from card_mono [OF _ fewer, of b] False D(1) show ?thesis by (simp add: unseen_def)
  qed
  have "(b, a) \<in> links port" using ports(1) ab by (simp add: links_ok_def links_def)
  then have nodes: "finite (fst ` links port)" "b \<in> fst ` links port" using ports(2) by force+
  have "(\<Sum>p \<in> fst ` links port. card (unseen x D N' p) * degree port p) + ?k * degree port b
      \<le> (\<Sum>p \<in> fst ` links port. card (unseen x D N p) * degree port p)"
  proof -
    have "(\<Sum>p \<in> fst ` links port - {b}. card (unseen x D N' p) * degree port p)
        \<le> (\<Sum>p \<in> fst ` links port - {b}. card (unseen x D N p) * degree port p)"
      using card_mono [OF _ fewer] D(1) by (intro sum_mono mult_right_mono) (simp_all add: unseen_def)
    moreover have "card (unseen x D N' b) * degree port b + ?k * degree port b
        \<le> card (unseen x D N b) * degree port b"
      using mult_le_mono1 [OF less, of "degree port b"] by (simp only: distrib_right)
    ultimately show ?thesis by (simp only: sum.remove [OF nodes])
  qed
  with pending have "potential x wire port D N' < potential x wire port D N" by (simp add: potential_def)
  with closed show ?thesis by blast
qed

section \<open>The bound\<close>

fun is_read :: "gossip_turn \<Rightarrow> bool" where
  "is_read (ReadFrom b a) = True"
| "is_read t = False"

lemma reads_bounded:
  assumes "gossip_steps x wire port N ts N'" and x: "transports x wire" "delta_codec x"
    and laws: "delta_laws (set_ops x) le" "delta_seen (set_ops x) le" "links_ok port" "finite (links port)"
    and D: "finite D"
  shows "list_all is_read ts \<Longrightarrow> way_deltas x wire port N \<subseteq> D \<Longrightarrow> gossip_inv x used peer le wire port N \<Longrightarrow>
    length ts \<le> potential x wire port D N"
  using assms(1)
proof (induction rule: gossip_steps.induct)
  case (turn N t N1 ts N2)
  obtain b a where t: "t = ReadFrom b a" using turn.prems(1) by (cases t) auto
  with turn have step: "gossip_step x wire port N (ReadFrom b a) N1" by simp
  note down = read_potential [OF x laws(1,2,3,4) D turn.prems(2,3) step]
  have "gossip_inv x used peer le wire port N1"
    by (rule gossip_step_inv [OF x laws(1,3) turn.prems(3) step])
  with turn down have "length ts \<le> potential x wire port D N1" by simp
  with down show ?case by simp
qed simp

text \<open>There are no more deltas on the way than frames, and each may be passed on over every link.\<close>

lemma way_deltas_few:
  fixes x :: "('t, 'w, 'f, 's, 'd, 'k) cluster_env"
  assumes "finite (links port)"
  shows "finite (way_deltas x wire port N) \<and> card (way_deltas x wire port N) \<le> pending wire port N"
proof -
  let ?F = "\<Union>l \<in> links port. set (on_the_way wire port N (fst l) (snd l))"
  let ?g = "\<lambda>d. Some (DeltaMsg d :: ('t, 's, 'd) external_msg)"
  have inj: "inj_on ?g (way_deltas x wire port N)" by (simp add: inj_on_def)
  have sub: "?g ` way_deltas x wire port N \<subseteq> msg_decode x ` ?F"
    by (force simp: way_deltas_def links_def)
  have fin: "finite ?F" using assms by simp
  have "card ?F \<le> (\<Sum>l \<in> links port. card (set (on_the_way wire port N (fst l) (snd l))))"
    by (rule card_UN_le [OF assms])
  also have "\<dots> \<le> (\<Sum>l \<in> links port. length (on_the_way wire port N (fst l) (snd l)))"
    by (intro sum_mono card_length)
  also have "\<dots> = pending wire port N" by (simp add: pending_def case_prod_beta)
  finally have "card ?F \<le> pending wire port N" .
  moreover have "card (way_deltas x wire port N) \<le> card (msg_decode x ` ?F)"
    using card_mono [OF finite_imageI [OF fin] sub] card_image [OF inj] by simp
  ultimately show ?thesis
    using card_image_le [OF fin, of "msg_decode x"] finite_imageD [OF finite_subset [OF sub finite_imageI [OF fin]] inj]
    by linarith
qed

lemma degrees: "finite (links port) \<Longrightarrow> (\<Sum>b \<in> fst ` links port. degree port b) = card (links port)"
  using sum.image_gen [of "links port" "\<lambda>l. 1 :: nat" fst] by (simp add: degree_def)

lemma potential_bound:
  assumes "finite (links port)"
  shows "potential x wire port (way_deltas x wire port N) N \<le> pending wire port N * (card (links port) + 1)"
proof -
  let ?D = "way_deltas x wire port N"
  note few = way_deltas_few [OF assms, of x wire N]
  have "card (unseen x ?D N b) \<le> pending wire port N" for b
    using card_mono [of ?D "unseen x ?D N b"] few by (auto simp: unseen_def)
  then have "(\<Sum>b \<in> fst ` links port. card (unseen x ?D N b) * degree port b)
      \<le> (\<Sum>b \<in> fst ` links port. pending wire port N * degree port b)"
    by (intro sum_mono mult_right_mono) simp_all
  also have "\<dots> = pending wire port N * card (links port)"
    using degrees [OF assms] by (simp add: sum_distrib_left [symmetric])
  finally show ?thesis by (simp add: potential_def)
qed

end
