(* ===== verification/GossipClaims.thy ===== *)
theory GossipClaims
  imports GossipEnds
begin

text \<open>
  Gossip makes the members of connected nodes agree, and a concrete cluster it applies to: an
  observed-remove set that keeps what was removed, a codec for its deltas, a kernel that logs
  what is written, and two linked nodes.
\<close>

section \<open>Convergence\<close>

text \<open>
  C6: Over established links that neither come, fail nor go, gossip spreads every join and leave.
  Start with every link established, nothing on the way and every node knowing what its
  neighbours know; let the nodes do three things only: join a member, remove a member, and read the next
  delta of a neighbour, each anywhere and in any order. Whenever nothing is on the way, any two
  nodes with a path of links between them have the same members, so no change was lost on the
  way, however many nodes it had to pass. Nothing is said of clusters whose links change: when a
  connection is established, \<open>establish_connection\<close> merges the members of the peer without
  telling the other neighbours, so there nodes with nothing on the way may differ until the next
  connections are made.
\<close>
theorem gossip_converges:
  assumes "transports x wire" and "delta_codec x" and "delta_laws (set_ops x) le" and "links_ok port"
    and "node_ok x used peer port N"
    and "\<forall>p q. linked port p q \<longrightarrow> taken N p q = length (written wire port N p q) \<and> le (known N p) (known N q)"
    and "gossip_steps x wire port N ts N'"
    and "\<forall>p q. linked port p q \<longrightarrow> on_the_way wire port N' p q = []" and "(linked port)\<^sup>*\<^sup>* a b"
  shows "set (members_all (set_ops x) (cs_members (server N' a)))
    = set (members_all (set_ops x) (cs_members (server N' b)))"
proof -
  have "gossip_inv x used peer le wire port N" by (rule gossip_inv_start [OF assms(5,6)])
  then have inv: "gossip_inv x used peer le wire port N'"
    by (rule gossip_steps_inv [OF assms(7,1-4)])
  have "le (known N' a) (known N' b)" "le (known N' b) (known N' a)"
    using quiet_path [OF assms(3) inv] assms(8,9) linked_path_sym [OF assms(4,9)] by blast+
  from delta_lawsD(8) [OF assms(3) this] show ?thesis by (simp add: members_all_def known_def)
qed

text \<open>
  C7: On the fixed links of C6, from a start in agreement, gossip comes to rest. Whatever was joined and removed before, once it is only read, the
  nodes of the cluster can take at most so many more turns as there are frames on the way, times
  the number of links and one: a node passes a delta on over each of its links when it has not
  seen it, and never again.
\<close>
theorem gossip_settles:
  assumes "transports x wire" and "delta_codec x" and "delta_laws (set_ops x) le"
    and "delta_seen (set_ops x) le" and "links_ok port" and "finite (links port)"
    and "node_ok x used peer port N"
    and "\<forall>p q. linked port p q \<longrightarrow> taken N p q = length (written wire port N p q) \<and> le (known N p) (known N q)"
    and "gossip_steps x wire port N ts N1" and "gossip_steps x wire port N1 rs N2" and "list_all is_read rs"
  shows "length rs \<le> pending wire port N1 * (card (links port) + 1)"
proof -
  have "gossip_inv x used peer le wire port N" by (rule gossip_inv_start [OF assms(7,8)])
  then have inv: "gossip_inv x used peer le wire port N1"
    by (rule gossip_steps_inv [OF assms(9,1-3,5)])
  have "finite (way_deltas x wire port N1)" using way_deltas_few [OF assms(6)] by blast
  from reads_bounded [OF assms(10,1-6) this assms(11) subset_refl inv]
  show ?thesis using potential_bound [OF assms(6), of x wire N1] by linarith
qed

section \<open>An observed-remove set\<close>

text \<open>A dot is an actor with a count of its own additions; what was removed is remembered by its dots.\<close>

type_synonym dot = "nat \<times> nat"

record dots =
  actor :: nat
  clock :: nat
  added :: "(node_id \<times> dot) list"
  gone :: "dot list"

datatype dot_delta = AddedDot node_id dot | GoneDots "dot list"

definition hs_union :: "'a list \<Rightarrow> 'a list \<Rightarrow> 'a list" where
  "hs_union xs ys = xs @ hs_difference ys xs"

lemma set_hs_union [simp]: "set (hs_union xs ys) = set xs \<union> set ys"
  by (auto simp: hs_union_def)

definition live_dots :: "node_id \<Rightarrow> dots \<Rightarrow> dot list" where
  "live_dots e s = map snd (filter (\<lambda>(e', d). e' = e \<and> d \<notin> set (gone s)) (added s))"

definition dot_ops :: "(dots, dot_delta, dot list) orset_ops" where
  "dot_ops =
     \<lparr>os_new = (\<lambda>a. \<lparr>actor = length a, clock = 0, added = [], gone = []\<rparr>),
      os_add = (\<lambda>e s. (AddedDot e (actor s, clock s),
        s\<lparr>clock := clock s + 1, added := hs_insert (e, (actor s, clock s)) (added s)\<rparr>)),
      os_elements = (\<lambda>s. map fst (filter (\<lambda>(e, d). d \<notin> set (gone s)) (added s))),
      os_join_state = (\<lambda>o' s. s\<lparr>added := hs_union (added s) (added o'), gone := hs_union (gone s) (gone o')\<rparr>),
      os_seen = (\<lambda>e s. if live_dots e s = [] then None else Some (live_dots e s)),
      os_remove = (\<lambda>e ds s. (GoneDots ds, s\<lparr>gone := hs_union (gone s) ds\<rparr>)),
      os_join = (\<lambda>d s. case d of
          AddedDot e d \<Rightarrow> ((e, d) \<notin> set (added s), s\<lparr>added := hs_insert (e, d) (added s)\<rparr>)
        | GoneDots ds \<Rightarrow> (\<not> set ds \<subseteq> set (gone s), s\<lparr>gone := hs_union (gone s) ds\<rparr>))\<rparr>"

definition dot_le :: "dots \<Rightarrow> dots \<Rightarrow> bool" where
  "dot_le s t \<longleftrightarrow> set (added s) \<subseteq> set (added t) \<and> set (gone s) \<subseteq> set (gone t)"

lemma dot_laws: "delta_laws dot_ops dot_le"
proof -
  have same: "set (os_elements dot_ops s) = set (os_elements dot_ops t)" if "dot_le s t" "dot_le t s" for s t
  proof -
    have "set (added s) = set (added t)" "set (gone s) = set (gone t)" using that by (auto simp: dot_le_def)
    then show ?thesis by (simp add: dot_ops_def)
  qed
  show ?thesis
    unfolding delta_laws_def
  proof (intro conjI allI impI same, goal_cases)
    case 2
    then show ?case unfolding dot_le_def by blast
  qed (auto simp: dot_ops_def dot_le_def split: dot_delta.splits if_splits)
qed

lemma dot_seen: "delta_seen dot_ops dot_le"
  by (auto simp: delta_seen_def dot_ops_def dot_le_def split: dot_delta.splits)

section \<open>A codec and a kernel\<close>

fun dots_bytes :: "dot list \<Rightarrow> bytes" where
  "dots_bytes [] = []"
| "dots_bytes ((a, k) # ds) = of_nat a # of_nat k # dots_bytes ds"

fun bytes_dots :: "bytes \<Rightarrow> dot list option" where
  "bytes_dots [] = Some []"
| "bytes_dots [b] = None"
| "bytes_dots (a # k # bs) = map_option (\<lambda>ds. (unat a, unat k) # ds) (bytes_dots bs)"

lemma bytes_dots_bytes: "bytes_dots bs = Some ds \<Longrightarrow> dots_bytes ds = bs"
  by (induction bs arbitrary: ds rule: bytes_dots.induct) auto

definition dot_decode :: "bytes \<Rightarrow> (rabble_user_msg, dots, dot_delta) external_msg option" where
  "dot_decode b =
     (case b of
        [] \<Rightarrow> None
      | t # bs \<Rightarrow>
          if t = 3 then map_option (\<lambda>ds. DeltaMsg (GoneDots ds)) (bytes_dots bs)
          else if t = 2 then
            (case bs of
               [n, a, k] \<Rightarrow> Some (DeltaMsg (AddedDot (sample_peer (unat n)) (unat a, unat k)))
             | _ \<Rightarrow> None)
          else None)"

text \<open>Only what is read back is encoded: no node or dot that does not fit a byte.\<close>

definition dot_frame :: "(rabble_user_msg, dots, dot_delta) external_msg \<Rightarrow> bytes option" where
  "dot_frame m =
     (case m of
        DeltaMsg (AddedDot e (a, k)) \<Rightarrow> Some [2, sample_index e, of_nat a, of_nat k]
      | DeltaMsg (GoneDots ds) \<Rightarrow> Some (3 # dots_bytes ds)
      | _ \<Rightarrow> None)"

definition dot_encode :: "(rabble_user_msg, dots, dot_delta) external_msg \<Rightarrow> bytes option" where
  "dot_encode m = (case dot_frame m of
     None \<Rightarrow> None
   | Some b \<Rightarrow> if dot_decode b = Some m then Some b else None)"

lemma dot_decode_frame:
  assumes "dot_decode b = Some m"
  shows "dot_frame m = Some b"
proof -
  have "sample_index (sample_peer (unat n)) = n" for n by (simp add: sample_index_def sample_peer_def)
  with assms bytes_dots_bytes show ?thesis
    by (auto simp: dot_decode_def dot_frame_def split: list.splits if_splits)
qed

type_synonym logged_net = "sample_net \<times> (fd \<times> bytes) list"

definition on_net :: "(sample_net \<Rightarrow> 'a \<times> sample_net) \<Rightarrow> logged_net \<Rightarrow> 'a \<times> logged_net" where
  "on_net f = (\<lambda>(w, l). case f w of (r, w') \<Rightarrow> (r, (w', l)))"

definition gossip_env :: "(rabble_user_msg, logged_net, sample_frames, dots, dot_delta, dot list) cluster_env" where
  "gossip_env =
     \<lparr>rg_register = (\<lambda>sk ev. on_net sample_register),
      rg_reregister = (\<lambda>i sk ev w. (Inr (), w)),
      rg_deregister = (\<lambda>sk w. (Inr (), w)),
      rg_register_listener = (\<lambda>ev. on_net sample_register),
      rg_set_interval = (\<lambda>n. on_net sample_register),
      rd_new = (\<lambda>n. []),
      rd_read = (\<lambda>sk f (w, l). case sample_read True sk f w of (r, f', w') \<Rightarrow> (r, f', (w', l))),
      rd_frames = (\<lambda>f. f),
      rd_drop = drop,
      wr_new = [],
      wr_write = (\<lambda>sk m f (w, l). (Inr True, f, (w, case m of None \<Rightarrow> l | Some b \<Rightarrow> l @ [(sk, b)]))),
      wr_is_writable = (\<lambda>f. True),
      wr_writable = (\<lambda>f. f),
      sk_bind = (\<lambda>a w. (Inr [Inr 3, Inl would_block], w)),
      sk_new_v4 = (\<lambda>w. (Inr 99, w)),
      sk_to_tcp_stream = (\<lambda>sk w. (Inr sk, w)),
      sk_set_nonblocking = (\<lambda>sk w. (Inr (), w)),
      sk_connect = (\<lambda>sk a w. (Inl in_progress, w)),
      einprogress = 115,
      msg_encode = dot_encode,
      msg_decode = dot_decode,
      set_ops = dot_ops\<rparr>"

definition log_wire :: "logged_net \<Rightarrow> fd \<Rightarrow> bytes list" where
  "log_wire w sk = map snd (filter (\<lambda>e. fst e = sk) (snd w))"

definition log_used :: "logged_net \<Rightarrow> usize set" where
  "log_used w = sample_used (fst w)"

lemma gossip_transports: "transports gossip_env log_wire"
  unfolding transports_def
  by (auto simp: gossip_env_def log_wire_def on_net_def fun_eq_iff split: prod.splits)

lemma gossip_codec: "delta_codec gossip_env"
  using dot_decode_frame by (auto simp: delta_codec_def gossip_env_def dot_encode_def split: option.splits if_splits)

lemma gossip_ids_fresh: "ids_fresh gossip_env log_used"
proof -
  have reg: "grows log_used (on_net sample_register)"
  proof -
    have "sample_used a \<subseteq> sample_used b" if "sample_register a = (r, b)" for a r b
      by (rule growsD [OF sample_register_grows that])
    then show ?thesis by (fastforce simp: grows_def log_used_def on_net_def split: prod.splits)
  qed
  have new: "i \<notin> log_used w \<and> insert i (log_used w) \<subseteq> log_used w'"
    if "on_net sample_register w = (Inr i, w')" for i w w'
    using that sample_register_fresh [of "fst w" i "fst w'"]
    by (auto simp: on_net_def log_used_def split: prod.splits)
  show ?thesis
    unfolding ids_fresh_def
    by (intro conjI allI impI)
       (auto simp: gossip_env_def reg dest: new,
        auto simp: grows_def log_used_def sample_used_def sample_read_def Let_def split: prod.splits)
qed

lemma gossip_honest: "honest_peers gossip_env sample_peer"
  unfolding honest_peers_def
  by (auto simp: gossip_env_def dot_decode_def split: list.splits if_splits)

section \<open>Two linked nodes\<close>

text \<open>
  Nodes 3 and 5 know each other and node 9, each over its connection 7. The delta that removes
  node 9 will wait on both sockets.
\<close>

definition gossip_server ::
    "nat \<Rightarrow> nat \<Rightarrow> (rabble_user_msg, replica, nat, logged_net, sample_frames, dots) cluster" where
  "gossip_server own other =
     \<lparr>cs_pid = \<lparr>group = Some ''rabble'', pname = ''cluster_server'', node = sample_peer own\<rparr>,
      cs_node = sample_peer own,
      executor_tx = \<lparr>sent = [], rx_alive = True\<rparr>,
      executor_timer_id = 1, timer_id = 0,
      cs_timer_wheel = \<lparr>tw_size = 5, tw_data = [[], [], [7], [], []], current_read = 2,
        current_write = 1\<rparr>,
      listener = [], listener_id = 2,
      cs_members = \<lparr>me = sample_peer own, orset = \<lparr>actor = own, clock = 1,
        added = [(sample_peer 3, (3, 0)), (sample_peer 5, (5, 0)), (sample_peer 9, (9, 0))], gone = []\<rparr>\<rparr>,
      connections =
        [(7, \<lparr>sock = other, conn_node = Some (sample_peer other), is_client = False,
            conn_members_sent = True, timer_wheel_index = 2, reader = [], writer = []\<rparr>)],
      established = [(sample_peer other, 7)],
      registrar = (\<lparr>next_reg = 8, next_fd = 10, inbox = [(other, [3, 9, 0])]\<rparr>, []),
      cs_metrics = cluster_metrics_new\<rparr>"

lemma gossip_server_inv:
  "cl_inv gossip_env log_used sample_peer {} None (gossip_server own other)"
proof -
  let ?s = "gossip_server own other"
  have slots: "slot_keys (cs_timer_wheel ?s) j = (if j = 2 then {7} else {})" for j
  proof -
    consider "j = 0" | "j = 1" | "j = 2" | "j = 3" | "j = 4" | "5 \<le> j" by linarith
    then show ?thesis by cases (simp_all add: gossip_server_def slot_keys_def)
  qed
  have "tw_wf (cs_timer_wheel ?s)" by (simp add: gossip_server_def tw_wf_def)
  moreover have "own_slots {} (connections ?s) i = (if i = 7 then Some 2 else None)" for i
    by (simp add: gossip_server_def own_slots_def)
  ultimately have "wheel.owns (cs_timer_wheel ?s) (own_slots {} (connections ?s))"
    by (simp add: wheel.owns_def slots)
  then show ?thesis
    unfolding cl_inv_def
    by (intro conjI gossip_ids_fresh gossip_honest)
       (auto simp: gossip_server_def hm_ok_def established_ok_def pinned_def log_used_def sample_used_def
          split: if_splits)
qed

definition sample_ports :: topology where
  "sample_ports a b =
     (if a = sample_peer 3 \<and> b = sample_peer 5 \<or> a = sample_peer 5 \<and> b = sample_peer 3 then Some 7 else None)"

definition sample_network ::
    "(rabble_user_msg, replica, nat, logged_net, sample_frames, dots) network" where
  "sample_network =
     \<lparr>server = (\<lambda>a. if a = sample_peer 3 then gossip_server 3 5 else gossip_server 5 3),
      taken = (\<lambda>a b. 0)\<rparr>"

lemma sample_network_ok:
  "links_ok sample_ports" "node_ok gossip_env log_used sample_peer sample_ports sample_network"
proof -
  show "links_ok sample_ports" by (auto simp: links_ok_def sample_ports_def)
  have "own_sockets (gossip_server j k) \<and> ready (gossip_server j k) 7 \<noteq> None" for j k
    by (auto simp: own_sockets_def inj_on_def ready_def gossip_server_def split: option.splits if_splits)
  then show "node_ok gossip_env log_used sample_peer sample_ports sample_network"
    using gossip_server_inv by (auto simp: node_ok_def sample_network_def sample_ports_def split: if_splits)
qed

text \<open>A server that has heard of the removal of node 9 and has passed it on.\<close>

definition told_server ::
    "nat \<Rightarrow> nat \<Rightarrow> (fd \<times> bytes) list \<Rightarrow> cluster_metrics
      \<Rightarrow> (rabble_user_msg, replica, nat, logged_net, sample_frames, dots) cluster" where
  "told_server own other waiting m = (gossip_server own other)
     \<lparr>cs_members := \<lparr>me = sample_peer own, orset = \<lparr>actor = own, clock = 1,
        added = [(sample_peer 3, (3, 0)), (sample_peer 5, (5, 0)), (sample_peer 9, (9, 0))], gone = [(9, 0)]\<rparr>\<rparr>,
      registrar := (\<lparr>next_reg = 8, next_fd = 10, inbox = waiting\<rparr>, [(other, [3, 9, 0])]),
      cs_metrics := m\<rparr>"

lemmas gossip_eval = cluster_handle_def handle_cluster_msg_def cs_leave_def members_leave_def
  broadcast_delta_def encode_msg_def cs_broadcast_def conn_write_def bump_def act_defs
  handle_poll_notifications_def handle_notification_def do_socket_io_def cs_read_def members_sent_def
  decode_messages_def handle_decoded_message_def members_join_delta_def sample_read_def from_peer_def
  dot_ops_def live_dots_def dot_encode_def dot_frame_def dot_decode_def hs_union_def hs_difference_def
  hm_insert_def gossip_env_def gossip_server_def told_server_def Let_def

lemma gossip_turns:
  defines "n \<equiv> PollNotifications [\<lparr>n_id = 7, n_event = Read\<rparr>]"
  shows "\<exists>m. cluster_handle gossip_env (Leave (sample_peer 9)) (gossip_server 5 3)
      = (Running, told_server 5 3 [(3, [3, 9, 0])] m)"
    and "\<exists>m. cluster_handle gossip_env n (gossip_server 3 5) = (Running, told_server 3 5 [] m)"
    and "\<exists>m'. cluster_handle gossip_env n (told_server 5 3 [(3, [3, 9, 0])] m)
      = (Running, told_server 5 3 [] m')"
    and "delivers gossip_env 7 [3, 9, 0] (gossip_server 3 5)"
    and "delivers gossip_env 7 [3, 9, 0] (told_server 5 3 [(3, [3, 9, 0])] m)"
  by (simp_all add: n_def gossip_eval delivers_def)

lemma sample_way:
  "ready (gossip_server own other) = [7 \<mapsto> other]" "ready (told_server own other v m) = [7 \<mapsto> other]"
  "log_wire (registrar (gossip_server own other)) sk = []"
  "log_wire (registrar (told_server own other v m)) sk = (if sk = other then [[3, 9, 0]] else [])"
  by (auto simp: ready_def gossip_server_def told_server_def log_wire_def fun_eq_iff)

text \<open>Node 5 removes node 9 and both nodes read what the other wrote.\<close>

lemma sample_start:
  "\<forall>p q. linked sample_ports p q \<longrightarrow>
      taken sample_network p q = length (written log_wire sample_ports sample_network p q)
      \<and> dot_le (known sample_network p) (known sample_network q)"
  by (auto simp: linked_def sample_network_def sample_ports_def written_def sample_way split: if_splits)
     (simp_all add: known_def dot_le_def gossip_server_def)

lemma sample_gossip_run:
  "\<exists>N1 N2. gossip_steps gossip_env log_wire sample_ports sample_network
       [LeaveAt (sample_peer 5) (sample_peer 9)] N1
     \<and> gossip_steps gossip_env log_wire sample_ports N1
         [ReadFrom (sample_peer 3) (sample_peer 5), ReadFrom (sample_peer 5) (sample_peer 3)] N2
     \<and> (\<forall>p q. linked sample_ports p q \<longrightarrow> on_the_way log_wire sample_ports N2 p q = [])"
proof -
  let ?a = "sample_peer 5" and ?b = "sample_peer 3" and ?f = "[3, 9, 0] :: bytes"
  obtain m1 m2 where m: "cluster_handle gossip_env (Leave (sample_peer 9)) (gossip_server 5 3)
      = (Running, told_server 5 3 [(3, ?f)] m1)"
    "cluster_handle gossip_env (PollNotifications [\<lparr>n_id = 7, n_event = Read\<rparr>]) (gossip_server 3 5)
      = (Running, told_server 3 5 [] m2)"
    using gossip_turns(1,2) by blast
  obtain m3 where m3: "cluster_handle gossip_env (PollNotifications [\<lparr>n_id = 7, n_event = Read\<rparr>])
      (told_server 5 3 [(3, ?f)] m1) = (Running, told_server 5 3 [] m3)"
    using gossip_turns(3) by blast
  let ?N1 = "sample_network\<lparr>server := (server sample_network)(?a := told_server 5 3 [(3, ?f)] m1)\<rparr>"
  let ?N2 = "?N1\<lparr>server := (server ?N1)(?b := told_server 3 5 [] m2),
    taken := (taken ?N1)(?a := (taken ?N1 ?a)(?b := Suc (taken ?N1 ?a ?b)))\<rparr>"
  let ?N3 = "?N2\<lparr>server := (server ?N2)(?a := told_server 5 3 [] m3),
    taken := (taken ?N2)(?b := (taken ?N2 ?b)(?a := Suc (taken ?N2 ?b ?a)))\<rparr>"
  note eval = sample_network_def sample_ports_def on_the_way_def written_def sample_way
  have "gossip_step gossip_env log_wire sample_ports sample_network (LeaveAt ?a (sample_peer 9)) ?N1"
    using m(1) by (intro gossip_step.leave) (simp add: sample_network_def)
  then have "gossip_steps gossip_env log_wire sample_ports sample_network [LeaveAt ?a (sample_peer 9)] ?N1"
    by (meson gossip_steps.none gossip_steps.turn)
  moreover have "gossip_step gossip_env log_wire sample_ports ?N1 (ReadFrom ?b ?a) ?N2"
    using m(2) gossip_turns(4)
    by (intro gossip_step.read [where j = 7 and f = ?f and fs = "[]"])
       (simp_all add: eval, simp_all add: gossip_server_def)
  moreover have "gossip_step gossip_env log_wire sample_ports ?N2 (ReadFrom ?a ?b) ?N3"
    using m3 gossip_turns(5)
    by (intro gossip_step.read [where j = 7 and f = ?f and fs = "[]"])
       (simp_all add: eval, simp_all add: told_server_def gossip_server_def)
  moreover have "\<forall>p q. linked sample_ports p q \<longrightarrow> on_the_way log_wire sample_ports ?N3 p q = []"
    by (auto simp: linked_def eval split: if_splits)
  ultimately show ?thesis by (meson gossip_steps.none gossip_steps.turn)
qed

lemma gossip_env_laws:
  "delta_laws (set_ops gossip_env) dot_le" "delta_seen (set_ops gossip_env) dot_le"
  "set_ops gossip_env = dot_ops"
  using dot_laws dot_seen by (simp_all add: gossip_env_def)

theorem gossip_converges_witness:
  "\<exists>N. gossip_steps gossip_env log_wire sample_ports sample_network
       [LeaveAt (sample_peer 5) (sample_peer 9), ReadFrom (sample_peer 3) (sample_peer 5),
        ReadFrom (sample_peer 5) (sample_peer 3)] N
     \<and> set (members_all dot_ops (cs_members (server N (sample_peer 3))))
        = set (members_all dot_ops (cs_members (server N (sample_peer 5))))"
proof -
  obtain N1 N2 where run: "gossip_steps gossip_env log_wire sample_ports sample_network
      [LeaveAt (sample_peer 5) (sample_peer 9)] N1"
    "gossip_steps gossip_env log_wire sample_ports N1
      [ReadFrom (sample_peer 3) (sample_peer 5), ReadFrom (sample_peer 5) (sample_peer 3)] N2"
    and quiet: "\<forall>p q. linked sample_ports p q \<longrightarrow> on_the_way log_wire sample_ports N2 p q = []"
    using sample_gossip_run by blast
  have all: "gossip_steps gossip_env log_wire sample_ports sample_network
      [LeaveAt (sample_peer 5) (sample_peer 9), ReadFrom (sample_peer 3) (sample_peer 5),
       ReadFrom (sample_peer 5) (sample_peer 3)] N2"
    using run by (auto elim!: gossip_steps.cases intro: gossip_steps.intros)
  have "linked sample_ports (sample_peer 3) (sample_peer 5)" by (simp add: linked_def sample_ports_def)
  then have path: "(linked sample_ports)\<^sup>*\<^sup>* (sample_peer 3) (sample_peer 5)" by blast
  from gossip_converges [OF gossip_transports gossip_codec gossip_env_laws(1) sample_network_ok sample_start
      all quiet path] all
  show ?thesis by (auto simp: gossip_env_laws(3))
qed

theorem gossip_settles_witness:
  "\<exists>N1 N2. gossip_steps gossip_env log_wire sample_ports sample_network
       [LeaveAt (sample_peer 5) (sample_peer 9)] N1
     \<and> gossip_steps gossip_env log_wire sample_ports N1
         [ReadFrom (sample_peer 3) (sample_peer 5), ReadFrom (sample_peer 5) (sample_peer 3)] N2
     \<and> 2 \<le> pending log_wire sample_ports N1 * 3"
proof -
  obtain N1 N2 where run: "gossip_steps gossip_env log_wire sample_ports sample_network
      [LeaveAt (sample_peer 5) (sample_peer 9)] N1"
    "gossip_steps gossip_env log_wire sample_ports N1
      [ReadFrom (sample_peer 3) (sample_peer 5), ReadFrom (sample_peer 5) (sample_peer 3)] N2"
    using sample_gossip_run by blast
  have "links sample_ports = {(sample_peer 3, sample_peer 5), (sample_peer 5, sample_peer 3)}"
    by (auto simp: links_def sample_ports_def split: if_splits)
  then have links: "finite (links sample_ports)" "card (links sample_ports) = 2" by simp_all
  from gossip_settles [OF gossip_transports gossip_codec gossip_env_laws(1,2) sample_network_ok(1) links(1)
      sample_network_ok(2) sample_start run] links(2)
  have "2 \<le> pending log_wire sample_ports N1 * 3" by simp
  with run show ?thesis by blast
qed

end
