(* ===== verification/ExecutorClaims.thy ===== *)
theory ExecutorClaims
  imports Replica
begin

text \<open>
  The properties of the executor: the panics it has left on user code that keeps its contract, the
  depth its recursion needs and the code that exhausts any depth, the effect of routing on each
  branch, and the fate of expired timers.
\<close>

section \<open>Routing, branch by branch\<close>

lemma send_metrics_approx:
  "(\<And>e. approx (rt e) (rt' e)) \<Longrightarrow> approx (exec_send_metrics rt p c) (exec_send_metrics rt' p c)"
  unfolding exec_send_metrics_def by (intro approx_rules)

lemma handle_executor_envelope_approx:
  "(\<And>e. approx (rt e) (rt' e)) \<Longrightarrow>
   approx (handle_executor_envelope x rt env) (handle_executor_envelope x rt' env)"
  unfolding handle_executor_envelope_def
  by (cases "env_msg env") (auto intro: approx_rules send_metrics_approx)

lemma run_process_approx:
  "(\<And>e. approx (rt e) (rt' e)) \<Longrightarrow> approx (run_process x rt env) (run_process x rt' env)"
  unfolding run_process_def route_output_def
  by (auto intro!: approx_rules handle_executor_envelope_approx split: option.splits prod.splits)

lemma route_approx:
  "(\<And>e. approx (rt e) (rt' e)) \<Longrightarrow> approx (route x rt env) (route x rt' env)"
  unfolding route_def route_to_process_def
  by (auto intro!: approx_rules handle_executor_envelope_approx run_process_approx
      split: option.splits)

lemma route_d_approx: "approx (route_d x d env) (route_d x (Suc d) env)"
proof (induction d arbitrary: env)
  case 0
  show ?case by (simp add: approx_overflow)
next
  case (Suc d)
  have "approx (route x (route_d x d) env) (route x (route_d x (Suc d)) env)"
    by (rule route_approx) (rule Suc.IH)
  then show ?case by simp
qed

lemma route_d_stable:
  "fst (route_d x n env s) \<noteq> Panic ''stack overflow'' \<Longrightarrow>
   route_d x (n + k) env s = route_d x n env s"
proof (induction k)
  case 0
  show ?case by simp
next
  case (Suc k)
  then have same: "route_d x (n + k) env s = route_d x n env s" by blast
  with Suc.prems have "route_d x (Suc (n + k)) env s = route_d x (n + k) env s"
    by (intro approxD [OF route_d_approx]) simp
  with same show ?case by (simp only: add_Suc_right)
qed

lemma route_outputs:
  assumes "\<forall>e \<in> set out. env_to e \<noteq> ex_pid s" and "rx_alive (cluster_tx s)"
  shows "forM out (route_output x rt) s =
    (Ok (), s\<lparr>ex_tx := ex_tx s @ map ExecEnvelope (filter (\<lambda>e. node (env_to e) = ex_node s) out),
      cluster_tx := (cluster_tx s)\<lparr>sent := sent (cluster_tx s)
        @ map ClusterEnvelope (filter (\<lambda>e. node (env_to e) \<noteq> ex_node s) out)\<rparr>\<rparr>)"
  using assms
proof (induction out arbitrary: s)
  case Nil
  then show ?case by (simp add: ret_def)
next
  case (Cons e out)
  then show ?case
    by (simp add: act_defs route_output_def cluster_send_def chan_send_def)
qed

section \<open>Properties\<close>

text \<open>
  C14: on user code that keeps its contract the executor's loop has two panics left, whatever
  messages it accepts and in whatever order: the \<open>unwrap\<close> of a send to a registered service whose
  receiver is gone, and that of a send to the cluster server once that thread has ended. With
  live receivers it never panics. However it ends, its buffer of process output is empty, its own
  pid is unchanged, and no pid occurs twice among the processes or the services.
\<close>

theorem executor_panics_only_on_lost_receivers:
  assumes "exec_inv x K tk d s" and "list_all (exec_accepts K) ms"
    and "executor_run x d ms s = (st, s')"
  shows "(\<forall>p. st = Crashed p \<longrightarrow> p = ''tx.send'' \<and> lost_service x s'
        \<or> p = ''cluster_tx.send'' \<and> \<not> rx_alive (cluster_tx s))
    \<and> ((\<forall>tx. receiver_up x tx) \<longrightarrow> rx_alive (cluster_tx s) \<longrightarrow> (\<forall>p. st \<noteq> Crashed p))
    \<and> envelopes s' = [] \<and> ex_pid s' = executor_pid (ex_node s')
    \<and> hm_ok (processes s') \<and> hm_ok (service_senders s')"
proof -
  note run = assms(1) exec_accepted_run [OF assms(2)] assms(3) [unfolded executor_run_def]
  have "core_at (rx_alive (cluster_tx s)) s" using assms(1) by (simp add: core_at_def exec_inv_def)
  from executor_run_core [OF this assms(3)]
  have core: "exec_core s'" "rx_alive (cluster_tx s') = rx_alive (cluster_tx s)"
    by (simp_all add: core_at_def)
  have stops: "exec_stops x p s'" if "st = Crashed p" for p
    using exec_loop.loop_outcome [OF run] that by simp
  moreover have "\<not> lost_service x s'" if "\<forall>tx. receiver_up x tx"
    using no_lost_service that by blast
  ultimately show ?thesis using core by (auto simp: exec_stops_def exec_core_def)
qed

text \<open>The messages the witness below runs: a request, a status request, a tick and a stop.\<close>

definition sample_cid :: correlation_id where
  "sample_cid = cid_of_request (local_pid ''api'') 1 0"

definition sample_run :: "(rabble_user_msg, replica, nat) executor_msg list" where
  "sample_run =
     [ExecEnvelope (envelope_new (local_pid ''r1'') (local_pid ''api'') (User (Op 4)) (Some sample_cid)),
      ExecGetStatus sample_cid, Tick, Stop (local_pid ''r1'')]"

lemma sample_run_accepted: "list_all (exec_accepts replica_contract) sample_run"
  by (simp add: sample_run_def replica_contract_def env_ok_def pid_ok_def sample_cid_def
      cid_of_request_def local_pid_def)

text \<open>
  With the service up the run is safe. Once the service \<open>api\<close> has returned from its loop, and its
  receiver with it, the reply to the request for the status panics the executor.
\<close>

definition gone_ext ::
    "(rabble_user_msg, replica, sample_wheel, nat, sample_world) exec_ext" where
  "gone_ext = replica_ext\<lparr>svc_send := \<lambda>tx env w. (False, w)\<rparr>"

lemma gone_executor_inv: "exec_inv gone_ext replica_contract sample_timers 2 sample_executor"
  using sample_executor_inv [of 2]
  by (simp add: exec_inv_def procs_ok_def timers_ok_def gone_ext_def)

theorem executor_panics_only_on_lost_receivers_witness:
  "(\<forall>p. fst (executor_run replica_ext 2 sample_run sample_executor) \<noteq> Crashed p)
   \<and> (\<exists>s'. executor_run gone_ext 2 [ExecGetStatus sample_cid] sample_executor = (Crashed ''tx.send'', s')
        \<and> lost_service gone_ext s' \<and> envelopes s' = [])"
proof -
  have alive: "rx_alive (cluster_tx sample_executor)" by (simp add: sample_simps)
  have safe: "\<forall>p. fst (executor_run replica_ext 2 sample_run sample_executor) \<noteq> Crashed p"
    using executor_panics_only_on_lost_receivers [OF sample_executor_inv sample_run_accepted
        prod.collapse [symmetric], of 2] replica_receiver_up alive by simp
  obtain s' where s': "executor_run gone_ext 2 [ExecGetStatus sample_cid] sample_executor = (Crashed ''tx.send'', s')"
    by (simp add: executor_run_def exec_handle_def exec_dispatch_def exec_get_status_def route_to_service_def
        gone_ext_def withM_def sample_cid_def cid_of_request_def sample_simps)
  have "list_all (exec_accepts replica_contract) [ExecGetStatus sample_cid :: (rabble_user_msg, replica, nat) executor_msg]"
    by simp
  from executor_panics_only_on_lost_receivers [OF gone_executor_inv this s'] safe s' show ?thesis by auto
qed

text \<open>
  C27: two nested calls of \<open>route\<close> are enough for user code that keeps its contract: with any
  deeper stack an envelope is routed exactly as with a stack of depth two.
\<close>

theorem route_depth_enough:
  assumes "exec_inv x K tk d s" and "uc_env K env"
  shows "route_d x d env s = route_d x 2 env s"
proof -
  have "exec_inv x K tk 2 s" and d: "2 \<le> d" using assms(1) by (auto simp: exec_inv_def)
  then have "fst (route_d x 2 env s) \<noteq> Panic ''stack overflow''"
    using guardedD(1) [OF route_d_safe [OF order_refl assms(2)] _ prod.collapse [symmetric]]
    by (fastforce simp: exec_stops_def)
  then have "route_d x (2 + (d - 2)) env s = route_d x 2 env s" by (rule route_d_stable)
  with d show ?thesis by (simp only: le_add_diff_inverse)
qed

theorem route_depth_enough_witness:
  "route_d replica_ext 9
     (envelope_new (local_pid ''r1'') (local_pid ''api'') (User (Op 4)) (Some sample_cid))
     sample_executor
   = route_d replica_ext 2
     (envelope_new (local_pid ''r1'') (local_pid ''api'') (User (Op 4)) (Some sample_cid))
     sample_executor"
  by (rule route_depth_enough [OF sample_executor_inv [of 9]])
     (auto simp: replica_contract_def env_ok_def pid_ok_def sample_cid_def
        cid_of_request_def local_pid_def)

text \<open>
  C28: the contract's condition on metrics is needed. If a process on the node answers every
  \<open>Metrics\<close> message with a \<open>GetMetrics\<close> to the executor, then its first request for metrics
  exhausts a stack of any depth: \<open>route\<close>, \<open>route_to_process\<close>, \<open>handle_executor_envelope\<close> and
  \<open>send_metrics\<close> call each other without end.
\<close>

theorem metrics_request_loop_overflows:
  assumes "exec_core s" and "hm_get (processes s) p = Some q" and "node p = ex_node s"
    and "p \<noteq> ex_pid s" and "pname p \<noteq> ''cluster_server''"
    and reply: "\<And>m f c. proc_handle x (Metrics m) f c [] q = Some ([envelope_new f p GetMetrics c], q)"
  shows "fst (route_d x d (envelope_new (ex_pid s) p GetMetrics c) s) = Panic ''stack overflow''"
proof -
  have metrics: "fst (route_d x d (envelope_new p (ex_pid s) (Metrics m) c) s) = Panic ''stack overflow''"
    if "exec_core s" "hm_get (processes s) p = Some q" "node p = ex_node s" "p \<noteq> ex_pid s" for d m s
    using that
  proof (induction d arbitrary: m s)
    case 0
    show ?case by (simp add: panic_def)
  next
    case (Suc d)
    let ?s = "s\<lparr>processes := hm_insert p q (processes s), envelopes := [],
      ex_metrics := (ex_metrics s)\<lparr>processes_m := of_nat (length (hm_insert p q (processes s))),
        services_m := of_nat (length (service_senders s))\<rparr>\<rparr>"
    have "exec_core ?s" using Suc.prems(1) by (simp add: exec_core_def)
    then have "fst (route_d x d (envelope_new p (ex_pid ?s)
        (Metrics (executor_metrics_data (ex_metrics ?s))) c) ?s) = Panic ''stack overflow''"
      using Suc.prems by (intro Suc.IH) auto
    then obtain s2 where "route_d x d (envelope_new p (ex_pid ?s)
        (Metrics (executor_metrics_data (ex_metrics ?s))) c) ?s = (Panic ''stack overflow'', s2)"
      by (metis prod.collapse)
    moreover have "node (ex_pid s) = ex_node s" and "envelopes s = []"
      using Suc.prems(1) by (auto simp: exec_core_def executor_pid_def)
    ultimately show ?case
      using Suc.prems assms(5) reply
      by (simp add: route_def route_to_process_def run_process_def route_output_def
          handle_executor_envelope_def exec_send_metrics_def act_defs envelope_new_def)
  qed
  show ?thesis
  proof (cases d)
    case 0
    then show ?thesis by (simp add: panic_def)
  next
    case (Suc d')
    let ?s = "s\<lparr>ex_metrics := (ex_metrics s)\<lparr>processes_m := of_nat (length (processes s)),
        services_m := of_nat (length (service_senders s))\<rparr>\<rparr>"
    have "fst (route_d x d' (envelope_new p (ex_pid ?s)
        (Metrics (executor_metrics_data (ex_metrics ?s))) c) ?s) = Panic ''stack overflow''"
      using assms by (intro metrics) (auto simp: exec_core_def)
    then obtain s2 where "route_d x d' (envelope_new p (ex_pid ?s)
        (Metrics (executor_metrics_data (ex_metrics ?s))) c) ?s = (Panic ''stack overflow'', s2)"
      by (metis prod.collapse)
    moreover have "node (ex_pid s) = ex_node s"
      using assms(1) by (auto simp: exec_core_def executor_pid_def)
    ultimately show ?thesis
      using Suc assms
      by (simp add: route_def route_to_process_def handle_executor_envelope_def
          exec_send_metrics_def act_defs envelope_new_def)
  qed
qed

text \<open>A process that does so, as its only behaviour.\<close>

definition chatty_ext :: "(rabble_user_msg, pid, sample_wheel, nat, sample_world) exec_ext" where
  "chatty_ext =
     \<lparr>proc_init = (\<lambda>p r. Some ([], r)),
      proc_handle = (\<lambda>m f c out r.
        Some (if is_metrics m then out @ [envelope_new f r GetMetrics c] else out, r)),
      wheel_new = [], wheel_start = (\<lambda>k ms c. c), wheel_stop = (\<lambda>k c. c),
      wheel_expire = (\<lambda>c. ([], c)), svc_send = (\<lambda>tx env w. (True, w))\<rparr>"

theorem metrics_request_loop_overflows_witness:
  "fst (route_d chatty_ext 1000000
      (envelope_new (executor_pid node1) (local_pid ''p'') GetMetrics None)
      ((executor_new chatty_ext node1 \<lparr>sent = [], rx_alive = True\<rparr> [])
        \<lparr>processes := [(local_pid ''p'', local_pid ''p'')]\<rparr>)) = Panic ''stack overflow''"
proof -
  let ?s = "(executor_new chatty_ext node1 \<lparr>sent = [], rx_alive = True\<rparr> [])
        \<lparr>processes := [(local_pid ''p'', local_pid ''p'')]\<rparr>"
  have s: "ex_pid ?s = executor_pid node1" by (simp add: executor_new_def)
  have "fst (route_d chatty_ext 1000000 (envelope_new (ex_pid ?s) (local_pid ''p'') GetMetrics None) ?s)
      = Panic ''stack overflow''"
    by (rule metrics_request_loop_overflows [where q = "local_pid ''p''"])
       (simp_all add: executor_new_def exec_core_def local_pid_def executor_pid_def chatty_ext_def
          hm_ok_def)
  then show ?thesis unfolding s .
qed

lemma route_process_effect:
  assumes "exec_core s" and "rx_alive (cluster_tx s)" and "node (env_to env) = ex_node s"
    and "env_to env \<noteq> ex_pid s" and "pname (env_to env) \<noteq> ''cluster_server''"
    and "hm_get (processes s) (env_to env) = Some q"
    and "proc_handle x (env_msg env) (env_from env) (env_cid env) [] q = Some (out, q')"
    and "\<forall>e \<in> set out. env_to e \<noteq> ex_pid s"
  shows "route_d x (Suc d) env s =
    (Ok (), s\<lparr>processes := hm_insert (env_to env) q' (processes s),
      ex_tx := ex_tx s @ map ExecEnvelope (filter (\<lambda>e. node (env_to e) = ex_node s) out),
      cluster_tx := (cluster_tx s)\<lparr>sent := sent (cluster_tx s)
        @ map ClusterEnvelope (filter (\<lambda>e. node (env_to e) \<noteq> ex_node s) out)\<rparr>\<rparr>)"
proof -
  have [simp]: "envelopes s = []" using assms(1) by (simp add: exec_core_def)
  let ?s = "s\<lparr>processes := hm_insert (env_to env) q' (processes s), envelopes := []\<rparr>"
  have "forM out (route_output x (route_d x d)) ?s =
      (Ok (), ?s\<lparr>ex_tx := ex_tx s @ map ExecEnvelope (filter (\<lambda>e. node (env_to e) = ex_node s) out),
        cluster_tx := (cluster_tx s)\<lparr>sent := sent (cluster_tx s)
          @ map ClusterEnvelope (filter (\<lambda>e. node (env_to e) \<noteq> ex_node s) out)\<rparr>\<rparr>)"
    using assms(2,8) by (subst route_outputs) simp_all
  with assms(6,7) have "run_process x (route_d x d) env s = (Ok (), ?s
      \<lparr>ex_tx := ex_tx s @ map ExecEnvelope (filter (\<lambda>e. node (env_to e) = ex_node s) out),
        cluster_tx := (cluster_tx s)\<lparr>sent := sent (cluster_tx s)
          @ map ClusterEnvelope (filter (\<lambda>e. node (env_to e) \<noteq> ex_node s) out)\<rparr>\<rparr>)"
    by (simp add: run_process_def act_defs)
  then show ?thesis
    using assms(3-5) by (simp add: route_def route_to_process_def withM_def catchM_def)
qed

text \<open>
  An envelope for another node goes to the cluster server's channel and changes nothing else;
  without a cluster server behind the channel it is a panic.
\<close>

lemma route_remote:
  assumes "node (env_to env) \<noteq> ex_node s"
  shows "route_d x (Suc d) env s =
    (if rx_alive (cluster_tx s) then
       (Ok (), s\<lparr>cluster_tx := (cluster_tx s)
          \<lparr>sent := sent (cluster_tx s) @ [ClusterEnvelope env]\<rparr>\<rparr>)
     else (Panic ''cluster_tx.send'', s))"
  using assms by (simp add: route_def withM_def cluster_send_def chan_send_def)

text \<open>
  Any local envelope addressed to a pid named \<open>cluster_server\<close> that has no group panics the
  executor, because \<open>route_to_process\<close> unwraps the group.
\<close>

lemma groupless_cluster_server_panics:
  assumes "node (env_to env) = ex_node s" and "pname (env_to env) = ''cluster_server''"
    and "group (env_to env) = None" and "exec_core s"
  shows "exec_handle x (Suc d) (ExecEnvelope env) s =
    (Crashed ''group.unwrap'', s\<lparr>ex_metrics := (ex_metrics s)
       \<lparr>received_envelopes := received_envelopes (ex_metrics s) + 1\<rparr>\<rparr>)"
proof -
  have "env_to env \<noteq> ex_pid s" using assms(3,4) by (auto simp: exec_core_def executor_pid_def)
  with assms show ?thesis
    by (simp add: exec_handle_def exec_dispatch_def exec_envelope_def route_def
        route_to_process_def act_defs)
qed

text \<open>
  An expired timer is delivered to processes only. If none of the pids whose timers expire at
  a tick is a process, as when services started them, the tick forgets the timers and does
  nothing else: no service is sent anything.
\<close>

lemma expired_service_timers_dropped:
  assumes "wheel_expire x (ex_timer_wheel s) = (expired, c)"
    and "\<forall>(p, cid) \<in> set expired. hm_get (processes s) p = None \<and> p \<noteq> ex_pid s
      \<and> pname p \<noteq> ''cluster_server''"
  shows "exec_tick x d s = (Ok (), s\<lparr>ex_timer_wheel := c\<rparr>)"
proof -
  let ?body = "\<lambda>(p, cid). withM (\<lambda>s.
          catchM (route_to_process x (route_d x d) (envelope_new p (ex_pid s) Timeout cid))
            (\<lambda>_. ret ()))"
  have body: "forM ks ?body t = (Ok (), t)"
    if "\<forall>(p, cid) \<in> set ks. hm_get (processes t) p = None \<and> p \<noteq> ex_pid t
      \<and> pname p \<noteq> ''cluster_server''" for ks t
    using that
    by (induction ks)
       (auto simp: act_defs route_to_process_def run_process_def)
  have "forM expired ?body (s\<lparr>ex_timer_wheel := c\<rparr>) = (Ok (), s\<lparr>ex_timer_wheel := c\<rparr>)"
    by (rule body) (use assms(2) in simp)
  then show ?thesis using assms(1) by (simp add: exec_tick_def act_defs)
qed

text \<open>The service \<open>api\<close> starts a timer; at the tick that expires it nothing is sent to it.\<close>

definition service_timer :: "rabble_user_msg envelope" where
  "service_timer = envelope_new (executor_pid node1) (local_pid ''api'') (StartTimer 100) None"

lemma expired_service_timers_dropped_witness:
  "\<exists>s1 s2. route_d replica_ext 1 service_timer sample_executor = (Ok (), s1)
     \<and> hm_get (service_senders s1) (local_pid ''api'') = Some 7
     \<and> wheel_expire replica_ext (ex_timer_wheel s1) = ([(local_pid ''api'', None)], [])
     \<and> exec_tick replica_ext 1 s1 = (Ok (), s2) \<and> ex_world s2 = []"
proof -
  let ?s1 = "sample_executor\<lparr>ex_timer_wheel := [((local_pid ''api'', None), 100)],
    ex_metrics := (ex_metrics sample_executor)\<lparr>timers_started := 1\<rparr>\<rparr>"
  have "route_d replica_ext 1 service_timer sample_executor = (Ok (), ?s1)"
    by (simp add: route_def route_to_process_def handle_executor_envelope_def act_defs
        service_timer_def sample_simps replica_ext_def)
  moreover have e: "wheel_expire replica_ext (ex_timer_wheel ?s1) = ([(local_pid ''api'', None)], [])"
    by (simp add: replica_ext_def)
  moreover have "exec_tick replica_ext 1 ?s1 = (Ok (), ?s1\<lparr>ex_timer_wheel := []\<rparr>)"
    by (rule expired_service_timers_dropped [OF e]) (simp add: sample_simps)
  ultimately show ?thesis by (auto simp: sample_simps)
qed

end
