(* ===== verification/NodeClaims2.thy ===== *)
theory NodeClaims2
  imports NodeClaims ClusterClaims2 ExecutorClaims
begin

text \<open>Properties of a node that follow a message through both of its threads.\<close>

section \<open>One turn of a thread\<close>

lemma executor_turnI:
  "ns_exec_status S = Running \<Longrightarrow> ns_exec_rx S = m # rest \<Longrightarrow>
   exec_handle (ne_exec e) (ne_depth e) m
     ((ns_exec S)\<lparr>ex_tx := [], cluster_tx := empty_chan (ns_cluster_status S = Running)\<rparr>) = (st, ex) \<Longrightarrow>
   node_step e S ExecutorTurn (S\<lparr>ns_exec := ex, ns_exec_status := st, ns_exec_rx := rest @ ex_tx ex,
     ns_cluster_rx := ns_cluster_rx S @ sent (cluster_tx ex)\<rparr>)"
  using node_step.executor [of S m rest e] by (simp add: executor_turn_def)

lemma cluster_turnI:
  "ns_cluster_status S = Running \<Longrightarrow> ns_cluster_rx S = m # rest \<Longrightarrow>
   cluster_handle (ne_cluster e) m
     ((ns_cluster S)\<lparr>executor_tx := empty_chan (ns_exec_status S = Running)\<rparr>) = (st, c) \<Longrightarrow>
   node_step e S ClusterTurn (S\<lparr>ns_cluster := c, ns_cluster_status := st, ns_cluster_rx := rest,
     ns_exec_rx := ns_exec_rx S @ sent (executor_tx c)\<rparr>)"
  using node_step.cluster [of S m rest e] by (simp add: cluster_turn_def)

lemma healthy_cluster_alive:
  "healthy e K tk used peer S \<Longrightarrow>
   cl_inv (ne_cluster e) used peer {} None ((ns_cluster S)\<lparr>executor_tx := empty_chan True\<rparr>)"
  by (auto simp: healthy_def empty_chan_def intro: cl_inv_executor_tx)

section \<open>A running node\<close>

text \<open>
  Node 5 with the cluster server of the cluster's sample, a service \<open>api\<close> and \<open>q\<close> in the queue
  of the executor.
\<close>

definition sample_pid5 :: "string \<Rightarrow> pid" where
  "sample_pid5 p = \<lparr>group = None, pname = p, node = sample_peer 5\<rparr>"

definition sample_system ::
    "(rabble_user_msg, replica, nat) executor_msg list \<Rightarrow>
      (rabble_user_msg, replica, sample_wheel, nat, sample_world, sample_net, sample_frames,
       node_id list) node_system" where
  "sample_system q =
     \<lparr>ns_id = sample_peer 5,
      ns_exec = (executor_new replica_ext (sample_peer 5) (empty_chan True) [])
        \<lparr>service_senders := [(sample_pid5 ''api'', 7)]\<rparr>,
      ns_exec_rx = q, ns_exec_status = Running,
      ns_cluster = sample_server 3, ns_cluster_rx = [], ns_cluster_status = Running,
      ns_poller = True\<rparr>"

lemma sample_system_healthy:
  assumes "list_all (exec_accepts replica_contract) q"
  shows "healthy sample_node_env replica_contract sample_timers sample_used sample_peer (sample_system q)"
proof -
  have "exec_inv replica_ext replica_contract sample_timers 2 (ns_exec (sample_system q))"
    using executor_new_inv [OF sample_node_env_ok]
    by (simp add: sample_system_def sample_node_env_def exec_inv_def exec_core_def executor_new_def
        sends_ok_def sample_pid5_def hm_ok_def pid_ok_def)
  then show ?thesis
    using assms sample_server_inv [of 3]
    by (simp add: healthy_def sample_system_def sample_node_env_def cluster_pid_def sample_server_def)
qed

section \<open>To another node\<close>

definition sample_remote :: "rabble_user_msg envelope" where
  "sample_remote = envelope_new \<lparr>group = None, pname = ''p'', node = sample_peer 3\<rparr>
     (sample_pid5 ''q'') (User (Op 4)) (Some (cid_of_pid (sample_pid5 ''q'')))"

lemma remote_envelope_turn:
  assumes "cl_inv x used peer {} None s" and "env_to env \<noteq> cs_pid s"
    and "hm_get (established s) (node (env_to env)) = Some i"
    and "hm_get (connections s) i = Some c"
    and "msg_encode x (RemoteEnvelope env) = Some b"
    and "wr_write x (sock c) (Some b) (writer c) (registrar s) = (Inr True, wr, w)"
  shows "conn_node c = Some (node (env_to env))"
    and "\<exists>s'. cluster_handle x (ClusterEnvelope env) s = (Running, s')
      \<and> hm_get (connections s') = (hm_get (connections s))(i \<mapsto> c\<lparr>writer := wr\<rparr>)
      \<and> registrar s' = w \<and> executor_tx s' = executor_tx s"
proof -
  let ?s = "s\<lparr>cs_metrics := (cs_metrics s)\<lparr>received_local_envelopes :=
    received_local_envelopes (cs_metrics s) + 1\<rparr>\<rparr>"
  have inv: "cl_inv x used peer {} None ?s" using assms(1) by simp
  from send_remote_to_established [OF inv, of env] assms(3,4)
  show "conn_node c = Some (node (env_to env))" by simp
  from send_remote_to_established [OF inv, of env] assms(3-6)
  have "send_remote x env ?s = (Ok (), ?s\<lparr>connections := hm_insert i (c\<lparr>writer := wr\<rparr>) (connections s),
      registrar := w\<rparr>)"
    by simp
  then have "cluster_handle x (ClusterEnvelope env) s = (Running, ?s\<lparr>connections :=
      hm_insert i (c\<lparr>writer := wr\<rparr>) (connections s), registrar := w\<rparr>)"
    using assms(2) by (simp add: cluster_handle_def handle_cluster_msg_def bump_def act_defs)
  then show "\<exists>s'. cluster_handle x (ClusterEnvelope env) s = (Running, s')
      \<and> hm_get (connections s') = (hm_get (connections s))(i \<mapsto> c\<lparr>writer := wr\<rparr>)
      \<and> registrar s' = w \<and> executor_tx s' = executor_tx s"
    by simp
qed

text \<open>
  An envelope for a process of another node crosses both threads: the executor hands it to
  the cluster server, which writes it to the connection established for that node, and both
  threads go on.
\<close>
lemma remote_envelope_is_written:
  assumes "healthy e K tk used peer S" and "both_run S" and "2 \<le> ne_depth e"
    and "ns_exec_rx S = ExecEnvelope env # rest" and "ns_cluster_rx S = []"
    and "node (env_to env) \<noteq> ex_node (ns_exec S)" and "env_to env \<noteq> cs_pid (ns_cluster S)"
    and "hm_get (established (ns_cluster S)) (node (env_to env)) = Some i"
    and "hm_get (connections (ns_cluster S)) i = Some c"
    and "msg_encode (ne_cluster e) (RemoteEnvelope env) = Some b"
    and "wr_write (ne_cluster e) (sock c) (Some b) (writer c) (registrar (ns_cluster S)) = (Inr True, wr, w)"
  shows "conn_node c = Some (node (env_to env))
    \<and> (\<exists>S'. node_steps e S [ExecutorTurn, ClusterTurn] S' \<and> both_run S'
        \<and> hm_get (connections (ns_cluster S')) = (hm_get (connections (ns_cluster S)))(i \<mapsto> c\<lparr>writer := wr\<rparr>)
        \<and> registrar (ns_cluster S') = w)"
proof -
  let ?x = "ne_cluster e"
  let ?c = "(ns_cluster S)\<lparr>executor_tx := empty_chan True\<rparr>"
  have run: "ns_exec_status S = Running" "ns_cluster_status S = Running"
    using assms(2) by (simp_all add: both_run_def)
  obtain d where d: "ne_depth e = Suc d" using assms(3) by (cases "ne_depth e") auto
  have "\<exists>ex. exec_handle (ne_exec e) (ne_depth e) (ExecEnvelope env)
      ((ns_exec S)\<lparr>ex_tx := [], cluster_tx := empty_chan True\<rparr>) = (Running, ex)
    \<and> ex_tx ex = [] \<and> sent (cluster_tx ex) = [ClusterEnvelope env]"
    using assms(6) route_remote [of env _ "ne_exec e" d]
    by (simp add: d exec_handle_def exec_dispatch_def exec_envelope_def empty_chan_def act_defs
        del: route_d.simps)
  then obtain ex where ex: "exec_handle (ne_exec e) (ne_depth e) (ExecEnvelope env)
      ((ns_exec S)\<lparr>ex_tx := [], cluster_tx := empty_chan True\<rparr>) = (Running, ex)"
    "ex_tx ex = []" "sent (cluster_tx ex) = [ClusterEnvelope env]" by blast
  let ?S1 = "S\<lparr>ns_exec := ex, ns_exec_status := Running, ns_exec_rx := rest,
    ns_cluster_rx := [ClusterEnvelope env]\<rparr>"
  have s1: "node_step e S ExecutorTurn ?S1"
    using executor_turnI [OF run(1) assms(4), of e Running ex] ex run assms(5) by simp
  note cl = healthy_cluster_alive [OF assms(1)]
  have conn: "conn_node c = Some (node (env_to env))"
    using remote_envelope_turn(1) [OF cl] assms(7-11) by simp
  have "\<exists>c'. cluster_handle ?x (ClusterEnvelope env) ?c = (Running, c')
    \<and> hm_get (connections c') = (hm_get (connections (ns_cluster S)))(i \<mapsto> c\<lparr>writer := wr\<rparr>)
    \<and> registrar c' = w \<and> sent (executor_tx c') = []"
    using remote_envelope_turn(2) [OF cl, of env i c b wr w] assms(7-11) by (auto simp: empty_chan_def)
  then obtain c' where c': "cluster_handle ?x (ClusterEnvelope env) ?c = (Running, c')"
    "hm_get (connections c') = (hm_get (connections (ns_cluster S)))(i \<mapsto> c\<lparr>writer := wr\<rparr>)"
    "registrar c' = w" "sent (executor_tx c') = []" by blast
  let ?S2 = "?S1\<lparr>ns_cluster := c', ns_cluster_status := Running, ns_cluster_rx := [],
    ns_exec_rx := rest\<rparr>"
  have "node_step e ?S1 ClusterTurn ?S2"
    using cluster_turnI [of ?S1 "ClusterEnvelope env" "[]" e Running c'] run c' by simp
  with s1 have "node_steps e S [ExecutorTurn, ClusterTurn] ?S2"
    by (meson node_steps.none node_steps.turn)
  then show ?thesis using conn c' run by (auto simp: both_run_def)
qed

section \<open>Status of the cluster\<close>

lemma status_turn:
  assumes "cl_inv x used peer {} None c"
  shows "\<exists>st c'. cluster_handle x (ClusterGetStatus cid) c = (Running, c')
    \<and> sent (executor_tx c') = sent (executor_tx c)
        @ [ExecEnvelope (envelope_new (cid_pid cid) (cs_pid c) (ClusterStatus st) (Some cid))]
    \<and> set (st_members st) = set (members_all (set_ops x) (cs_members c))
    \<and> set (st_established st) = dom (hm_get (established c))
    \<and> num_connections st = card (dom (hm_get (connections c)))"
proof -
  let ?c = "c\<lparr>cs_metrics := (cs_metrics c)\<lparr>status_requests := status_requests (cs_metrics c) + 1\<rparr>\<rparr>"
  have "cl_inv x used peer {} None ?c" using assms by simp
  from cluster_status_reply [OF this, of cid] obtain st where
    st: "cs_get_status x cid ?c = (Ok (), ?c\<lparr>executor_tx := (executor_tx c)\<lparr>sent := sent (executor_tx c)
      @ [ExecEnvelope (envelope_new (cid_pid cid) (cs_pid c) (ClusterStatus st) (Some cid))]\<rparr>\<rparr>)"
    "set (st_members st) = set (members_all (set_ops x) (cs_members c))"
    "set (st_established st) = dom (hm_get (established c))"
    "num_connections st = card (dom (hm_get (connections c)))"
    by auto
  have "cluster_handle x (ClusterGetStatus cid) c = (Running, ?c\<lparr>executor_tx := (executor_tx c)\<lparr>sent :=
      sent (executor_tx c) @ [ExecEnvelope (envelope_new (cid_pid cid) (cs_pid c) (ClusterStatus st)
        (Some cid))]\<rparr>\<rparr>)"
    using st(1) by (simp add: cluster_handle_def handle_cluster_msg_def bump_def act_defs)
  with st(2-4) show ?thesis by fastforce
qed

text \<open>
  C25: A service that asks for the status of the cluster through the handle, and whose receiver
  is there, gets it: after a turn
  of each thread the service has been sent one envelope with its correlation id, which reports
  the members, the established nodes and the number of connections as they are.
\<close>
theorem status_request_is_answered:
  assumes "healthy e K tk used peer S" and "both_run S" and "node_env_ok e K tk used peer"
    and "ns_exec_rx S = []" and "ns_cluster_rx S = []"
    and "node (cid_pid cid) = ex_node (ns_exec S)" and "cid_pid cid \<noteq> ex_pid (ns_exec S)"
    and "pname (cid_pid cid) \<noteq> ''cluster_server''"
    and "hm_get (processes (ns_exec S)) (cid_pid cid) = None"
    and "hm_get (service_senders (ns_exec S)) (cid_pid cid) = Some tx" and "receiver_up (ne_exec e) tx"
  shows "\<exists>S' st. node_steps e S [Request (ReqClusterStatus cid), ClusterTurn, ExecutorTurn] S'
    \<and> both_run S'
    \<and> svc_send (ne_exec e) tx (envelope_new (cid_pid cid) (cs_pid (ns_cluster S)) (ClusterStatus st) (Some cid))
        (ex_world (ns_exec S)) = (True, ex_world (ns_exec S'))
    \<and> set (st_members st) = set (members_all (set_ops (ne_cluster e)) (cs_members (ns_cluster S)))
    \<and> set (st_established st) = dom (hm_get (established (ns_cluster S)))
    \<and> num_connections st = card (dom (hm_get (connections (ns_cluster S))))"
proof -
  let ?x = "ne_cluster e" and ?y = "ne_exec e"
  let ?c = "(ns_cluster S)\<lparr>executor_tx := empty_chan True\<rparr>"
  let ?ex = "(ns_exec S)\<lparr>ex_tx := [], cluster_tx := empty_chan True\<rparr>"
  have run: "ns_exec_status S = Running" "ns_cluster_status S = Running"
    using assms(2) by (simp_all add: both_run_def)
  have "0 < ne_depth e" using assms(3) by (auto simp: node_env_ok_def)
  then obtain d where d: "ne_depth e = Suc d" by (cases "ne_depth e") auto
  let ?S1 = "S\<lparr>ns_cluster_rx := [ClusterGetStatus cid]\<rparr>"
  have s1: "node_step e S (Request (ReqClusterStatus cid)) ?S1"
    using run assms(4,5)
    by (simp add: request_turn_iff request_turn_def node_cluster_status_def node_new_def empty_chan_def
        send_cluster_result)
  let ?env = "\<lambda>st. envelope_new (cid_pid cid) (cs_pid (ns_cluster S)) (ClusterStatus st) (Some cid)"
  obtain st c' where c': "cluster_handle ?x (ClusterGetStatus cid) ?c = (Running, c')"
    "sent (executor_tx c') = [ExecEnvelope (?env st)]"
    and st: "set (st_members st) = set (members_all (set_ops ?x) (cs_members (ns_cluster S)))"
      "set (st_established st) = dom (hm_get (established (ns_cluster S)))"
      "num_connections st = card (dom (hm_get (connections (ns_cluster S))))"
    using status_turn [OF healthy_cluster_alive [OF assms(1)], of cid] by (auto simp: empty_chan_def)
  let ?S2 = "?S1\<lparr>ns_cluster := c', ns_cluster_status := Running, ns_cluster_rx := [],
    ns_exec_rx := [ExecEnvelope (?env st)]\<rparr>"
  have s2: "node_step e ?S1 ClusterTurn ?S2"
    using cluster_turnI [of ?S1 "ClusterGetStatus cid" "[]" e Running c'] run c' assms(4) by simp
  obtain v where v: "svc_send ?y tx (?env st) (ex_world (ns_exec S)) = (True, v)"
    using assms(11) by (metis receiver_up_def prod.collapse)
  have "\<exists>ex. exec_handle ?y (ne_depth e) (ExecEnvelope (?env st)) ?ex = (Running, ex)
    \<and> ex_world ex = v"
    using assms(6-10) v
    by (simp add: d exec_handle_def exec_dispatch_def exec_envelope_def route_def route_to_process_def
        run_process_def route_to_service_def act_defs)
  then obtain ex where ex: "exec_handle ?y (ne_depth e) (ExecEnvelope (?env st)) ?ex = (Running, ex)"
    "ex_world ex = v" by blast
  let ?S3 = "?S2\<lparr>ns_exec := ex, ns_exec_status := Running, ns_exec_rx := ex_tx ex,
    ns_cluster_rx := sent (cluster_tx ex)\<rparr>"
  have "node_step e ?S2 ExecutorTurn ?S3"
    using executor_turnI [of ?S2 "ExecEnvelope (?env st)" "[]" e Running ex] run ex by simp
  with s1 s2 have "node_steps e S [Request (ReqClusterStatus cid), ClusterTurn, ExecutorTurn] ?S3"
    by (meson node_steps.none node_steps.turn)
  moreover have "both_run ?S3" "ex_world (ns_exec ?S3) = v" using run ex by (simp_all add: both_run_def)
  ultimately show ?thesis using st v by blast
qed

theorem status_request_is_answered_witness:
  "\<exists>S' st. node_steps sample_node_env (sample_system [])
       [Request (ReqClusterStatus (cid_of_pid (sample_pid5 ''api''))), ClusterTurn, ExecutorTurn] S'
     \<and> both_run S' \<and> ex_world (ns_exec S') = [(7, envelope_new (sample_pid5 ''api'')
         (cluster_pid (sample_peer 5)) (ClusterStatus st) (Some (cid_of_pid (sample_pid5 ''api''))))]
     \<and> set (st_established st) = {sample_peer 3} \<and> num_connections st = 2"
proof -
  note simps = sample_system_def sample_pid5_def sample_node_env_def sample_server_def executor_new_def
    both_run_def cid_of_pid_def cluster_pid_def
  have "healthy sample_node_env replica_contract sample_timers sample_used sample_peer (sample_system [])"
    by (rule sample_system_healthy) simp
  note run = status_request_is_answered [OF this _ sample_node_env_ok,
    where cid = "cid_of_pid (sample_pid5 ''api'')" and tx = 7]
  have "both_run (sample_system [])" "ns_exec_rx (sample_system []) = []"
    "ns_cluster_rx (sample_system []) = []"
    "hm_get (service_senders (ns_exec (sample_system []))) (sample_pid5 ''api'') = Some 7"
    "hm_get (processes (ns_exec (sample_system []))) (sample_pid5 ''api'') = None"
    "node (sample_pid5 ''api'') = ex_node (ns_exec (sample_system []))"
    "sample_pid5 ''api'' \<noteq> ex_pid (ns_exec (sample_system []))"
    by (simp_all add: simps executor_pid_def)
  moreover have "receiver_up (ne_exec sample_node_env) 7" using replica_receiver_up by (simp add: sample_node_env_def)
  ultimately obtain S' st where
    "node_steps sample_node_env (sample_system [])
       [Request (ReqClusterStatus (cid_of_pid (sample_pid5 ''api''))), ClusterTurn, ExecutorTurn] S'"
    "both_run S'"
    "svc_send replica_ext 7 (envelope_new (sample_pid5 ''api'') (cs_pid (sample_server 3)) (ClusterStatus st)
       (Some (cid_of_pid (sample_pid5 ''api'')))) [] = (True, ex_world (ns_exec S'))"
    "set (st_established st) = dom (hm_get (established (sample_server 3)))"
    "num_connections st = card (dom (hm_get (connections (sample_server 3))))"
    using run by (auto simp: sample_system_def sample_pid5_def sample_node_env_def executor_new_def cid_of_pid_def)
  moreover have "dom (hm_get (connections (sample_server 3))) = {7, 8}"
    "dom (hm_get (established (sample_server 3))) = {sample_peer 3}"
    by (auto simp: sample_server_def split: if_splits)
  ultimately show ?thesis
    by (intro exI [of _ S'] exI [of _ st]) (auto simp: replica_ext_def sample_server_def cluster_pid_def)
qed

end
