(* ===== verification/NodePeers.thy ===== *)
theory NodePeers
  imports NodeClaims2 ClusterPeers
begin

text \<open>Two nodes as a whole: an envelope from the executor of one to a process of the other.\<close>

section \<open>The receiving node\<close>

lemma poller_turnI:
  "ns_poller S \<Longrightarrow> ns_cluster_status S = Running \<Longrightarrow>
   node_step e S (PollerTurn ns) (S\<lparr>ns_cluster_rx := ns_cluster_rx S @ [PollNotifications ns]\<rparr>)"
  using node_step.poller [of S e ns] by (simp add: poller_turn_def)

lemma receive_turn:
  assumes inv: "cl_inv x used peer {} None s" and "delivers x j b s"
    and "msg_decode x b = Some (RemoteEnvelope env)"
    and j: "j \<notin> {listener_id s, timer_id s, executor_timer_id s}"
  shows "\<exists>s'. cluster_handle x (PollNotifications [\<lparr>n_id = j, n_event = Read\<rparr>]) s = (Running, s')
    \<and> sent (executor_tx s') = sent (executor_tx s) @ [ExecEnvelope env]"
proof -
  let ?s = "s\<lparr>cs_metrics := (cs_metrics s)\<lparr>poll_notifications := poll_notifications (cs_metrics s) + 1\<rparr>\<rparr>"
  have "cl_inv x used peer {} None ?s" "delivers x j b ?s" using assms by simp_all
  from read_delivered [OF this assms(3)] obtain s1 where
    s1: "cs_read x j ?s = handle_decoded_message x j (RemoteEnvelope env) s1"
      "cl_inv x used peer {} None s1" "executor_tx s1 = executor_tx s"
    by auto
  let ?s2 = "s1\<lparr>cs_metrics := (cs_metrics s1)\<lparr>received_remote_envelopes :=
    received_remote_envelopes (cs_metrics s1) + 1\<rparr>,
    executor_tx := (executor_tx s)\<lparr>sent := sent (executor_tx s) @ [ExecEnvelope env]\<rparr>\<rparr>"
  have "cs_read x j ?s = (Ok (), ?s2)"
    using s1 cl_invD(3) [OF inv]
    by (simp add: handle_decoded_message_def executor_send_def chan_send_def bump_def act_defs)
  then have "cluster_handle x (PollNotifications [\<lparr>n_id = j, n_event = Read\<rparr>]) s = (Running, ?s2)"
    using j
    by (simp add: cluster_handle_def handle_cluster_msg_def handle_poll_notifications_def
        handle_notification_def do_socket_io_def bump_def act_defs)
  then show ?thesis by simp
qed

lemma process_turn:
  assumes "exec_core s" and "rx_alive (cluster_tx s)" and "node (env_to env) = ex_node s"
    and "env_to env \<noteq> ex_pid s" and "pname (env_to env) \<noteq> ''cluster_server''"
    and "hm_get (processes s) (env_to env) = Some q"
    and "proc_handle x (env_msg env) (env_from env) (env_cid env) [] q = Some (out, q')"
    and "\<forall>o' \<in> set out. env_to o' \<noteq> ex_pid s"
  shows "\<exists>s'. exec_handle x (Suc d) (ExecEnvelope env) s = (Running, s')
    \<and> processes s' = hm_insert (env_to env) q' (processes s)
    \<and> ex_tx s' = ex_tx s @ map ExecEnvelope (filter (\<lambda>o'. node (env_to o') = ex_node s) out)
    \<and> sent (cluster_tx s') = sent (cluster_tx s)
        @ map ClusterEnvelope (filter (\<lambda>o'. node (env_to o') \<noteq> ex_node s) out)"
proof -
  let ?s = "s\<lparr>ex_metrics := (ex_metrics s)\<lparr>received_envelopes := received_envelopes (ex_metrics s) + 1\<rparr>\<rparr>"
  have "exec_core ?s" using assms(1) by (simp add: exec_core_def)
  from route_process_effect [OF this, of env q x out q' d] show ?thesis
    using assms(2-8)
    by (simp add: exec_handle_def exec_dispatch_def exec_envelope_def seqM_def bindM_def modM_def
        del: route_d.simps)
qed

lemma received_envelope_runs_process:
  assumes "healthy e K tk used peer T" and "both_run T" and "0 < ne_depth e" and "ns_poller T"
    and "ns_exec_rx T = []" and "ns_cluster_rx T = []"
    and "delivers (ne_cluster e) j b (ns_cluster T)"
    and "msg_decode (ne_cluster e) b = Some (RemoteEnvelope env)"
    and "j \<notin> {listener_id (ns_cluster T), timer_id (ns_cluster T), executor_timer_id (ns_cluster T)}"
    and "node (env_to env) = ex_node (ns_exec T)" and "env_to env \<noteq> ex_pid (ns_exec T)"
    and "pname (env_to env) \<noteq> ''cluster_server''"
    and "hm_get (processes (ns_exec T)) (env_to env) = Some q"
    and "proc_handle (ne_exec e) (env_msg env) (env_from env) (env_cid env) [] q = Some (out, q')"
    and "\<forall>o' \<in> set out. env_to o' \<noteq> ex_pid (ns_exec T)"
  shows "\<exists>T'. node_steps e T [PollerTurn [\<lparr>n_id = j, n_event = Read\<rparr>], ClusterTurn, ExecutorTurn] T'
    \<and> both_run T' \<and> processes (ns_exec T') = hm_insert (env_to env) q' (processes (ns_exec T))
    \<and> ns_exec_rx T' = map ExecEnvelope (filter (\<lambda>o'. node (env_to o') = ex_node (ns_exec T)) out)
    \<and> ns_cluster_rx T' = map ClusterEnvelope (filter (\<lambda>o'. node (env_to o') \<noteq> ex_node (ns_exec T)) out)"
proof -
  let ?c = "(ns_cluster T)\<lparr>executor_tx := empty_chan True\<rparr>"
  let ?ex = "(ns_exec T)\<lparr>ex_tx := [], cluster_tx := empty_chan True\<rparr>"
  let ?m = "PollNotifications [\<lparr>n_id = j, n_event = Read\<rparr>]"
  have run: "ns_exec_status T = Running" "ns_cluster_status T = Running"
    using assms(2) by (simp_all add: both_run_def)
  obtain d where d: "ne_depth e = Suc d" using assms(3) by (cases "ne_depth e") auto
  obtain c where c: "cluster_handle (ne_cluster e) ?m ?c = (Running, c)"
    "sent (executor_tx c) = [ExecEnvelope env]"
    using receive_turn [OF healthy_cluster_alive [OF assms(1)], of j b env] assms(7-9)
    by (auto simp: empty_chan_def)
  have "exec_core ?ex" using assms(1) by (simp add: healthy_def exec_inv_def exec_core_def)
  from process_turn [OF this, of env q "ne_exec e" out q' d] obtain ex where
    ex: "exec_handle (ne_exec e) (ne_depth e) (ExecEnvelope env) ?ex = (Running, ex)"
      "processes ex = hm_insert (env_to env) q' (processes (ns_exec T))"
      "ex_tx ex = map ExecEnvelope (filter (\<lambda>o'. node (env_to o') = ex_node (ns_exec T)) out)"
      "sent (cluster_tx ex) = map ClusterEnvelope (filter (\<lambda>o'. node (env_to o') \<noteq> ex_node (ns_exec T)) out)"
    using assms(10-15) by (auto simp: d empty_chan_def)
  let ?T1 = "T\<lparr>ns_cluster_rx := [?m]\<rparr>"
  let ?T2 = "?T1\<lparr>ns_cluster := c, ns_cluster_status := Running, ns_cluster_rx := [],
    ns_exec_rx := [ExecEnvelope env]\<rparr>"
  let ?T3 = "?T2\<lparr>ns_exec := ex, ns_exec_status := Running, ns_exec_rx := ex_tx ex,
    ns_cluster_rx := sent (cluster_tx ex)\<rparr>"
  have "node_step e T (PollerTurn [\<lparr>n_id = j, n_event = Read\<rparr>]) ?T1"
    using poller_turnI [OF assms(4) run(2), of e] assms(6) by simp
  moreover have "node_step e ?T1 ClusterTurn ?T2"
    using cluster_turnI [of ?T1 ?m "[]" e Running c] run c assms(5) by simp
  moreover have "node_step e ?T2 ExecutorTurn ?T3"
    using executor_turnI [of ?T2 "ExecEnvelope env" "[]" e Running ex] run ex by simp
  ultimately have "node_steps e T [PollerTurn [\<lparr>n_id = j, n_event = Read\<rparr>], ClusterTurn, ExecutorTurn] ?T3"
    by (meson node_steps.none node_steps.turn)
  moreover have "both_run ?T3" by (simp add: both_run_def)
  ultimately show ?thesis using ex(2-4) by fastforce
qed

section \<open>From node to node\<close>

text \<open>
  Node 3, which runs a replica \<open>p\<close>, is established with node 5 over connection 7, on whose
  socket the frame of an operation from node 5 waits. Its codec also reads that frame.
\<close>

definition remote_node_env ::
    "(rabble_user_msg, replica, sample_wheel, nat, sample_world, sample_net, sample_frames,
      node_id list, set_delta, unit) node_env" where
  "remote_node_env = sample_node_env
     \<lparr>ne_cluster := (sample_env True)
        \<lparr>msg_decode := \<lambda>b. if b = [4, 0] then Some (RemoteEnvelope sample_remote) else sample_decode b\<rparr>\<rparr>"

definition remote_system ::
    "(rabble_user_msg, replica, sample_wheel, nat, sample_world, sample_net, sample_frames,
      node_id list) node_system" where
  "remote_system =
     \<lparr>ns_id = sample_peer 3,
      ns_exec = (executor_new replica_ext (sample_peer 3) (empty_chan True) [])
        \<lparr>processes := [(env_to sample_remote, replica_new (env_to sample_remote) None)]\<rparr>,
      ns_exec_rx = [], ns_exec_status = Running,
      ns_cluster = (sample_server 5)
        \<lparr>cs_pid := cluster_pid (sample_peer 3), cs_node := sample_peer 3,
         registrar := \<lparr>next_reg = 9, next_fd = 10, inbox = [(5, [4, 0])]\<rparr>\<rparr>,
      ns_cluster_rx = [], ns_cluster_status = Running, ns_poller = True\<rparr>"

lemma remote_ids_fresh: "ids_fresh (ne_cluster remote_node_env) sample_used"
  using sample_ids_fresh [of True] by (simp add: remote_node_env_def ids_fresh_def)

lemma remote_honest: "honest_peers (ne_cluster remote_node_env) sample_peer"
  unfolding honest_peers_def
  by (auto simp: remote_node_env_def sample_env_def sample_read_def Let_def from_peer_def
      sample_decode_def split: list.splits if_splits)

lemma remote_system_healthy:
  "healthy remote_node_env replica_contract sample_timers sample_used sample_peer remote_system"
proof -
  have "exec_inv replica_ext replica_contract sample_timers 2 (ns_exec remote_system)"
    using executor_new_inv [OF sample_node_env_ok]
    by (simp add: remote_system_def sample_node_env_def exec_inv_def exec_core_def executor_new_def
        sends_ok_def hm_ok_def pid_ok_def replica_contract_def sample_remote_def replica_new_def)
  moreover have "cl_inv (ne_cluster remote_node_env) sample_used sample_peer {} None (ns_cluster remote_system)"
    using cl_invD [OF sample_server_inv [of 5]] remote_ids_fresh remote_honest
    by (simp add: cl_inv_def remote_system_def established_ok_def pinned_def sample_used_def
        sample_server_def)
  ultimately show ?thesis
    by (simp add: healthy_def remote_system_def remote_node_env_def sample_node_env_def)
qed

text \<open>
  C5: An envelope sent on one node runs the process it is for on another. The sender's executor
  hands it to its cluster server, which writes its frame to the connection established for the
  node. When the frame arrives, the receiver's cluster server hands the envelope to its
  executor, which runs that process on it and no other. What the process puts out is queued in
  order: for this node with the executor, for other nodes with the cluster server. All four
  threads go on.
\<close>
theorem envelope_reaches_remote_process:
  assumes "healthy e K tk used peer S" and "both_run S" and "2 \<le> ne_depth e"
    and "ns_exec_rx S = ExecEnvelope env # rest" and "ns_cluster_rx S = []"
    and "node (env_to env) \<noteq> ex_node (ns_exec S)"
    and "hm_get (established (ns_cluster S)) (node (env_to env)) = Some i"
    and "hm_get (connections (ns_cluster S)) i = Some c"
    and "carries (ne_cluster e) (ne_cluster e') (RemoteEnvelope env) b"
    and "wr_write (ne_cluster e) (sock c) (Some b) (writer c) (registrar (ns_cluster S)) = (Inr True, wr, w)"
    and "healthy e' K' tk' used' peer' T" and "both_run T" and "2 \<le> ne_depth e'" and "ns_poller T"
    and "ns_exec_rx T = []" and "ns_cluster_rx T = []"
    and "delivers (ne_cluster e') j b (ns_cluster T)"
    and "j \<notin> {listener_id (ns_cluster T), timer_id (ns_cluster T), executor_timer_id (ns_cluster T)}"
    and "node (env_to env) = ex_node (ns_exec T)" and "env_to env \<noteq> ex_pid (ns_exec T)"
    and "pname (env_to env) \<noteq> ''cluster_server''"
    and "hm_get (processes (ns_exec T)) (env_to env) = Some q"
    and "proc_handle (ne_exec e') (env_msg env) (env_from env) (env_cid env) [] q = Some (out, q')"
    and "\<forall>o' \<in> set out. env_to o' \<noteq> ex_pid (ns_exec T)"
  shows "(\<exists>S'. node_steps e S [ExecutorTurn, ClusterTurn] S' \<and> both_run S'
      \<and> hm_get (connections (ns_cluster S')) = (hm_get (connections (ns_cluster S)))(i \<mapsto> c\<lparr>writer := wr\<rparr>)
      \<and> registrar (ns_cluster S') = w)
    \<and> (\<exists>T'. node_steps e' T [PollerTurn [\<lparr>n_id = j, n_event = Read\<rparr>], ClusterTurn, ExecutorTurn] T'
      \<and> both_run T' \<and> processes (ns_exec T') = hm_insert (env_to env) q' (processes (ns_exec T))
      \<and> ns_exec_rx T' = map ExecEnvelope (filter (\<lambda>o'. node (env_to o') = ex_node (ns_exec T)) out)
      \<and> ns_cluster_rx T' = map ClusterEnvelope (filter (\<lambda>o'. node (env_to o') \<noteq> ex_node (ns_exec T)) out))"
proof -
  have "env_to env \<noteq> cs_pid (ns_cluster S)"
    using assms(1,21) by (auto simp: healthy_def cluster_pid_def)
  then have "\<exists>S'. node_steps e S [ExecutorTurn, ClusterTurn] S' \<and> both_run S'
      \<and> hm_get (connections (ns_cluster S')) = (hm_get (connections (ns_cluster S)))(i \<mapsto> c\<lparr>writer := wr\<rparr>)
      \<and> registrar (ns_cluster S') = w"
    using remote_envelope_is_written [OF assms(1-6) _ assms(7,8) _ assms(10)] assms(9)
    by (simp add: carries_def)
  moreover have "0 < ne_depth e'" "msg_decode (ne_cluster e') b = Some (RemoteEnvelope env)"
    using assms(9,13) by (simp_all add: carries_def)
  note received_envelope_runs_process [OF assms(11,12) this(1) assms(14-17) this(2) assms(18-24)]
  ultimately show ?thesis by blast
qed

theorem envelope_reaches_remote_process_witness:
  "(\<exists>S'. node_steps sample_node_env (sample_system [ExecEnvelope sample_remote])
       [ExecutorTurn, ClusterTurn] S'
      \<and> map_option writer (hm_get (connections (ns_cluster S')) 7) = Some [[4, 0]])
   \<and> (\<exists>T'. node_steps remote_node_env remote_system
       [PollerTurn [\<lparr>n_id = 7, n_event = Read\<rparr>], ClusterTurn, ExecutorTurn] T'
      \<and> map_option r_history (hm_get (processes (ns_exec T')) (env_to sample_remote)) = Some [4]
      \<and> ns_cluster_rx T' = [ClusterEnvelope (envelope_new (sample_pid5 ''q'') (env_to sample_remote)
          (User OpComplete) (env_cid sample_remote))])"
proof -
  let ?S = "sample_system [ExecEnvelope sample_remote]"
  let ?c = "the (hm_get (connections (ns_cluster ?S)) 7)"
  let ?q = "replica_new (env_to sample_remote) None"
  let ?reply = "envelope_new (sample_pid5 ''q'') (env_to sample_remote) (User OpComplete)
    (env_cid sample_remote)"
  note simps = sample_system_def sample_remote_def sample_pid5_def sample_node_env_def
    sample_server_def executor_new_def both_run_def remote_system_def cid_of_pid_def
  have S: "healthy sample_node_env replica_contract sample_timers sample_used sample_peer ?S"
    by (rule sample_system_healthy)
       (simp add: sample_remote_def sample_pid5_def replica_contract_def env_ok_def pid_ok_def cid_of_pid_def)
  have frame: "carries (ne_cluster sample_node_env) (ne_cluster remote_node_env)
      (RemoteEnvelope sample_remote) [4, 0]"
    by (simp add: carries_def sample_node_env_def remote_node_env_def sample_env_def sample_encode_def)
  have wrote: "wr_write (ne_cluster sample_node_env) (sock ?c) (Some [4, 0]) (writer ?c)
      (registrar (ns_cluster ?S)) = (Inr True, [[4, 0]], registrar (ns_cluster ?S))"
    by (simp add: sample_env_def simps)
  have delivered: "delivers (ne_cluster remote_node_env) 7 [4, 0] (ns_cluster remote_system)"
    by (simp add: delivers_def remote_node_env_def sample_env_def sample_read_def from_peer_def simps)
  have out: "proc_handle (ne_exec remote_node_env) (env_msg sample_remote) (env_from sample_remote)
      (env_cid sample_remote) [] ?q = Some ([?reply], ?q\<lparr>r_history := [4]\<rparr>)"
    by (simp add: remote_node_env_def replica_ext_def replica_handle_def replica_new_def Let_def simps)
  have "both_run ?S" "2 \<le> ne_depth sample_node_env" "ns_exec_rx ?S = [ExecEnvelope sample_remote]"
    "ns_cluster_rx ?S = []" "node (env_to sample_remote) \<noteq> ex_node (ns_exec ?S)"
    "hm_get (established (ns_cluster ?S)) (node (env_to sample_remote)) = Some 7"
    "hm_get (connections (ns_cluster ?S)) 7 = Some ?c"
    by (simp_all add: simps)
  note sender = envelope_reaches_remote_process [OF S this frame wrote remote_system_healthy]
  have "both_run remote_system" "2 \<le> ne_depth remote_node_env" "ns_poller remote_system"
    "ns_exec_rx remote_system = []" "ns_cluster_rx remote_system = []"
    by (simp_all add: simps remote_node_env_def)
  note receiver = sender [OF this delivered]
  have "7 \<notin> {listener_id (ns_cluster remote_system), timer_id (ns_cluster remote_system),
      executor_timer_id (ns_cluster remote_system)}"
    "node (env_to sample_remote) = ex_node (ns_exec remote_system)"
    "env_to sample_remote \<noteq> ex_pid (ns_exec remote_system)"
    "pname (env_to sample_remote) \<noteq> ''cluster_server''"
    "hm_get (processes (ns_exec remote_system)) (env_to sample_remote) = Some ?q"
    by (simp_all add: simps executor_pid_def)
  note run = receiver [OF this out]
  have "\<forall>o' \<in> set [?reply]. env_to o' \<noteq> ex_pid (ns_exec remote_system)"
    "node (env_to ?reply) \<noteq> ex_node (ns_exec remote_system)"
    by (simp_all add: simps executor_pid_def)
  with run [OF this(1)] show ?thesis by fastforce
qed

end
