(* ===== verification/ChainNetClaims.thy ===== *)
theory ChainNetClaims
  imports ChainNet GossipClaims NodePeers
begin

text \<open>
  Chain replication over several nodes: setting it up, the property that replicas stay in step
  across nodes, and two linked nodes it applies to.
\<close>

section \<open>Setting up the chain\<close>

text \<open>
  \<open>tests/multi_node_chain_replication.rs\<close> takes a node for each replica and spawns the replica
  through the handle of that node.
\<close>

definition create_replica_pids_on :: "node_id list \<Rightarrow> pid list" where
  "create_replica_pids_on nodes =
     map (\<lambda>(s, n). \<lparr>group = None, pname = s, node = n\<rparr>) (zip [''replica1'', ''replica2'', ''replica3''] nodes)"

definition through_handle :: "nat \<Rightarrow> ('h, 'e, 'a) act \<Rightarrow> ('h list, 'e, 'a) act" where
  "through_handle i m = (\<lambda>hs. if i < length hs then (case m (hs ! i) of (r, h) \<Rightarrow> (r, hs[i := h]))
     else (Panic ''index out of bounds'', hs))"

definition spawn_replicas_on ::
    "pid list \<Rightarrow> (('t, replica, 'x) node_handle list, error, unit) act" where
  "spawn_replicas_on ps = forM [0..<length ps] (\<lambda>i. through_handle i
     (catchM (node_spawn (ps ! i) (replica_at ps i)) (\<lambda>e. panic ''spawn.unwrap'')))"

text \<open>Each node's executor is sent the start of its own replica.\<close>

lemma spawn_replicas_on_sends:
  fixes hs :: "('a, replica, 'b) node_handle list"
  assumes "length hs = length ps" and "\<forall>h \<in> set hs. rx_alive (nd_executor_tx h)"
  shows "\<exists>hs'. spawn_replicas_on ps hs = (Ok (), hs') \<and> length hs' = length hs
    \<and> (\<forall>i < length hs. hs' ! i = (hs ! i)\<lparr>nd_executor_tx := (nd_executor_tx (hs ! i))\<lparr>sent :=
        sent (nd_executor_tx (hs ! i)) @ [Start (ps ! i) (replica_at ps i)]\<rparr>\<rparr>)"
proof -
  let ?f = "\<lambda>i. (through_handle i (catchM (node_spawn (ps ! i) (replica_at ps i)) (\<lambda>e. panic ''spawn.unwrap''))
    :: (('a, replica, 'b) node_handle list, error, unit) act)"
  let ?g = "\<lambda>i h. h\<lparr>nd_executor_tx := (nd_executor_tx h)\<lparr>sent :=
    sent (nd_executor_tx h) @ [Start (ps ! i) (replica_at ps i)]\<rparr>\<rparr>"
  have "\<exists>hs'. forM ks ?f hs = (Ok () :: (error, unit) result, hs') \<and> length hs' = length hs
      \<and> (\<forall>i < length hs. hs' ! i = (if i \<in> set ks then ?g i (hs ! i) else hs ! i))"
    if "distinct ks" "\<forall>i \<in> set ks. i < length hs" "\<forall>i < length hs. rx_alive (nd_executor_tx (hs ! i))"
    for ks and hs :: "('a, replica, 'b) node_handle list"
    using that
  proof (induction ks arbitrary: hs)
    case (Cons k ks)
    have k: "?f k hs = (Ok (), hs[k := ?g k (hs ! k)])"
      using Cons.prems(2,3) by (simp add: through_handle_def act_defs node_spawn_def send_executor_result)
    let ?hs = "hs[k := ?g k (hs ! k)]"
    have up: "\<forall>i < length ?hs. rx_alive (nd_executor_tx (?hs ! i))"
      using Cons.prems(2,3) by (auto simp: nth_list_update)
    obtain hs' where hs': "forM ks ?f ?hs = (Ok () :: (error, unit) result, hs')" "length hs' = length hs"
      "\<forall>i < length hs. hs' ! i = (if i \<in> set ks then ?g i (?hs ! i) else ?hs ! i)"
      using Cons.IH [of ?hs] Cons.prems(1,2) up by auto
    have "hs' ! i = (if i \<in> set (k # ks) then ?g i (hs ! i) else hs ! i)" if "i < length hs" for i
      using hs'(3) that Cons.prems(1,2) by (cases "i = k") auto
    with k hs'(1,2) show ?case by (intro exI [of _ hs']) (simp add: seqM_def bindM_def)
  qed (simp add: ret_def)
  from this [of "[0..<length ps]" hs] assms show ?thesis
    by (simp add: spawn_replicas_on_def list_all_iff all_set_conv_all_nth)
qed





section \<open>The property\<close>


section \<open>Two replicas on two nodes\<close>

text \<open>
  Node 3 runs the head of the chain and node 5 the tail; they are established with each other over
  connection 7. The codec of the nodes knows the frame of one operation, which will wait on the
  socket of node 5.
\<close>

definition mesh_pids :: "pid list" where
  "mesh_pids = create_replica_pids_on [sample_peer 3, sample_peer 5]"

definition mesh_client :: pid where
  "mesh_client = \<lparr>group = None, pname = ''c'', node = sample_peer 3\<rparr>"


definition mesh_op :: "rabble_user_msg envelope" where
  "mesh_op = envelope_new (mesh_pids ! 1) (mesh_pids ! 0) (User (Op 4)) (Some (cid_of_pid mesh_client))"

definition mesh_cluster :: "(rabble_user_msg, logged_net, sample_frames, dots, dot_delta, dot list) cluster_env" where
  "mesh_cluster = gossip_env
     \<lparr>msg_encode := \<lambda>m. if m = RemoteEnvelope mesh_op then Some [4, 0] else None,
      msg_decode := \<lambda>b. if b = [4, 0] then Some (RemoteEnvelope mesh_op) else None\<rparr>"

definition mesh_env ::
    "(rabble_user_msg, replica, sample_wheel, nat, sample_world, logged_net, sample_frames, dots, dot_delta,
      dot list) node_env" where
  "mesh_env = \<lparr>ne_exec = replica_ext, ne_depth = 2, ne_cluster = mesh_cluster, ne_debug = name, ne_clone = Inr\<rparr>"


definition mesh_server ::
    "nat \<Rightarrow> nat \<Rightarrow> (fd \<times> bytes) list \<Rightarrow> (fd \<times> bytes) list \<Rightarrow> (rabble_user_msg, replica, nat) executor_msg chan
      \<Rightarrow> cluster_metrics \<Rightarrow> (rabble_user_msg, replica, nat, logged_net, sample_frames, dots) cluster" where
  "mesh_server own other waiting log ch m = (gossip_server own other)
     \<lparr>executor_tx := ch, registrar := (\<lparr>next_reg = 8, next_fd = 10, inbox = waiting\<rparr>, log), cs_metrics := m\<rparr>"

definition mesh_site ::
    "nat \<Rightarrow> nat \<Rightarrow> nat \<Rightarrow> (fd \<times> bytes) list
      \<Rightarrow> (rabble_user_msg, replica, sample_wheel, nat, sample_world, logged_net, sample_frames, dots) node_system" where
  "mesh_site own other i waiting =
     \<lparr>ns_id = sample_peer own,
      ns_exec = (executor_new replica_ext (sample_peer own) (empty_chan True) [])
        \<lparr>processes := [(mesh_pids ! i, replica_at mesh_pids i)]\<rparr>,
      ns_exec_rx = [], ns_exec_status = Running,
      ns_cluster = mesh_server own other waiting [] (empty_chan True) cluster_metrics_new,
      ns_cluster_rx = [], ns_cluster_status = Running, ns_poller = True\<rparr>"


text \<open>What spawning a replica on a new node makes of its executor.\<close>

lemma mesh_spawned:
  assumes "i < 2" and "rouse mesh_env (sample_peer own) (Inr ()) [] w = Ok S0"
    and "node_steps mesh_env S0 [Request (ReqSpawn (mesh_pids ! i) (replica_at mesh_pids i)), ExecutorTurn] S"
  shows "processes (ns_exec S) = processes (ns_exec (mesh_site own other i waiting))"
  using assms
  by (auto simp: rouse_def mesh_env_def mesh_site_def replica_ext_def executor_turn_def exec_handle_def
      exec_dispatch_def exec_start_def act_defs executor_new_def request_turn_def node_spawn_def
      send_executor_result node_new_def empty_chan_def hm_insert_def Let_def
      elim!: node_stepsE node_steps_NilE executor_turnE simp: request_turn_iff split: sum.splits result.splits prod.splits)

lemma mesh_pids_simps [simp]:
  "mesh_pids ! 0 = \<lparr>group = None, pname = ''replica1'', node = sample_peer 3\<rparr>"
  "mesh_pids ! Suc 0 = \<lparr>group = None, pname = ''replica2'', node = sample_peer 5\<rparr>"
  "length mesh_pids = 2" "set mesh_pids = {mesh_pids ! 0, mesh_pids ! 1}" "set (tl mesh_pids) = {mesh_pids ! 1}"
  by (simp_all add: mesh_pids_def create_replica_pids_on_def)








lemma mesh_site_sel [simp]:
  "ns_cluster (mesh_site own other i w) = mesh_server own other w [] (empty_chan True) cluster_metrics_new"
  "ns_exec_rx (mesh_site own other i w) = []" "ns_cluster_rx (mesh_site own other i w) = []"
  "ns_exec_status (mesh_site own other i w) = Running" "ns_cluster_status (mesh_site own other i w) = Running"
  "ns_poller (mesh_site own other i w)"
  by (simp_all add: mesh_site_def)

lemma mesh_server_tx [simp]:
  "executor_tx (mesh_server own other v l ch m) = ch"
  "(mesh_server own other v l ch m)\<lparr>executor_tx := ch'\<rparr> = mesh_server own other v l ch' m"
  "registrar (mesh_server own other v l ch m) = (\<lparr>next_reg = 8, next_fd = 10, inbox = v\<rparr>, l)"
  "own_id (mesh_server own other v l ch m) j \<longleftrightarrow> j \<in> {2, 0, 1}"
  by (simp_all add: mesh_server_def own_id_def gossip_server_def)




end
