(* ===== verification/CoreClaims.thy ===== *)
theory CoreClaims
  imports Errors TimerWheel Membership
begin

text \<open>
  The properties of the components the servers are built on: the text forms of the identifiers,
  the ids an error names, and the timer wheel against its specification as a queue of sets.
\<close>

section \<open>Identifiers\<close>

text \<open>
  C31: \<open>NodeId::from_str\<close> accepts exactly the texts \<open>to_string\<close> prints for node ids without
  an \<open>@\<close> in the name or the address, and returns the node id printed. So both round trips hold
  for these, and for no other node id.
\<close>

theorem node_id_parse_print:
  "node_id_from_str s = Ok n \<longleftrightarrow>
     s = node_id_to_string n \<and> CHR ''@'' \<notin> set (name n) \<and> CHR ''@'' \<notin> set (addr n)"
  by (simp add: node_id_text.parse_iff node_id_printable_def)

text \<open>
  C32: \<open>Pid::from_str\<close> accepts exactly the texts \<open>to_string\<close> prints for pids whose group and name
  contain no \<open>::\<close> and do not end in a colon, and whose node prints without \<open>::\<close> and can be parsed,
  and returns the pid printed.
\<close>

theorem pid_parse_print:
  "pid_from_str s = Ok p \<longleftrightarrow>
     s = pid_to_string p \<and> (\<forall>g. group p = Some g \<longrightarrow> clean_part g) \<and> clean_part (pname p)
     \<and> no_double_colon (node_id_to_string (node p))
     \<and> CHR ''@'' \<notin> set (name (node p)) \<and> CHR ''@'' \<notin> set (addr (node p))"
  by (auto simp: pid_text.parse_iff pid_printable_def node_id_printable_def split: option.splits)

theorem pid_parse_print_witness:
  "pid_from_str ''rabble::executor::node1@127.0.0.1:11001''
   = Ok \<lparr>group = Some ''rabble'', pname = ''executor'',
        node = \<lparr>name = ''node1'', addr = ''127.0.0.1:11001''\<rparr>\<rparr>"
  by (subst pid_parse_print) (simp add: pid_to_string_def node_id_to_string_def)

lemma no_double_colon_append: "no_double_colon (xs @ ys) \<Longrightarrow> no_double_colon ys"
proof (induction xs)
  case (Cons c xs)
  have "no_double_colon zs" if "no_double_colon (c # zs)" for zs
    using that by (cases zs) auto
  with Cons show ?case by simp
qed simp

text \<open>
  A pid on a node with an abbreviated IPv6 address does not survive printing and parsing,
  because the \<open>::\<close> of the address is taken for the separator.
\<close>

lemma pid_with_ipv6_address_lost:
  assumes "\<not> no_double_colon (addr (node p))"
  shows "pid_from_str (pid_to_string p) \<noteq> Ok p"
proof -
  have "\<not> no_double_colon (node_id_to_string (node p))"
    using assms no_double_colon_append [of "name (node p) @ ''@''" "addr (node p)"]
    by (auto simp: node_id_to_string_def)
  then show ?thesis by (simp add: pid_text.round_trip_iff pid_printable_def)
qed

lemma pid_with_ipv6_address_lost_witness:
  "pid_from_str (pid_to_string \<lparr>group = None, pname = ''executor'',
      node = \<lparr>name = ''node1'', addr = ''[::1]:11001''\<rparr>\<rparr>)
   \<noteq> Ok \<lparr>group = None, pname = ''executor'', node = \<lparr>name = ''node1'', addr = ''[::1]:11001''\<rparr>\<rparr>"
  by (rule pid_with_ipv6_address_lost) simp

section \<open>Errors\<close>

text \<open>
  \<open>get_ids\<close> names exactly the sockets that failed somewhere inside an error, however deep the
  batches of a broadcast inside the notifications of a poll are nested.
\<close>

lemma get_ids_names_failed_sockets:
  "i \<in> set (get_ids e) \<longleftrightarrow> (\<exists>e'. part_of e' e \<and> leaf_id e' = Some i)"
  using get_ids_leaf leaf_in_get_ids by blast

section \<open>The timer wheel as a queue of sets\<close>

text \<open>
  The specification: a queue of sets, one for each coming tick. A new key joins the last set, a
  tick takes the first set and puts an empty one at the end.
\<close>

definition schedule :: "'a timer_wheel \<Rightarrow> 'a set list" where
  "schedule w = map (due w) [0..<tw_size w]"

definition sched_insert :: "'a \<Rightarrow> 'a set list \<Rightarrow> 'a set list" where
  "sched_insert k q = butlast q @ [insert k (last q)]"

definition sched_remove :: "'a \<Rightarrow> nat \<Rightarrow> 'a set list \<Rightarrow> 'a set list" where
  "sched_remove k n q = q[n := q ! n - {k}]"

definition sched_tick :: "'a set list \<Rightarrow> 'a set \<times> 'a set list" where
  "sched_tick q = (hd q, tl q @ [{}])"

lemma schedule_eqI:
  "tw_size w = n \<Longrightarrow> length q = n \<Longrightarrow> (\<And>i. i < n \<Longrightarrow> due w i = q ! i) \<Longrightarrow> schedule w = q"
  by (auto simp: schedule_def intro: nth_equalityI)

text \<open>
  C29: the ring with its two pointers implements that queue: inserting a key, removing a key from
  the slot its insertion returned, and a tick each do to the schedule what the queue's
  operation does, and none of them panics.
\<close>

theorem wheel_refines_queue:
  assumes "tw_wf w" and "n < tw_size w"
  shows "(\<exists>s w1. tw_insert k w = Some (s, w1) \<and> schedule w1 = sched_insert k (schedule w))
    \<and> (\<exists>w2. tw_remove k ((current_read w + n) mod tw_size w) w = Some w2
          \<and> schedule w2 = sched_remove k n (schedule w))
    \<and> (\<exists>ks w3. tw_expire w = Some (ks, w3) \<and> sched_tick (schedule w) = (set ks, schedule w3))"
proof (intro conjI)
  have size: "0 < tw_size w" and r: "current_read w < tw_size w"
    using assms(1) by (auto simp: tw_wf_def)
  obtain s w1 where ins: "tw_insert k w = Some (s, w1)"
    using tw_insert_total [OF assms(1)] by blast
  have "schedule w1 = sched_insert k (schedule w)"
    by (rule schedule_eqI [OF tw_insert_wf(3) [OF assms(1) ins]])
       (use size due_insert [OF assms(1) ins] in
         \<open>auto simp: sched_insert_def schedule_def nth_append nth_butlast last_map less_diff_conv\<close>)
  with ins show "\<exists>s w1. tw_insert k w = Some (s, w1) \<and> schedule w1 = sched_insert k (schedule w)"
    by blast
  let ?j = "(current_read w + n) mod tw_size w"
  obtain w2 where rem: "tw_remove k ?j w = Some w2"
    using tw_remove_total [OF assms(1)] size by fastforce
  note rw = tw_remove_wf [OF assms(1) rem]
  have "due w2 i = (if i = n then due w i - {k} else due w i)" if "i < tw_size w" for i
    using rw(2,3,5) ring_position_inj [OF r that assms(2)] by (simp add: due_def)
  then have "schedule w2 = sched_remove k n (schedule w)"
    by (intro schedule_eqI [OF rw(2)])
       (use assms(2) in \<open>auto simp: sched_remove_def schedule_def nth_list_update\<close>)
  with rem show "\<exists>w2. tw_remove k ?j w = Some w2 \<and> schedule w2 = sched_remove k n (schedule w)"
    by blast
  obtain ks w3 where e: "tw_expire w = Some (ks, w3)"
    using tw_expire_total [OF assms(1)] by blast
  have "schedule w3 = tl (schedule w) @ [{}]"
    by (rule schedule_eqI [OF tw_expire_wf(2) [OF assms(1) e]])
       (use size due_expire(2) [OF assms(1) e] in
         \<open>auto simp: schedule_def nth_append nth_tl less_diff_conv\<close>)
  moreover have "hd (schedule w) = set ks"
    using size due_expire(1) [OF assms(1) e] by (simp add: schedule_def hd_map)
  ultimately show "\<exists>ks w3. tw_expire w = Some (ks, w3) \<and> sched_tick (schedule w) = (set ks, schedule w3)"
    using e by (auto simp: sched_tick_def)
qed

text \<open>A wheel of three slots whose read pointer stands at the last one.\<close>

definition sample_wheel3 :: "usize timer_wheel" where
  "sample_wheel3 = \<lparr>tw_size = 3, tw_data = [[5], [], [7]], current_read = 2, current_write = 1\<rparr>"

lemma sample_wheel3_wf: "tw_wf sample_wheel3"
  by (simp add: sample_wheel3_def tw_wf_def)

theorem wheel_refines_queue_witness:
  "\<exists>ks w3. tw_expire sample_wheel3 = Some (ks, w3)
     \<and> sched_tick (schedule sample_wheel3) = (set ks, schedule w3)"
  using wheel_refines_queue [OF sample_wheel3_wf, of 0] by (simp add: sample_wheel3_def)

text \<open>
  C30: a key inserted into a wheel of \<open>n\<close> slots that does not hold it expires at the \<open>n\<close>-th tick
  and at no earlier one, wherever the pointers stand.
\<close>

theorem wheel_expires_at_last_tick:
  assumes "tw_wf w" and "\<forall>i. k \<notin> slot_keys w i" and "tw_insert k w = Some (s, w1)"
    and "i < tw_size w"
  shows "\<exists>xss w2. tw_ticks (tw_size w) w1 = Some (xss, w2) \<and> length xss = tw_size w
    \<and> (k \<in> set (xss ! i) \<longleftrightarrow> i = tw_size w - 1)"
proof -
  note iw = tw_insert_wf [OF assms(1,3)]
  obtain xss w2 where t: "tw_ticks (tw_size w) w1 = Some (xss, w2)"
    and xss: "map set xss = map (due w1) [0..<tw_size w]"
    using ticks_due [OF iw(1), of "tw_size w"] iw(3) by auto
  have len: "length xss = tw_size w" using arg_cong [OF xss, of length] by simp
  have "set (xss ! i) = due w1 i"
    using arg_cong [OF xss, of "\<lambda>l. l ! i"] assms(4) len by simp
  also have "\<dots> = (if i = tw_size w - 1 then insert k (due w i) else due w i)"
    by (rule due_insert [OF assms(1,3,4)])
  finally have "k \<in> set (xss ! i) \<longleftrightarrow> i = tw_size w - 1"
    using assms(2) by (simp add: due_def)
  with t len show ?thesis by blast
qed

theorem wheel_expires_at_last_tick_witness:
  "\<exists>s w1 xss w2. tw_insert 9 sample_wheel3 = Some (s, w1) \<and> tw_ticks 3 w1 = Some (xss, w2)
     \<and> 9 \<in> set (xss ! 2)"
proof -
  obtain s w1 where i: "tw_insert 9 sample_wheel3 = Some (s, w1)"
    using tw_insert_total [OF sample_wheel3_wf] by blast
  have "9 \<notin> slot_keys sample_wheel3 j" for j
  proof -
    consider "j = 0" | "j = 1" | "j = 2" | "3 \<le> j" by linarith
    then show ?thesis by cases (simp_all add: slot_keys_def sample_wheel3_def)
  qed
  then have "\<forall>j. 9 \<notin> slot_keys sample_wheel3 j" by blast
  moreover have "tw_size sample_wheel3 = 3" by (simp add: sample_wheel3_def)
  ultimately show ?thesis
    using wheel_expires_at_last_tick [OF sample_wheel3_wf _ i, of 2] i by auto
qed

end
