(* ===== verification/ClusterEquiv.thy ===== *)
theory ClusterEquiv
  imports ClusterClaims2
begin

text \<open>
  \<open>disconnect_all\<close> and \<open>disconnect_established\<close> write out the steps of \<open>close\<close>, in another order.
  They do what closing the connections one by one does.
\<close>

section \<open>All connections\<close>

definition close_all :: "('t, 'w, 'f, 's, 'd, 'k) cluster_env \<Rightarrow> ('t, 'q, 'x, 'w, 'f, 's, unit) cact" where
  "close_all x = withM (\<lambda>s. forM (map fst (connections s)) (cs_close x))"

definition close_nodes ::
    "('t, 'w, 'f, 's, 'd, 'k) cluster_env \<Rightarrow> node_id list \<Rightarrow> ('t, 'q, 'x, 'w, 'f, 's, unit) cact" where
  "close_nodes x ns = forM ns (\<lambda>n. withM (\<lambda>s.
     case hm_get (established s) n of None \<Rightarrow> ret () | Some i \<Rightarrow> cs_close x i))"

lemma hm_remove_first: "hm_ok ((i, c) # cs) \<Longrightarrow> hm_remove i ((i, c) # cs) = cs"
  by (simp add: hm_remove_def hm_ok_def delete_id)

lemma cs_close_registrar:
  assumes "hm_get (connections s) i = Some c" and "cs_close x i s = (Ok (), s')"
  shows "registrar s' = snd (rg_deregister x (sock c) (registrar s))"
  using assms
  by (auto simp: cs_close_def sysM_def wheel_remove_def act_defs split: option.splits prod.splits if_splits)

lemma no_connections_disconnected:
  assumes "cl_inv x used peer {} None s" and "connections s = []"
  shows "s\<lparr>established := [], connections := []\<rparr> = s"
proof -
  have none: "hm_get (established s) n = None" for n
    using established_okD(1) [OF cl_invD(8) [OF assms(1)], of n] assms(2)
    by (cases "hm_get (established s) n") auto
  have "established s = []"
  proof (cases "established s")
    case (Cons e es)
    with none [of "fst e"] show ?thesis by simp
  qed
  with assms(2) show ?thesis by (cases s) simp
qed

lemma drain_is_close:
  "cl_inv x used peer {} None s \<Longrightarrow> connections s = cs \<Longrightarrow>
   forM cs (\<lambda>(i, c). seqM (wheel_remove i (timer_wheel_index c))
       (bindM (sysM (rg_deregister x (sock c))) (\<lambda>_. ret ()))) (s\<lparr>established := [], connections := []\<rparr>)
     = forM (map fst cs) (cs_close x) s"
proof (induction cs arbitrary: s)
  case Nil
  show ?case by (simp only: no_connections_disconnected [OF Nil] forM.simps list.map)
next
  case (Cons ic cs)
  obtain i c where ic: "ic = (i, c)" by fastforce
  have c: "hm_get (connections s) i = Some c" using Cons.prems(2) by (simp add: ic)
  have rest: "hm_remove i (connections s) = cs"
    using hm_remove_first cl_invD(4) [OF Cons.prems(1)] Cons.prems(2) by (simp add: ic)
  obtain tw w est where close: "cs_close x i s = (Ok (), s\<lparr>connections := cs, registrar := w,
      cs_timer_wheel := tw, established := est\<rparr>)"
    and tw: "tw_remove i (timer_wheel_index c) (cs_timer_wheel s) = Some tw"
    using cs_close_present [OF Cons.prems(1) c] rest by auto
  let ?s = "s\<lparr>connections := cs, registrar := w, cs_timer_wheel := tw, established := est\<rparr>"
  obtain r where dereg: "rg_deregister x (sock c) (registrar s) = (r, w)"
    using cs_close_registrar [OF c close] by (cases "rg_deregister x (sock c) (registrar s)") simp
  let ?step = "\<lambda>(i, c). seqM (wheel_remove i (timer_wheel_index c))
    (bindM (sysM (rg_deregister x (sock c))) (\<lambda>_. ret ()))"
  have "cl_inv x used peer {} None ?s"
    using cs_close_effect [OF Cons.prems(1), of i] close by auto
  from Cons.IH [OF this]
  have IH: "forM cs ?step (?s\<lparr>established := [], connections := []\<rparr>) = forM (map fst cs) (cs_close x) ?s"
    by simp
  have "?step ic (s\<lparr>established := [], connections := []\<rparr>)
      = (Ok (), ?s\<lparr>established := [], connections := []\<rparr>)"
    using tw dereg by (simp add: ic sysM_def wheel_remove_def act_defs cluster_update_order)
  then have "forM (ic # cs) ?step (s\<lparr>established := [], connections := []\<rparr>)
      = forM cs ?step (?s\<lparr>established := [], connections := []\<rparr>)"
    by (simp only: forM.simps seqM_def bindM_def prod.case result.case)
  with IH close show ?case by (simp only: ic list.map fst_conv forM.simps seqM_def bindM_def prod.case result.case)
qed

section \<open>Established connections\<close>

lemma disconnect_node_is_close:
  assumes "cl_inv x used peer {} None s"
  shows "disconnect_node x n s =
    (case hm_get (established s) n of None \<Rightarrow> ret () | Some i \<Rightarrow> cs_close x i) s"
proof (cases "hm_get (established s) n")
  case None
  then show ?thesis by (simp add: disconnect_node_def withM_def)
next
  case (Some i)
  obtain c where c: "hm_get (connections s) i = Some c"
    using established_okD(1) [OF cl_invD(8) [OF assms] Some] by blast
  moreover have "conn_node c = Some n"
    using established_okD(2) [OF cl_invD(8) [OF assms] Some c] by simp
  moreover obtain tw where "tw_remove i (timer_wheel_index c) (cs_timer_wheel s) = Some tw"
    using tw_remove_total [OF cl_inv_wf [OF assms] cl_invD(7) [OF assms c]] by blast
  ultimately show ?thesis
    using Some
    by (simp add: disconnect_node_def cs_close_def sysM_def wheel_remove_def act_defs
        cluster_update_order split: sum.splits prod.splits)
qed

lemma disconnect_established_is_close:
  "cl_inv x used peer {} None s \<Longrightarrow> disconnect_established x ns s = close_nodes x ns s"
  unfolding disconnect_established_def close_nodes_def
proof (induction ns arbitrary: s)
  case (Cons n ns)
  obtain s1 where s1: "disconnect_node x n s = (Ok (), s1)" "cl_inv x used peer {} None s1"
    using disconnect_node_effect [OF Cons.prems, of n] by blast
  then have "(case hm_get (established s) n of None \<Rightarrow> ret () | Some i \<Rightarrow> cs_close x i) s = (Ok (), s1)"
    using disconnect_node_is_close [OF Cons.prems, of n] by simp
  with s1(1) Cons.IH [OF s1(2)] show ?case by (simp add: seqM_def bindM_def withM_def)
qed simp

text \<open>
  C18: the two operations that disconnect are \<open>close\<close> for each connection. \<open>disconnect_all\<close>
  empties both tables first and then drains the connections, \<open>disconnect_established\<close> removes the
  established node first; in both cases the result and the whole state, with the timer wheel and
  the order of the calls to the kernel, are those of closing the connections in turn.
\<close>
theorem disconnecting_is_closing:
  assumes "cl_inv x used peer {} None s"
  shows "disconnect_all x s = close_all x s
    \<and> disconnect_established x ns s = close_nodes x ns s"
proof -
  have "disconnect_all x s = close_all x s"
    using drain_is_close [OF assms refl]
    by (simp add: disconnect_all_def close_all_def withM_def seq_mod)
  with disconnect_established_is_close [OF assms] show ?thesis by blast
qed

theorem disconnecting_is_closing_witness:
  "disconnect_all (sample_env True) sample_cluster = close_all (sample_env True) sample_cluster
   \<and> disconnect_established (sample_env True) [sample_peer 4, sample_peer 3] sample_cluster
     = cs_close (sample_env True) 7 sample_cluster"
proof -
  have "close_nodes (sample_env True) [sample_peer 4, sample_peer 3] sample_cluster
      = cs_close (sample_env True) 7 sample_cluster"
    using cs_close_effect [OF sample_server_inv [of 3], of 7]
    by (auto simp: close_nodes_def sample_server_def act_defs)
  with disconnecting_is_closing [OF sample_server_inv [of 3]] show ?thesis by simp
qed

end
