(* ===== verification/ClusterTyped.thy ===== *)
theory ClusterTyped
  imports ClusterClaims Outcomes
begin

text \<open>
  What the cluster server never gets wrong, whatever the outside does: the registrar may hand out
  an id twice, peers may send any frames and pose as anybody, every call may fail and the executor
  may be gone. The types of the code and its indices still hold: keys of its maps are unique, the
  timer wheel keeps its shape and every connection's slot is a slot of the wheel. So none of the
  wheel's indexing is ever out of range.
\<close>

section \<open>Well-typed states\<close>

definition cluster_typed :: "node_id \<Rightarrow> ('t, 'q, 'x, 'w, 'f, 's) cluster \<Rightarrow> bool" where
  "cluster_typed n s \<longleftrightarrow> cs_node s = n
     \<and> cs_pid s = \<lparr>group = Some ''rabble'', pname = ''cluster_server'', node = n\<rparr>
     \<and> tw_wf (cs_timer_wheel s) \<and> tw_size (cs_timer_wheel s) = request_timeout div tick_time
     \<and> hm_ok (connections s) \<and> hm_ok (established s)
     \<and> list_all (\<lambda>(i, c). timer_wheel_index c < request_timeout div tick_time) (connections s)"

lemma cluster_typed_frame [simp]:
  "cluster_typed n (s\<lparr>registrar := w\<rparr>) = cluster_typed n s"
  "cluster_typed n (s\<lparr>cs_members := ms\<rparr>) = cluster_typed n s"
  "cluster_typed n (s\<lparr>cs_metrics := m\<rparr>) = cluster_typed n s"
  "cluster_typed n (s\<lparr>listener := l\<rparr>) = cluster_typed n s"
  "cluster_typed n (s\<lparr>executor_tx := ch\<rparr>) = cluster_typed n s"
  "cluster_typed n (s\<lparr>timer_id := i\<rparr>) = cluster_typed n s"
  "cluster_typed n (s\<lparr>executor_timer_id := i\<rparr>) = cluster_typed n s"
  "cluster_typed n (s\<lparr>listener_id := i\<rparr>) = cluster_typed n s"
  by (simp_all add: cluster_typed_def)

abbreviation slots :: nat where
  "slots \<equiv> request_timeout div tick_time"

lemma slots_map_of:
  "hm_ok cs \<Longrightarrow> list_all (\<lambda>(i, c). timer_wheel_index c < k) cs
    \<longleftrightarrow> (\<forall>i c. hm_get cs i = Some c \<longrightarrow> timer_wheel_index c < k)"
  unfolding hm_ok_def by (rule list_all_map_of)

lemma typed_slot:
  "cluster_typed n s \<Longrightarrow> hm_get (connections s) i = Some c \<Longrightarrow> timer_wheel_index c < slots"
  by (auto simp: cluster_typed_def slots_map_of)

lemma typed_entry_slot:
  "cluster_typed n s \<Longrightarrow> (i, c) \<in> set (connections s) \<Longrightarrow> timer_wheel_index c < slots"
  by (auto simp: cluster_typed_def list_all_iff)

lemma typed_insert [intro]:
  "cluster_typed n s \<Longrightarrow> timer_wheel_index c < slots \<Longrightarrow>
   cluster_typed n (s\<lparr>connections := hm_insert i c (connections s)\<rparr>)"
  by (auto simp: cluster_typed_def slots_map_of split: if_splits)

lemma typed_remove [intro]:
  "cluster_typed n s \<Longrightarrow> cluster_typed n (s\<lparr>connections := hm_remove i (connections s)\<rparr>)"
  by (auto simp: cluster_typed_def slots_map_of split: if_splits)

lemma typed_established [intro]:
  "cluster_typed n s \<Longrightarrow> hm_ok es \<Longrightarrow> cluster_typed n (s\<lparr>established := es\<rparr>)"
  by (simp add: cluster_typed_def)

lemma typed_ok: "cluster_typed n s \<Longrightarrow> hm_ok (established s)"
  by (simp add: cluster_typed_def)

lemma typed_established_changes [intro]:
  "cluster_typed n s \<Longrightarrow> cluster_typed n (s\<lparr>established := hm_remove k (established s)\<rparr>)"
  "cluster_typed n s \<Longrightarrow>
   cluster_typed n (s\<lparr>established := hm_insert k i (hm_remove k (established s))\<rparr>)"
  "cluster_typed n s \<Longrightarrow> cluster_typed n (s\<lparr>established := [], connections := []\<rparr>)"
  by (simp_all add: cluster_typed_def)

lemma typed_same [intro]:
  "cluster_typed n s \<Longrightarrow> hm_get (connections s) i = Some c \<Longrightarrow> same_conn c c' \<Longrightarrow>
   cluster_typed n (s\<lparr>connections := hm_insert i c' (connections s)\<rparr>)"
  by (auto intro!: typed_insert dest: typed_slot simp: same_conn_def)

lemma typed_wheel:
  "cluster_typed n s \<Longrightarrow> tw_wf tw \<Longrightarrow> tw_size tw = slots \<Longrightarrow> cluster_typed n (s\<lparr>cs_timer_wheel := tw\<rparr>)"
  by (simp add: cluster_typed_def)

section \<open>Operations\<close>

lemma typed_sysM [only_rules]: "only U (cluster_typed n) (sysM f)"
  by (rule onlyI) (simp add: sysM_def split: prod.splits)

lemma typed_small [only_rules]:
  "only U (cluster_typed n) (encode_msg x m e)" "only U (cluster_typed n) (bump g)"
  "only U (cluster_typed n) (executor_send msg)"
  by (auto intro!: onlyI simp: encode_msg_def bump_def executor_send_def act_defs
      split: option.splits prod.splits)

lemma typed_tryIO [only_rules]: "only U (cluster_typed n) (tryIO f k)"
  unfolding tryIO_def by (auto intro!: only_rules split: sum.splits)

text \<open>An insertion returns a slot of the wheel, and only such slots are removed from.\<close>

lemma typed_bind_insert:
  assumes "\<And>slot. slot < slots \<Longrightarrow> only U (cluster_typed n) (f slot)"
  shows "only U (cluster_typed n) (bindM (wheel_insert i) f)"
proof (rule onlyI, goal_cases)
  case (1 s)
  then have wf: "tw_wf (cs_timer_wheel s)" "tw_size (cs_timer_wheel s) = slots"
    by (simp_all add: cluster_typed_def)
  obtain slot tw where ins: "tw_insert i (cs_timer_wheel s) = Some (slot, tw)"
    using tw_insert_Some [OF wf(1)] by blast
  note new = tw_insert_wf [OF wf(1) ins]
  have "cluster_typed n (s\<lparr>cs_timer_wheel := tw\<rparr>)" "slot < slots"
    using 1 wf new by (auto intro: typed_wheel)
  then show ?case
    using only_at [OF assms, of slot] ins by (simp add: wheel_insert_def bindM_def)
qed

lemma typed_wheel_remove:
  assumes "slot < slots"
  shows "only U (cluster_typed n) (wheel_remove i slot)"
proof (rule onlyI, goal_cases)
  case (1 s)
  then have wf: "tw_wf (cs_timer_wheel s)" "tw_size (cs_timer_wheel s) = slots"
    by (simp_all add: cluster_typed_def)
  then obtain tw where rem: "tw_remove i slot (cs_timer_wheel s) = Some tw"
    using assms by (auto simp: tw_remove_def tw_wf_def)
  from 1 tw_remove_wf [OF wf(1) rem] wf(2) rem show ?case
    by (simp add: wheel_remove_def typed_wheel)
qed

lemma typed_wheel_expire [only_rules]: "only U (cluster_typed n) cs_wheel_expire"
proof (rule onlyI, goal_cases)
  case (1 s)
  then have wf: "tw_wf (cs_timer_wheel s)" "tw_size (cs_timer_wheel s) = slots"
    by (simp_all add: cluster_typed_def)
  obtain ids tw where e: "tw_expire (cs_timer_wheel s) = Some (ids, tw)"
    using tw_expire_Some [OF wf(1)] by blast
  from 1 tw_expire_wf(1,2) [OF wf(1) e] wf(2) e show ?case
    by (simp add: cs_wheel_expire_def typed_wheel)
qed

lemma typed_update_conn:
  assumes "\<And>c. timer_wheel_index c < slots \<Longrightarrow> timer_wheel_index (f c) < slots"
  shows "only U (cluster_typed n) (update_conn i f)"
  unfolding update_conn_def
  by (rule only_mod) (auto intro!: assms intro: typed_slot split: option.splits)

lemma typed_write_conn [only_rules]: "only U (cluster_typed n) (write_conn x i m)"
proof (rule onlyI, goal_cases)
  case (1 s)
  show ?case
  proof (cases "hm_get (connections s) i")
    case (Some c)
    obtain r c' w where "conn_write x i c m (registrar s) = (r, c', w)" by (metis prod_cases3)
    with conn_write_same [OF this] Some typed_slot [OF 1 Some] typed_insert [OF 1, of c' i] show ?thesis
      by (simp add: write_conn_def same_conn_def split: sum.splits)
  qed (use 1 in \<open>simp add: write_conn_def\<close>)
qed

lemma typed_broadcast [only_rules]: "only U (cluster_typed n) (cs_broadcast x b)"
proof (rule onlyI, goal_cases)
  case (1 s)
  obtain es cs w where b: "broadcast_conns x b (connections s) (registrar s) = (es, cs, w)"
    by (metis prod_cases3)
  note same = list_all2_map_of [OF broadcast_conns_same [OF b]]
  have ok: "hm_ok cs" using same 1 by (simp add: cluster_typed_def hm_ok_def)
  have "timer_wheel_index c < slots" if c: "hm_get cs i = Some c" for i c
  proof -
    obtain c0 where "hm_get (connections s) i = Some c0" "same_conn c0 c"
      using conjunct2 [OF same, of i] c by (auto simp: option_rel_Some2)
    with typed_slot [OF 1] show ?thesis by (auto simp: same_conn_def)
  qed
  with ok 1 have "cluster_typed n (s\<lparr>connections := cs, registrar := w\<rparr>)"
    by (simp add: cluster_typed_def slots_map_of)
  with b show ?case by (simp add: cs_broadcast_def)
qed

lemma typed_broadcasts [only_rules]:
  "only U (cluster_typed n) (broadcast_delta x d)" "only U (cluster_typed n) (broadcast_pings x)"
  unfolding broadcast_delta_def broadcast_pings_def by (intro only_rules)+

lemma typed_send_members [only_rules]: "only U (cluster_typed n) (send_members x i)"
  unfolding send_members_def encode_members_def by (intro only_rules typed_update_conn) simp

lemma typed_cs_write [only_rules]: "only U (cluster_typed n) (cs_write x i b)"
  unfolding cs_write_def by (auto intro!: only_rules typed_update_conn split: option.splits)

lemma typed_init_connection [only_rules]: "only U (cluster_typed n) (init_connection x sk nd)"
  unfolding init_connection_def
  by (auto intro!: only_rules typed_bind_insert only_mod)

lemma typed_connect [only_rules]: "only U (cluster_typed n) (connect x nd)"
  unfolding connect_def by (auto intro!: only_rules)

lemma typed_accept_loop [only_rules]: "only U (cluster_typed n) (accept_loop x l)"
  by (induction l rule: accept_loop.induct) (auto intro!: only_rules only_mod)

lemma typed_cs_close [only_rules]: "only U (cluster_typed n) (cs_close x i)"
  unfolding cs_close_def
  by (auto intro!: only_rules only_mod typed_wheel_remove split: option.splits if_splits)
     (auto intro: typed_slot)

lemma typed_establish [only_rules]:
  "only U (cluster_typed n) (mark_established i nd)" "only U (cluster_typed n) (reset_timer i)"
  "only U (cluster_typed n) (establish_connection x i nd other)"
proof -
  have insert: "cluster_typed n (s\<lparr>connections := hm_insert i c (connections s),
      established := hm_insert nd i (established s)\<rparr>)"
    if "cluster_typed n s" "timer_wheel_index c < slots" for s c
    using typed_established [OF typed_insert [OF that]] typed_ok [OF that(1)] by simp
  show "only U (cluster_typed n) (mark_established i nd)" "only U (cluster_typed n) (reset_timer i)"
    unfolding mark_established_def reset_timer_def
    by (auto intro!: only_rules only_mod insert typed_bind_insert typed_wheel_remove typed_update_conn
        intro: typed_slot split: option.splits)
  then show "only U (cluster_typed n) (establish_connection x i nd other)"
    unfolding establish_connection_def
    by (auto intro!: only_rules only_mod split: option.splits)
qed

text \<open>The unwraps that are left.\<close>

definition unwraps :: "string set" where
  "unwraps = {''connections.remove'', ''conn.node'', ''executor_tx.send''}"

lemma typed_disconnect [only_rules]:
  "only unwraps (cluster_typed n) (disconnect_all x)"
  "only unwraps (cluster_typed n) (disconnect_established x ns)"
proof -
  show "only unwraps (cluster_typed n) (disconnect_all x)"
    unfolding disconnect_all_def
    by (auto intro!: only_rules only_mod typed_wheel_remove) (auto intro: typed_entry_slot)
  show "only unwraps (cluster_typed n) (disconnect_established x ns)"
    unfolding disconnect_established_def disconnect_node_def
    by (auto intro!: only_rules only_mod typed_wheel_remove only_panic
        split: option.splits sum.splits) (auto intro: typed_slot simp: unwraps_def)
qed

lemma typed_check_connections [only_rules]: "only unwraps (cluster_typed n) (check_connections x)"
  unfolding check_connections_def Let_def by (auto intro!: only_rules)

lemma typed_membership [only_rules]:
  "only U (cluster_typed n) (cs_join x nd)" "only U (cluster_typed n) (cs_leave x nd)"
  unfolding cs_join_def cs_leave_def
  by (auto intro!: only_rules only_mod split: prod.splits option.splits)

lemma typed_decode_messages [only_rules]: "only U (cluster_typed n) (decode_messages x i)"
  by (rule onlyI)
     (auto simp: decode_messages_def intro!: typed_same split: option.splits prod.splits sum.splits)

lemma typed_decoded [only_rules]: "only unwraps (cluster_typed n) (handle_decoded_message x i m)"
  unfolding handle_decoded_message_def
  by (auto intro!: only_rules only_mod split: external_msg.splits prod.splits)

lemma typed_socket_io [only_rules]: "only unwraps (cluster_typed n) (do_socket_io x nt)"
  unfolding do_socket_io_def cs_read_def
  by (auto intro!: only_rules split: event.splits option.splits bool.splits)

lemma typed_notification [only_rules]: "only unwraps (cluster_typed n) (handle_notification x nt)"
  unfolding handle_notification_def accept_connection_def tick_executor_def cs_tick_def cs_deregister_def
  by (auto intro!: only_rules only_panic simp: unwraps_def [symmetric]) (simp add: unwraps_def)

lemma typed_handle_msg: "only unwraps (cluster_typed n) (handle_cluster_msg x m)"
  unfolding handle_cluster_msg_def handle_poll_notifications_def send_remote_def cs_get_status_def
    cs_send_metrics_def
  by (auto intro!: only_rules split: cluster_msg.splits msg.splits option.splits)

lemma typed_handle:
  assumes "cluster_typed n s" and "cluster_handle x m s = (st, s')"
  shows "cluster_typed n s' \<and> (\<forall>p. st = Crashed p \<longrightarrow> p \<in> unwraps)"
proof -
  have e: "only unwraps (cluster_typed n) (handle_error x e)" for e
    unfolding handle_error_def by (intro only_rules)
  obtain r s1 where h: "handle_cluster_msg x m s = (r, s1)" by fastforce
  have s1: "cluster_typed n s1" "\<forall>p. r = Panic p \<longrightarrow> p \<in> unwraps"
    using onlyD [OF typed_handle_msg assms(1) h] by blast+
  show ?thesis
    using assms(2) h s1 onlyD [OF e s1(1)]
    by (cases r) (auto simp: cluster_handle_def split: prod.splits result.splits if_splits)
qed

lemma typed_run_loop:
  "cluster_typed n s \<Longrightarrow> run_loop (cluster_handle x) ms s = (st, s') \<Longrightarrow>
   cluster_typed n s' \<and> (\<forall>p. st = Crashed p \<longrightarrow> p \<in> unwraps)"
proof (induction ms arbitrary: s)
  case (Cons m ms)
  obtain st1 s1 where h: "cluster_handle x m s = (st1, s1)" by fastforce
  with Cons typed_handle [OF Cons.prems(1) h] show ?case by (cases st1) auto
qed simp

text \<open>The timers and the listener are registered with unwraps of their own.\<close>

definition start_unwraps :: "string set" where
  "start_unwraps = {''set_interval'', ''register''}"

lemma typed_start: "only start_unwraps (cluster_typed n) (cluster_start x)"
proof -
  have "p \<in> start_unwraps \<Longrightarrow> only start_unwraps (cluster_typed n) (unwrapM p f)" for p f
    unfolding unwrapM_def by (auto intro!: only_rules only_panic split: sum.splits)
  then show ?thesis
    unfolding cluster_start_def by (auto intro!: only_rules only_mod simp: start_unwraps_def)
qed

lemma typed_new:
  assumes "cluster_new x n ch w = Ok s"
  shows "cluster_typed n s"
proof -
  obtain tw where tw: "timer_wheel_new slots = Some (tw :: usize timer_wheel)"
    by (simp add: timer_wheel_new_def request_timeout_def tick_time_def)
  from timer_wheel_new_wf [OF tw] assms tw show ?thesis
    by (auto simp: cluster_new_def cluster_typed_def split: prod.splits sum.splits)
qed

text \<open>
  C11: The cluster server stays well typed, and its indices in range, whatever the outside does.
  Nothing is assumed of the registrar, the peers, the sockets, the encoding, the membership set
  or the executor. At any moment of a run the keys of both maps are unique, the timer wheel has
  its five slots with distinct entries and pointers next to each other, and every connection
  records one of those slots. The thread can only panic in an \<open>unwrap\<close> of the start, of the
  connection of an established node, or of a send to the executor, and never by an index out of
  range in the timer wheel.
\<close>
theorem cluster_server_well_typed:
  assumes "cluster_new x n ch w = Ok s0" and "cluster_run x ms s0 = (st, s)"
  shows "cluster_typed n s
    \<and> (\<forall>p. st = Crashed p \<longrightarrow> p \<in> {''set_interval'', ''register'', ''connections.remove'', ''conn.node'',
          ''executor_tx.send''})"
proof -
  obtain r s1 where start: "cluster_start x s0 = (r, s1)" by fastforce
  note s1 = onlyD [OF typed_start typed_new [OF assms(1)] start]
  show ?thesis
    using assms(2) start s1 typed_run_loop [of n s1 x ms]
    by (cases r) (auto simp: cluster_run_def unwraps_def start_unwraps_def)
qed

text \<open>A peer that sends its members under two names.\<close>

theorem cluster_server_well_typed_witness:
  "\<exists>s0 :: sample_cluster. cluster_new (sample_env False) (sample_peer 5) \<lparr>sent = [], rx_alive = True\<rparr>
        (sample_net0\<lparr>inbox := [(3, [0, 3, 3]), (3, [0, 4, 3])]\<rparr>) = Ok s0
     \<and> hm_ok (established (snd (cluster_run (sample_env False) sample_messages s0)))
     \<and> fst (cluster_run (sample_env False) sample_messages s0) \<noteq> Crashed ''timer_wheel.remove''"
proof -
  obtain s0 where s0: "cluster_new (sample_env False) (sample_peer 5) \<lparr>sent = [], rx_alive = True\<rparr>
      (sample_net0\<lparr>inbox := [(3, [0, 3, 3]), (3, [0, 4, 3])]\<rparr>) = Ok (s0 :: sample_cluster)"
    by (simp add: cluster_new_def sample_env_def timer_wheel_new_def request_timeout_def tick_time_def)
  from cluster_server_well_typed [OF s0 prod.collapse [symmetric], of sample_messages] s0
  show ?thesis by (intro exI [of _ s0]) (auto simp: cluster_typed_def)
qed

end
