(* ===== verification/Serialize.thy ===== *)
theory Serialize
  imports Errors
begin

text \<open>
  The \<open>Serialize\<close> trait of \<open>src/serialize\<close> and its two implementations. The framing is
  \<open>amy\<close>'s \<open>FrameReader\<close> and \<open>FrameWriter\<close>, the message formats are those of the \<open>rmp_serde\<close> and
  \<open>protobuf\<close> crates: both are parameters. A socket is its descriptor, and \<open>'w\<close> the kernel.
\<close>

section \<open>The trait\<close>

type_synonym sock_fd = nat

record ('m, 'z, 'w) serializer =
  ser_new :: 'z
  ser_read :: "sock_fd \<Rightarrow> 'z \<Rightarrow> 'w \<Rightarrow> (error + 'm option) \<times> 'z \<times> 'w"
  ser_write :: "sock_fd \<Rightarrow> 'm option \<Rightarrow> 'z \<Rightarrow> 'w \<Rightarrow> (error + bool) \<times> 'z \<times> 'w"
  ser_set_writable :: "'z \<Rightarrow> 'z"
  ser_is_writable :: "'z \<Rightarrow> bool"

section \<open>Framing and formats\<close>

text \<open>\<open>fm_next\<close> takes the next complete frame out of a reader.\<close>

record ('r, 'f, 'w) framing =
  fm_reader :: "nat \<Rightarrow> 'r"
  fm_read :: "sock_fd \<Rightarrow> 'r \<Rightarrow> 'w \<Rightarrow> (io_error + nat) \<times> 'r \<times> 'w"
  fm_next :: "'r \<Rightarrow> bytes option \<times> 'r"
  fm_writer :: 'f
  fm_write :: "sock_fd \<Rightarrow> bytes option \<Rightarrow> 'f \<Rightarrow> 'w \<Rightarrow> (io_error + bool) \<times> 'f \<times> 'w"
  fm_set_writable :: "'f \<Rightarrow> 'f"
  fm_is_writable :: "'f \<Rightarrow> bool"

record 'm format =
  fmt_encode :: "'m \<Rightarrow> bytes option"
  fmt_decode :: "bytes \<Rightarrow> 'm option"
  fmt_debug :: "'m \<Rightarrow> string"

definition serializer_max_frame_size :: nat where
  "serializer_max_frame_size = 64 * 1024 * 1024"

record ('r, 'f) frames =
  frame_reader :: 'r
  frame_writer :: 'f

definition frames_new :: "('r, 'f, 'w) framing \<Rightarrow> ('r, 'f) frames" where
  "frames_new x =
     \<lparr>frame_reader = fm_reader x serializer_max_frame_size, frame_writer = fm_writer x\<rparr>"

section \<open>The msgpack serializer\<close>

definition msgpack_read ::
    "('r, 'f, 'w) framing \<Rightarrow> 'm format \<Rightarrow> sock_fd \<Rightarrow> ('r, 'f) frames \<Rightarrow> 'w
      \<Rightarrow> (error + 'm option) \<times> ('r, 'f) frames \<times> 'w" where
  "msgpack_read x fmt sk z w =
     (case fm_read x sk (frame_reader z) w of
        (Inl e, r, w') \<Rightarrow>
          (Inl (ErrorMsg ''Msgpack Serializer failed to read from socket''), z\<lparr>frame_reader := r\<rparr>, w')
      | (Inr n, r, w') \<Rightarrow>
          (case fm_next x r of
             (None, r') \<Rightarrow> (Inr None, z\<lparr>frame_reader := r'\<rparr>, w')
           | (Some frame, r') \<Rightarrow>
               (case fmt_decode fmt frame of
                  None \<Rightarrow>
                    (Inl (ErrorMsg ''Failed to decode msgpack frame''), z\<lparr>frame_reader := r'\<rparr>, w')
                | Some m \<Rightarrow> (Inr (Some m), z\<lparr>frame_reader := r'\<rparr>, w'))))"

definition frames_write ::
    "('r, 'f, 'w) framing \<Rightarrow> sock_fd \<Rightarrow> bytes option \<Rightarrow> ('r, 'f) frames \<Rightarrow> 'w
      \<Rightarrow> (error + bool) \<times> ('r, 'f) frames \<times> 'w" where
  "frames_write x sk b z w =
     (case fm_write x sk b (frame_writer z) w of
        (Inl e, f, w') \<Rightarrow> (Inl (ErrorMsg ''Failed to write encoded message''), z\<lparr>frame_writer := f\<rparr>, w')
      | (Inr ok, f, w') \<Rightarrow> (Inr ok, z\<lparr>frame_writer := f\<rparr>, w'))"

definition msgpack_write ::
    "('r, 'f, 'w) framing \<Rightarrow> 'm format \<Rightarrow> sock_fd \<Rightarrow> 'm option \<Rightarrow> ('r, 'f) frames \<Rightarrow> 'w
      \<Rightarrow> (error + bool) \<times> ('r, 'f) frames \<times> 'w" where
  "msgpack_write x fmt sk m z w =
     (case m of
        None \<Rightarrow> frames_write x sk None z w
      | Some v \<Rightarrow>
          (case fmt_encode fmt v of
             None \<Rightarrow> (Inl (ErrorMsg (''Failed to encode message Some('' @ fmt_debug fmt v @ '')'')), z, w)
           | Some b \<Rightarrow> frames_write x sk (Some b) z w))"

definition frames_set_writable :: "('r, 'f, 'w) framing \<Rightarrow> ('r, 'f) frames \<Rightarrow> ('r, 'f) frames" where
  "frames_set_writable x z = z\<lparr>frame_writer := fm_set_writable x (frame_writer z)\<rparr>"

definition frames_is_writable :: "('r, 'f, 'w) framing \<Rightarrow> ('r, 'f) frames \<Rightarrow> bool" where
  "frames_is_writable x z = fm_is_writable x (frame_writer z)"

definition msgpack_serializer ::
    "('r, 'f, 'w) framing \<Rightarrow> 'm format \<Rightarrow> ('m, ('r, 'f) frames, 'w) serializer" where
  "msgpack_serializer x fmt =
     \<lparr>ser_new = frames_new x, ser_read = msgpack_read x fmt, ser_write = msgpack_write x fmt,
      ser_set_writable = frames_set_writable x, ser_is_writable = frames_is_writable x\<rparr>"

section \<open>The protobuf serializer\<close>

text \<open>The same reader and writer of frames, with a bound of its own.\<close>

definition protobuf_max_frame_size :: nat where
  "protobuf_max_frame_size = 64 * 1024 * 1024"

definition protobuf_new :: "('r, 'f, 'w) framing \<Rightarrow> ('r, 'f) frames" where
  "protobuf_new x =
     \<lparr>frame_reader = fm_reader x protobuf_max_frame_size, frame_writer = fm_writer x\<rparr>"

definition protobuf_read ::
    "('r, 'f, 'w) framing \<Rightarrow> 'm format \<Rightarrow> sock_fd \<Rightarrow> ('r, 'f) frames \<Rightarrow> 'w
      \<Rightarrow> (error + 'm option) \<times> ('r, 'f) frames \<times> 'w" where
  "protobuf_read x fmt sk z w =
     (case fm_read x sk (frame_reader z) w of
        (Inl e, r, w') \<Rightarrow>
          (Inl (ErrorMsg ''Serializer failed to read from socket''), z\<lparr>frame_reader := r\<rparr>, w')
      | (Inr n, r, w') \<Rightarrow>
          (case fm_next x r of
             (None, r') \<Rightarrow> (Inr None, z\<lparr>frame_reader := r'\<rparr>, w')
           | (Some frame, r') \<Rightarrow>
               (case fmt_decode fmt frame of
                  None \<Rightarrow> (Inl ProtobufErr, z\<lparr>frame_reader := r'\<rparr>, w')
                | Some m \<Rightarrow> (Inr (Some m), z\<lparr>frame_reader := r'\<rparr>, w'))))"

definition protobuf_write ::
    "('r, 'f, 'w) framing \<Rightarrow> 'm format \<Rightarrow> sock_fd \<Rightarrow> 'm option \<Rightarrow> ('r, 'f) frames \<Rightarrow> 'w
      \<Rightarrow> (error + bool) \<times> ('r, 'f) frames \<times> 'w" where
  "protobuf_write x fmt sk m z w =
     (case m of
        None \<Rightarrow> frames_write x sk None z w
      | Some v \<Rightarrow>
          (case fmt_encode fmt v of
             None \<Rightarrow> (Inl ProtobufErr, z, w)
           | Some b \<Rightarrow> frames_write x sk (Some b) z w))"

definition protobuf_set_writable :: "('r, 'f, 'w) framing \<Rightarrow> ('r, 'f) frames \<Rightarrow> ('r, 'f) frames" where
  "protobuf_set_writable x z = z\<lparr>frame_writer := fm_set_writable x (frame_writer z)\<rparr>"

definition protobuf_is_writable :: "('r, 'f, 'w) framing \<Rightarrow> ('r, 'f) frames \<Rightarrow> bool" where
  "protobuf_is_writable x z = fm_is_writable x (frame_writer z)"

definition protobuf_serializer ::
    "('r, 'f, 'w) framing \<Rightarrow> 'm format \<Rightarrow> ('m, ('r, 'f) frames, 'w) serializer" where
  "protobuf_serializer x fmt =
     \<lparr>ser_new = protobuf_new x, ser_read = protobuf_read x fmt, ser_write = protobuf_write x fmt,
      ser_set_writable = protobuf_set_writable x, ser_is_writable = protobuf_is_writable x\<rparr>"

section \<open>Reading a socket to its end\<close>

text \<open>Reading until \<open>None\<close>, at most \<open>n\<close> times.\<close>

fun read_all :: "('z \<Rightarrow> 'w \<Rightarrow> ('e + 'm option) \<times> 'z \<times> 'w) \<Rightarrow> nat \<Rightarrow> 'z \<Rightarrow> 'w \<Rightarrow> 'm list option" where
  "read_all read 0 z w = None"
| "read_all read (Suc n) z w =
     (case read z w of
        (Inl e, z', w') \<Rightarrow> None
      | (Inr None, z', w') \<Rightarrow> Some []
      | (Inr (Some m), z', w') \<Rightarrow> map_option (Cons m) (read_all read n z' w'))"

text \<open>
  The contract of the trait that its clients rely on: called again and again until it returns
  \<open>None\<close>, \<open>read_msg\<close> hands out the messages that have arrived, one at a time and in order, and
  writing does not disturb them. \<open>pending\<close> are the messages that have arrived and were not handed
  out yet; \<open>ok\<close> says that the bytes on the socket are frames of the format.
\<close>

locale message_source =
  fixes read :: "'z \<Rightarrow> 'w \<Rightarrow> ('e + 'm option) \<times> 'z \<times> 'w"
    and "write" :: "'m option \<Rightarrow> 'z \<Rightarrow> 'w \<Rightarrow> ('e + bool) \<times> 'z \<times> 'w"
    and ok :: "'z \<Rightarrow> 'w \<Rightarrow> bool"
    and pending :: "'z \<Rightarrow> 'w \<Rightarrow> 'm list"
  assumes read_next: "ok z w \<Longrightarrow> \<exists>z' w'. ok z' w'
      \<and> read z w = (Inr (case pending z w of [] \<Rightarrow> None | m # ms \<Rightarrow> Some m), z', w')
      \<and> pending z' w' = tl (pending z w)"
    and write_keeps: "ok z w \<Longrightarrow> write m z w = (r, z', w') \<Longrightarrow>
      ok z' w' \<and> pending z' w' = pending z w"
begin

lemma read_all_pending: "ok z w \<Longrightarrow> length (pending z w) < n \<Longrightarrow> read_all read n z w = Some (pending z w)"
proof (induction n arbitrary: z w)
  case (Suc n)
  then obtain z' w' where r: "ok z' w'"
    "read z w = (Inr (case pending z w of [] \<Rightarrow> None | m # ms \<Rightarrow> Some m), z', w')"
    "pending z' w' = tl (pending z w)"
    using read_next by blast
  with Suc show ?case by (cases "pending z w") auto
qed simp

lemma read_decreases:
  "ok z w \<Longrightarrow> read z w = (Inr (Some m), z', w') \<Longrightarrow> length (pending z' w') < length (pending z w)"
  using read_next [of z w] by (cases "pending z w") auto

end

text \<open>
  What the framing promises: \<open>held r\<close> are the complete frames in a reader and \<open>coming sk w\<close>
  those the kernel still has for a socket. A read moves frames from the kernel to the reader
  until there are none left.
\<close>

definition framing_laws ::
    "('r, 'f, 'w) framing \<Rightarrow> ('r \<Rightarrow> bytes list) \<Rightarrow> (sock_fd \<Rightarrow> 'w \<Rightarrow> bytes list) \<Rightarrow> sock_fd \<Rightarrow> bool" where
  "framing_laws x held coming sk \<longleftrightarrow>
     (\<forall>r w. \<exists>n r' w'. fm_read x sk r w = (Inr n, r', w')
        \<and> held r' = held r @ coming sk w \<and> coming sk w' = []) \<and>
     (\<forall>r. fst (fm_next x r) = (case held r of [] \<Rightarrow> None | b # bs \<Rightarrow> Some b)
        \<and> held (snd (fm_next x r)) = tl (held r)) \<and>
     (\<forall>b f w v f' w'. fm_write x sk b f w = (v, f', w') \<longrightarrow> coming sk w' = coming sk w)"

definition frames_pending ::
    "'m format \<Rightarrow> ('r \<Rightarrow> bytes list) \<Rightarrow> (sock_fd \<Rightarrow> 'w \<Rightarrow> bytes list) \<Rightarrow> sock_fd
      \<Rightarrow> ('r, 'f) frames \<Rightarrow> 'w \<Rightarrow> 'm list" where
  "frames_pending fmt held coming sk z w =
     map (\<lambda>b. the (fmt_decode fmt b)) (held (frame_reader z) @ coming sk w)"

definition frames_ok ::
    "('r, 'f, 'w) framing \<Rightarrow> 'm format \<Rightarrow> ('r \<Rightarrow> bytes list) \<Rightarrow> (sock_fd \<Rightarrow> 'w \<Rightarrow> bytes list) \<Rightarrow> sock_fd
      \<Rightarrow> ('r, 'f) frames \<Rightarrow> 'w \<Rightarrow> bool" where
  "frames_ok x fmt held coming sk z w \<longleftrightarrow> framing_laws x held coming sk
     \<and> (\<forall>b \<in> set (held (frame_reader z) @ coming sk w). fmt_decode fmt b \<noteq> None)"

lemma frames_read_step:
  assumes "frames_ok x fmt held coming sk z w"
  obtains n r1 w' frame r' where "fm_read x sk (frame_reader z) w = (Inr n, r1, w')"
    "fm_next x r1 = (frame, r')" "coming sk w' = []"
    "frame = (case held (frame_reader z) @ coming sk w of [] \<Rightarrow> None | b # bs \<Rightarrow> Some b)"
    "held r' = tl (held (frame_reader z) @ coming sk w)"
proof -
  have laws: "framing_laws x held coming sk" using assms by (simp add: frames_ok_def)
  then obtain n r1 w' where "fm_read x sk (frame_reader z) w = (Inr n, r1, w')"
    "held r1 = held (frame_reader z) @ coming sk w" "coming sk w' = []"
    unfolding framing_laws_def by blast
  moreover have "fst (fm_next x r1) = (case held r1 of [] \<Rightarrow> None | b # bs \<Rightarrow> Some b)"
    "held (snd (fm_next x r1)) = tl (held r1)"
    using laws unfolding framing_laws_def by blast+
  ultimately show thesis using that by (metis prod.collapse)
qed

lemma frames_write_keeps:
  assumes "frames_ok x fmt held coming sk z w" and "frames_write x sk b z w = (r, z', w')"
  shows "frames_ok x fmt held coming sk z' w'
    \<and> frames_pending fmt held coming sk z' w' = frames_pending fmt held coming sk z w"
proof -
  obtain v f w1 where wr: "fm_write x sk b (frame_writer z) w = (v, f, w1)" by (metis prod_cases3)
  have "framing_laws x held coming sk" using assms(1) by (simp add: frames_ok_def)
  then have "coming sk w1 = coming sk w" using wr unfolding framing_laws_def by blast
  with assms wr show ?thesis
    by (auto simp: frames_write_def frames_ok_def frames_pending_def split: sum.splits)
qed

lemma frames_after_read:
  assumes "frames_ok x fmt held coming sk z w" and "coming sk w' = []"
    and "held r' = tl (held (frame_reader z) @ coming sk w)"
  shows "frames_ok x fmt held coming sk (z\<lparr>frame_reader := r'\<rparr>) w'"
    and "frames_pending fmt held coming sk (z\<lparr>frame_reader := r'\<rparr>) w'
      = tl (frames_pending fmt held coming sk z w)"
proof -
  have "set (tl l) \<subseteq> set l" for l :: "bytes list" by (cases l) auto
  from this [of "held (frame_reader z) @ coming sk w"]
  have sub: "set (held r') \<subseteq> set (held (frame_reader z) @ coming sk w)" by (simp only: assms(3))
  have "fmt_decode fmt b \<noteq> None" if "b \<in> set (held r')" for b
    using assms(1) subsetD [OF sub that] unfolding frames_ok_def by blast
  with assms(1,2) show "frames_ok x fmt held coming sk (z\<lparr>frame_reader := r'\<rparr>) w'"
    by (simp add: frames_ok_def)
  show "frames_pending fmt held coming sk (z\<lparr>frame_reader := r'\<rparr>) w'
      = tl (frames_pending fmt held coming sk z w)"
    using assms(2,3) by (simp add: frames_pending_def map_tl)
qed

interpretation msgpack_source: message_source "msgpack_read x fmt sk" "msgpack_write x fmt sk"
    "frames_ok x fmt held coming sk" "frames_pending fmt held coming sk"
  for x fmt sk held coming
proof
  fix z w
  assume ok: "frames_ok x fmt held coming sk z w"
  from frames_read_step [OF ok] obtain n r1 w' frame r' where
    step: "fm_read x sk (frame_reader z) w = (Inr n, r1, w')" "fm_next x r1 = (frame, r')"
      "coming sk w' = []"
      "frame = (case held (frame_reader z) @ coming sk w of [] \<Rightarrow> None | b # bs \<Rightarrow> Some b)"
      "held r' = tl (held (frame_reader z) @ coming sk w)" .
  show "\<exists>z' w'. frames_ok x fmt held coming sk z' w'
      \<and> msgpack_read x fmt sk z w
        = (Inr (case frames_pending fmt held coming sk z w of [] \<Rightarrow> None | m # ms \<Rightarrow> Some m), z', w')
      \<and> frames_pending fmt held coming sk z' w' = tl (frames_pending fmt held coming sk z w)"
  proof (intro exI conjI)
    show "frames_ok x fmt held coming sk (z\<lparr>frame_reader := r'\<rparr>) w'"
      "frames_pending fmt held coming sk (z\<lparr>frame_reader := r'\<rparr>) w'
        = tl (frames_pending fmt held coming sk z w)"
      by (rule frames_after_read [OF ok step(3,5)])+
    show "msgpack_read x fmt sk z w
        = (Inr (case frames_pending fmt held coming sk z w of [] \<Rightarrow> None | m # ms \<Rightarrow> Some m),
           z\<lparr>frame_reader := r'\<rparr>, w')"
      using step(1,2,4) ok
      by (cases "held (frame_reader z) @ coming sk w")
         (auto simp: msgpack_read_def frames_pending_def frames_ok_def)
  qed
next
  fix z w m r z' w'
  assume "frames_ok x fmt held coming sk z w" and "msgpack_write x fmt sk m z w = (r, z', w')"
  then show "frames_ok x fmt held coming sk z' w'
      \<and> frames_pending fmt held coming sk z' w' = frames_pending fmt held coming sk z w"
    using frames_write_keeps
    by (fastforce simp: msgpack_write_def split: option.splits)
qed

text \<open>The two implementations differ in the errors they return only.\<close>

lemma protobuf_read_ok:
  assumes "frames_ok x fmt held coming sk z w"
  shows "protobuf_read x fmt sk z w = msgpack_read x fmt sk z w"
proof -
  from frames_read_step [OF assms] obtain n r1 w' frame r' where
    step: "fm_read x sk (frame_reader z) w = (Inr n, r1, w')" "fm_next x r1 = (frame, r')"
      "frame = (case held (frame_reader z) @ coming sk w of [] \<Rightarrow> None | b # bs \<Rightarrow> Some b)"
    by metis
  then show ?thesis
    using assms
    by (cases "held (frame_reader z) @ coming sk w")
       (auto simp: msgpack_read_def protobuf_read_def frames_ok_def)
qed

interpretation protobuf_source: message_source "protobuf_read x fmt sk" "protobuf_write x fmt sk"
    "frames_ok x fmt held coming sk" "frames_pending fmt held coming sk"
  for x fmt sk held coming
proof
  fix z w
  assume "frames_ok x fmt held coming sk z w"
  from msgpack_source.read_next [OF this] protobuf_read_ok [OF this]
  show "\<exists>z' w'. frames_ok x fmt held coming sk z' w'
      \<and> protobuf_read x fmt sk z w
        = (Inr (case frames_pending fmt held coming sk z w of [] \<Rightarrow> None | m # ms \<Rightarrow> Some m), z', w')
      \<and> frames_pending fmt held coming sk z' w' = tl (frames_pending fmt held coming sk z w)"
    by simp
next
  fix z w m r z' w'
  assume "frames_ok x fmt held coming sk z w" and "protobuf_write x fmt sk m z w = (r, z', w')"
  then show "frames_ok x fmt held coming sk z' w'
      \<and> frames_pending fmt held coming sk z' w' = frames_pending fmt held coming sk z w"
    using frames_write_keeps
    by (fastforce simp: protobuf_write_def split: option.splits)
qed

end
