(* ===== verification/TcpServer.thy ===== *)
theory TcpServer
  imports NodeApi Serialize TimerWheel
begin

text \<open>
  The TCP server handler of \<open>src/service/tcp_server_handler.rs\<close> with the connection handlers of
  \<open>src/service/connection_handler.rs\<close>: it accepts clients, gives each a connection handler and
  a serializer, routes requests into the node and replies back, and times out connections and
  requests. The poller and the sockets are parameters that act on the world \<open>'w\<close>; the user's
  connection handler and the serializer are parameters too.

  The node and the registrar, which every call gets by reference, are fields of the state here.
  The listening socket is the list of results its \<open>accept\<close> will return before it would block.
\<close>

section \<open>Connection handlers\<close>

datatype ('t, 'm) connection_msg =
    ConnEnvelope "'t envelope"
  | ConnClient 'm correlation_id

text \<open>A handler that panics returns \<open>None\<close>; the list is the output vector it appends to.\<close>

record ('t, 'm, 'h) conn_handler =
  ch_new :: "pid \<Rightarrow> u64 \<Rightarrow> 'h"
  ch_envelope :: "'t envelope \<Rightarrow> ('t, 'm) connection_msg list \<Rightarrow> 'h
    \<Rightarrow> (('t, 'm) connection_msg list \<times> 'h) option"
  ch_network :: "'m \<Rightarrow> ('t, 'm) connection_msg list \<Rightarrow> 'h
    \<Rightarrow> (('t, 'm) connection_msg list \<times> 'h) option"

section \<open>Parameters\<close>

text \<open>
  \<open>t_available\<close> bounds the messages that can be read from a socket before it would block; the
  loop that reads a socket makes at most that many rounds. The texts are those of error
  messages: the \<open>Display\<close> of an error and the \<open>Debug\<close> of a client message and of an envelope.
\<close>

record ('t, 'm, 'h, 'z, 'w) tcp_env =
  t_handler :: "('t, 'm, 'h) conn_handler"
  t_serializer :: "('m, 'z, 'w) serializer"
  t_available :: "sock_fd \<Rightarrow> 'z \<Rightarrow> 'w \<Rightarrow> nat"
  t_bind :: "string \<Rightarrow> 'w \<Rightarrow> (io_error + (io_error + sock_fd) list) \<times> 'w"
  t_listener_nonblocking :: "'w \<Rightarrow> (io_error + unit) \<times> 'w"
  t_set_nonblocking :: "sock_fd \<Rightarrow> 'w \<Rightarrow> (io_error + unit) \<times> 'w"
  t_register :: "sock_fd \<Rightarrow> event \<Rightarrow> 'w \<Rightarrow> (io_error + usize) \<times> 'w"
  t_register_listener :: "event \<Rightarrow> 'w \<Rightarrow> (io_error + usize) \<times> 'w"
  t_deregister :: "sock_fd \<Rightarrow> 'w \<Rightarrow> (io_error + unit) \<times> 'w"
  t_set_interval :: "nat \<Rightarrow> 'w \<Rightarrow> (io_error + usize) \<times> 'w"
  t_error_text :: "error \<Rightarrow> string"
  t_msg_text :: "'m \<Rightarrow> string"
  t_envelope_text :: "'t envelope \<Rightarrow> string"

definition timer_wheel_slots :: nat where
  "timer_wheel_slots = 10"

section \<open>State\<close>

record ('h, 'z) tcp_conn =
  tc_id :: usize
  tc_handler :: 'h
  tc_serializer :: 'z
  tc_sock :: sock_fd
  timer_wheel_slot :: nat

definition tcp_conn_new ::
    "('t, 'm, 'h, 'z, 'w) tcp_env \<Rightarrow> usize \<Rightarrow> 'h \<Rightarrow> sock_fd \<Rightarrow> nat \<Rightarrow> ('h, 'z) tcp_conn" where
  "tcp_conn_new x i h sk slot =
     \<lparr>tc_id = i, tc_handler = h, tc_serializer = ser_new (t_serializer x), tc_sock = sk,
      timer_wheel_slot = slot\<rparr>"

record ('t, 'q, 'x, 'm, 'h, 'z, 'w) tcp_server =
  t_pid :: pid
  t_listener :: "(io_error + sock_fd) list"
  t_listener_id :: usize
  t_connections :: "(usize, ('h, 'z) tcp_conn) hmap"
  connection_timeout :: "nat option"
  connection_timer_id :: "usize option"
  connection_timer_wheel :: "usize timer_wheel option"
  t_request_timeout :: nat
  request_timer_id :: usize
  request_timer_wheel :: "correlation_id timer_wheel"
  t_output :: "('t, 'm) connection_msg list"
  t_node :: "('t, 'q, 'x) node_handle"
  t_world :: 'w

type_synonym ('t, 'q, 'x, 'm, 'h, 'z, 'w, 'a) tact =
  "(('t, 'q, 'x, 'm, 'h, 'z, 'w) tcp_server, error, 'a) act"

definition tcp_new ::
    "('t, 'm, 'h, 'z, 'w) tcp_env \<Rightarrow> pid \<Rightarrow> string \<Rightarrow> nat \<Rightarrow> nat option
      \<Rightarrow> ('t, 'q, 'x) node_handle \<Rightarrow> 'w
      \<Rightarrow> (error, ('t, 'q, 'x, 'm, 'h, 'z, 'w) tcp_server) result" where
  "tcp_new x p a req conn n w =
     (case (timer_wheel_new (timer_wheel_slots + 1), timer_wheel_new (timer_wheel_slots + 1)) of
        (Some ctw, Some rtw) \<Rightarrow>
          (case t_bind x a w of
             (Inl e, w1) \<Rightarrow> Panic ''bind''
           | (Inr l, w1) \<Rightarrow>
               (case t_listener_nonblocking x w1 of
                  (Inl e, w2) \<Rightarrow> Panic ''set_nonblocking''
                | (Inr u, w2) \<Rightarrow> Ok
                    \<lparr>t_pid = p, t_listener = l, t_listener_id = 0, t_connections = [],
                     connection_timeout = conn, connection_timer_id = None,
                     connection_timer_wheel = (if conn = None then None else Some ctw),
                     t_request_timeout = req, request_timer_id = 0, request_timer_wheel = rtw,
                     t_output = [], t_node = n, t_world = w2\<rparr>))
      | _ \<Rightarrow> Panic ''timer wheel'')"

section \<open>Calls to the outside\<close>

definition t_sys :: "('w \<Rightarrow> (io_error + 'a) \<times> 'w)
    \<Rightarrow> ('t, 'q, 'x, 'm, 'h, 'z, 'w, io_error + 'a) tact" where
  "t_sys f = (\<lambda>s. case f (t_world s) of (r, w) \<Rightarrow> (Ok r, s\<lparr>t_world := w\<rparr>))"

definition t_try :: "('w \<Rightarrow> (io_error + 'a) \<times> 'w) \<Rightarrow> string
    \<Rightarrow> ('t, 'q, 'x, 'm, 'h, 'z, 'w, 'a) tact" where
  "t_try f txt = bindM (t_sys f) (\<lambda>r. case r of Inl e \<Rightarrow> fail (ErrorMsg txt) | Inr a \<Rightarrow> ret a)"

text \<open>A call of the node, whose error is unwrapped.\<close>

definition t_node_send :: "'t envelope \<Rightarrow> ('t, 'q, 'x, 'm, 'h, 'z, 'w, unit) tact" where
  "t_node_send env = (\<lambda>s. case node_send env (t_node s) of
     (Ok u, n) \<Rightarrow> (Ok (), s\<lparr>t_node := n\<rparr>)
   | (_, n) \<Rightarrow> (Panic ''node.send'', s\<lparr>t_node := n\<rparr>))"

text \<open>Both timer wheels; the one of the connections is optional.\<close>

definition conn_wheel_insert :: "usize \<Rightarrow> ('t, 'q, 'x, 'm, 'h, 'z, 'w, nat) tact" where
  "conn_wheel_insert i = (\<lambda>s. case connection_timer_wheel s of
     None \<Rightarrow> (Ok 0, s)
   | Some tw \<Rightarrow>
       (case tw_insert i tw of
          None \<Rightarrow> (Panic ''timer_wheel.insert'', s)
        | Some (slot, tw') \<Rightarrow> (Ok slot, s\<lparr>connection_timer_wheel := Some tw'\<rparr>)))"

definition conn_wheel_remove :: "usize \<Rightarrow> nat \<Rightarrow> ('t, 'q, 'x, 'm, 'h, 'z, 'w, unit) tact" where
  "conn_wheel_remove i slot = (\<lambda>s. case connection_timer_wheel s of
     None \<Rightarrow> (Ok (), s)
   | Some tw \<Rightarrow>
       (case tw_remove i slot tw of
          None \<Rightarrow> (Panic ''timer_wheel.remove'', s)
        | Some tw' \<Rightarrow> (Ok (), s\<lparr>connection_timer_wheel := Some tw'\<rparr>)))"

definition conn_wheel_expire :: "('t, 'q, 'x, 'm, 'h, 'z, 'w, usize list) tact" where
  "conn_wheel_expire = (\<lambda>s. case connection_timer_wheel s of
     None \<Rightarrow> (Panic ''connection_timer_wheel.unwrap'', s)
   | Some tw \<Rightarrow>
       (case tw_expire tw of
          None \<Rightarrow> (Panic ''timer_wheel.expire'', s)
        | Some (ids, tw') \<Rightarrow> (Ok ids, s\<lparr>connection_timer_wheel := Some tw'\<rparr>)))"

definition request_insert :: "correlation_id \<Rightarrow> ('t, 'q, 'x, 'm, 'h, 'z, 'w, unit) tact" where
  "request_insert cid = (\<lambda>s. case tw_insert cid (request_timer_wheel s) of
     None \<Rightarrow> (Panic ''timer_wheel.insert'', s)
   | Some (slot, tw) \<Rightarrow> (Ok (), s\<lparr>request_timer_wheel := tw\<rparr>))"

definition request_expire :: "('t, 'q, 'x, 'm, 'h, 'z, 'w, correlation_id list) tact" where
  "request_expire = (\<lambda>s. case tw_expire (request_timer_wheel s) of
     None \<Rightarrow> (Panic ''timer_wheel.expire'', s)
   | Some (cids, tw) \<Rightarrow> (Ok cids, s\<lparr>request_timer_wheel := tw\<rparr>))"

text \<open>Update of the connection a call has borrowed.\<close>

definition set_conn :: "usize \<Rightarrow> ('h, 'z) tcp_conn
    \<Rightarrow> ('t, 'q, 'x, 'm, 'h, 'z, 'w) tcp_server \<Rightarrow> ('t, 'q, 'x, 'm, 'h, 'z, 'w) tcp_server" where
  "set_conn i c s = s\<lparr>t_connections := hm_insert i c (t_connections s)\<rparr>"

text \<open>The serializer of a connection reads and writes on the connection's socket.\<close>

definition conn_read :: "('t, 'm, 'h, 'z, 'w) tcp_env \<Rightarrow> usize
    \<Rightarrow> ('t, 'q, 'x, 'm, 'h, 'z, 'w, 'm option) tact" where
  "conn_read x i = (\<lambda>s.
     case hm_get (t_connections s) i of
       None \<Rightarrow> (Ok None, s)
     | Some c \<Rightarrow>
         (case ser_read (t_serializer x) (tc_sock c) (tc_serializer c) (t_world s) of
            (r, z, w) \<Rightarrow>
              (case r of Inl e \<Rightarrow> Err e | Inr m \<Rightarrow> Ok m,
               set_conn i (c\<lparr>tc_serializer := z\<rparr>) s\<lparr>t_world := w\<rparr>)))"

definition conn_send :: "('t, 'm, 'h, 'z, 'w) tcp_env \<Rightarrow> usize \<Rightarrow> 'm option \<Rightarrow> (error \<Rightarrow> error)
    \<Rightarrow> ('t, 'q, 'x, 'm, 'h, 'z, 'w, unit) tact" where
  "conn_send x i m k = (\<lambda>s.
     case hm_get (t_connections s) i of
       None \<Rightarrow> (Ok (), s)
     | Some c \<Rightarrow>
         (case ser_write (t_serializer x) (tc_sock c) m (tc_serializer c) (t_world s) of
            (r, z, w) \<Rightarrow>
              (case r of Inl e \<Rightarrow> Err (k e) | Inr b \<Rightarrow> Ok (),
               set_conn i (c\<lparr>tc_serializer := z\<rparr>) s\<lparr>t_world := w\<rparr>)))"

text \<open>A call of the connection's handler, which appends to the shared output vector.\<close>

definition call_handler ::
    "(('t, 'm) connection_msg list \<Rightarrow> 'h \<Rightarrow> (('t, 'm) connection_msg list \<times> 'h) option) \<Rightarrow> usize
      \<Rightarrow> ('t, 'q, 'x, 'm, 'h, 'z, 'w, unit) tact" where
  "call_handler f i = (\<lambda>s.
     case hm_get (t_connections s) i of
       None \<Rightarrow> (Ok (), s)
     | Some c \<Rightarrow>
         (case f (t_output s) (tc_handler c) of
            None \<Rightarrow> (Panic ''handler'', s)
          | Some (out, h) \<Rightarrow> (Ok (), set_conn i (c\<lparr>tc_handler := h\<rparr>) s\<lparr>t_output := out\<rparr>)))"

section \<open>Replies and requests\<close>

text \<open>One element of the output vector; a request's correlation id gets a timer.\<close>

definition connection_msg :: "('t, 'm, 'h, 'z, 'w) tcp_env \<Rightarrow> usize \<Rightarrow> ('t, 'm) connection_msg
    \<Rightarrow> ('t, 'q, 'x, 'm, 'h, 'z, 'w, unit) tact" where
  "connection_msg x i m =
     (case m of
        ConnEnvelope env \<Rightarrow>
          seqM (case env_cid env of None \<Rightarrow> ret () | Some cid \<Rightarrow> request_insert cid) (t_node_send env)
      | ConnClient cm cid \<Rightarrow>
          conn_send x i (Some cm) (\<lambda>e. ErrorMsg (''Failed to write client msg: '' @ t_msg_text x cm)))"

text \<open>The drain empties the vector, also when the loop is left early by an error.\<close>

definition handle_connection_msgs :: "('t, 'm, 'h, 'z, 'w) tcp_env \<Rightarrow> usize
    \<Rightarrow> ('t, 'q, 'x, 'm, 'h, 'z, 'w, unit) tact" where
  "handle_connection_msgs x i = withM (\<lambda>s.
     seqM (modM (\<lambda>s. s\<lparr>t_output := []\<rparr>)) (forM (t_output s) (connection_msg x i)))"

fun read_loop :: "('t, 'm, 'h, 'z, 'w) tcp_env \<Rightarrow> usize \<Rightarrow> nat
    \<Rightarrow> ('t, 'q, 'x, 'm, 'h, 'z, 'w, unit) tact" where
  "read_loop x i 0 = panic ''fuel''"
| "read_loop x i (Suc n) =
     bindM (conn_read x i) (\<lambda>r.
       case r of
         None \<Rightarrow> ret ()
       | Some m \<Rightarrow>
           seqM (call_handler (ch_network (t_handler x) m) i)
             (seqM (handle_connection_msgs x i) (read_loop x i n)))"

definition handle_readable :: "('t, 'm, 'h, 'z, 'w) tcp_env \<Rightarrow> usize
    \<Rightarrow> ('t, 'q, 'x, 'm, 'h, 'z, 'w, unit) tact" where
  "handle_readable x i = withM (\<lambda>s.
     case hm_get (t_connections s) i of
       None \<Rightarrow> ret ()
     | Some c \<Rightarrow> read_loop x i (Suc (t_available x (tc_sock c) (tc_serializer c) (t_world s))))"

definition update_connection_timeout :: "usize \<Rightarrow> ('t, 'q, 'x, 'm, 'h, 'z, 'w, unit) tact" where
  "update_connection_timeout i = withM (\<lambda>s.
     case (connection_timer_wheel s, hm_get (t_connections s) i) of
       (Some tw, Some c) \<Rightarrow>
         seqM (conn_wheel_remove (tc_id c) (timer_wheel_slot c))
           (bindM (conn_wheel_insert (tc_id c)) (\<lambda>slot.
              modM (set_conn i (c\<lparr>timer_wheel_slot := slot\<rparr>))))
     | _ \<Rightarrow> ret ())"

section \<open>Connections\<close>

definition new_connection :: "('t, 'm, 'h, 'z, 'w) tcp_env \<Rightarrow> sock_fd
    \<Rightarrow> ('t, 'q, 'x, 'm, 'h, 'z, 'w, unit) tact" where
  "new_connection x sk =
     seqM (t_try (t_set_nonblocking x sk) ''Failed to make socket nonblocking'')
       (bindM (t_try (t_register x sk Read) ''Failed to register new socket for reading'') (\<lambda>i.
          bindM (conn_wheel_insert i) (\<lambda>slot.
            modM (\<lambda>s. set_conn i (tcp_conn_new x i (ch_new (t_handler x) (t_pid s) i) sk slot) s))))"

fun accept_conns :: "('t, 'm, 'h, 'z, 'w) tcp_env \<Rightarrow> (io_error + sock_fd) list
    \<Rightarrow> ('t, 'q, 'x, 'm, 'h, 'z, 'w, unit) tact" where
  "accept_conns x [] = ret ()"
| "accept_conns x (Inl e # rest) =
     seqM (modM (\<lambda>s. s\<lparr>t_listener := rest\<rparr>))
       (if io_kind e = WouldBlock then ret () else fail (IoError e))"
| "accept_conns x (Inr sk # rest) =
     seqM (modM (\<lambda>s. s\<lparr>t_listener := rest\<rparr>)) (seqM (new_connection x sk) (accept_conns x rest))"

definition accept_connections :: "('t, 'm, 'h, 'z, 'w) tcp_env
    \<Rightarrow> ('t, 'q, 'x, 'm, 'h, 'z, 'w, unit) tact" where
  "accept_connections x = withM (\<lambda>s. accept_conns x (t_listener s))"

definition handle_connection_notification :: "('t, 'm, 'h, 'z, 'w) tcp_env \<Rightarrow> notification
    \<Rightarrow> ('t, 'q, 'x, 'm, 'h, 'z, 'w, unit) tact" where
  "handle_connection_notification x n = withM (\<lambda>s.
     case hm_get (t_connections s) (n_id n) of
       None \<Rightarrow> ret ()
     | Some c \<Rightarrow>
         seqM
           (if n_event n \<noteq> Read then
              seqM (modM (set_conn (n_id n)
                  (c\<lparr>tc_serializer := ser_set_writable (t_serializer x) (tc_serializer c)\<rparr>)))
                (conn_send x (n_id n) None (\<lambda>e. e))
            else ret ())
           (if n_event n \<noteq> Write then
              seqM (handle_readable x (n_id n)) (update_connection_timeout (n_id n))
            else ret ()))"

text \<open>Take a connection out of the map and deregister its socket.\<close>

definition drop_connection :: "('t, 'm, 'h, 'z, 'w) tcp_env \<Rightarrow> usize \<Rightarrow> ('h, 'z) tcp_conn
    \<Rightarrow> ('t, 'q, 'x, 'm, 'h, 'z, 'w, unit) tact" where
  "drop_connection x i c =
     seqM (modM (\<lambda>s. s\<lparr>t_connections := hm_remove i (t_connections s)\<rparr>))
       (bindM (t_sys (t_deregister x (tc_sock c))) (\<lambda>_. ret ()))"

definition connection_tick :: "('t, 'm, 'h, 'z, 'w) tcp_env
    \<Rightarrow> ('t, 'q, 'x, 'm, 'h, 'z, 'w, unit) tact" where
  "connection_tick x =
     bindM conn_wheel_expire (\<lambda>ids.
       forM ids (\<lambda>i. withM (\<lambda>s.
         case hm_get (t_connections s) i of None \<Rightarrow> ret () | Some c \<Rightarrow> drop_connection x i c)))"

text \<open>One expired request; a correlation id without a connection is unwrapped.\<close>

definition request_timed_out :: "('t, 'm, 'h, 'z, 'w) tcp_env \<Rightarrow> correlation_id
    \<Rightarrow> ('t, 'q, 'x, 'm, 'h, 'z, 'w, unit) tact" where
  "request_timed_out x cid = withM (\<lambda>s.
     case connection cid of
       None \<Rightarrow> panic ''connection.unwrap''
     | Some i \<Rightarrow>
         (case hm_get (t_connections s) i of
            None \<Rightarrow> ret ()
          | Some c \<Rightarrow>
              seqM (call_handler (ch_envelope (t_handler x)
                  \<lparr>env_to = t_pid s, env_from = t_pid s, env_msg = Timeout, env_cid = Some cid\<rparr>) i)
                (handle_connection_msgs x i)))"

definition request_tick :: "('t, 'm, 'h, 'z, 'w) tcp_env
    \<Rightarrow> ('t, 'q, 'x, 'm, 'h, 'z, 'w, unit) tact" where
  "request_tick x = bindM request_expire (\<lambda>cids. forM cids (request_timed_out x))"

section \<open>The service handler\<close>

definition tcp_init :: "('t, 'm, 'h, 'z, 'w) tcp_env
    \<Rightarrow> ('t, 'q, 'x, 'm, 'h, 'z, 'w, unit) tact" where
  "tcp_init x =
     bindM (t_try (t_register_listener x Read) ''Failed to register listener'') (\<lambda>l.
       seqM (modM (\<lambda>s. s\<lparr>t_listener_id := l\<rparr>))
         (withM (\<lambda>s.
            bindM (t_try (t_set_interval x (t_request_timeout s div timer_wheel_slots))
                ''Failed to register request timer'') (\<lambda>r.
              seqM (modM (\<lambda>s. s\<lparr>request_timer_id := r\<rparr>))
                (case connection_timeout s of
                   None \<Rightarrow> ret ()
                 | Some ms \<Rightarrow>
                     bindM (t_try (t_set_interval x (ms div timer_wheel_slots))
                         ''Failed to register connection timer'') (\<lambda>c.
                       modM (\<lambda>s. s\<lparr>connection_timer_id := Some c\<rparr>)))))))"

fun decimal :: "nat \<Rightarrow> string" where
  "decimal n = (if n < 10 then [char_of (48 + n)] else decimal (n div 10) @ [char_of (48 + n mod 10)])"

declare decimal.simps [simp del]

definition tcp_handle_notification :: "('t, 'm, 'h, 'z, 'w) tcp_env \<Rightarrow> notification
    \<Rightarrow> ('t, 'q, 'x, 'm, 'h, 'z, 'w, unit) tact" where
  "tcp_handle_notification x n = withM (\<lambda>s.
     if n_id n = t_listener_id s then accept_connections x
     else if n_id n = request_timer_id s then request_tick x
     else if connection_timer_id s = Some (n_id n) then connection_tick x
     else catchM (handle_connection_notification x n) (\<lambda>e. withM (\<lambda>s.
       case hm_get (t_connections s) (n_id n) of
         None \<Rightarrow> panic ''connections.remove''
       | Some c \<Rightarrow>
           seqM (drop_connection x (n_id n) c)
             (fail (ErrorMsg (t_error_text x e @ '': id '' @ decimal (unat (n_id n))))))))"

definition tcp_handle_envelope :: "('t, 'm, 'h, 'z, 'w) tcp_env \<Rightarrow> 't envelope
    \<Rightarrow> ('t, 'q, 'x, 'm, 'h, 'z, 'w, unit) tact" where
  "tcp_handle_envelope x env =
     (case env_cid env of
        None \<Rightarrow> fail (ErrorMsg (''No correlation id for envelope '' @ t_envelope_text x env))
      | Some cid \<Rightarrow>
          (case connection cid of
             None \<Rightarrow> panic ''connection.unwrap''
           | Some i \<Rightarrow> withM (\<lambda>s.
               case hm_get (t_connections s) i of
                 None \<Rightarrow> ret ()
               | Some c \<Rightarrow>
                   seqM (call_handler (ch_envelope (t_handler x) env) i)
                     (handle_connection_msgs x i))))"

end
