(* ===== verification/Service.thy ===== *)
theory Service
  imports TcpServer
begin

text \<open>
  The service loop of \<open>src/service/service.rs\<close> over any service handler
  (\<open>src/service/service_handler.rs\<close>), and the TCP server handler as one. The loop waits for
  poll notifications, which it handles one by one; envelopes arrive on the service's channel at
  any time, from the executor's thread. An event of the model is one or the other.
\<close>

section \<open>Service handlers\<close>

record ('t, 's) service_handler =
  sh_init :: "('s, error, unit) act"
  sh_notification :: "notification \<Rightarrow> ('s, error, unit) act"
  sh_envelope :: "'t envelope \<Rightarrow> ('s, error, unit) act"

record ('t, 's) service =
  sv_pid :: pid
  sv_rx_id :: usize
  sv_rx :: "'t envelope list"
  sv_handler :: 's

text \<open>
  \<open>po\<close>, \<open>rg\<close> and \<open>ch\<close> are what creating the poller, its registrar and the channel gave, \<open>reg\<close> is
  the registration of the channel's sender with the node.
\<close>

definition service_new ::
    "('t, 's) service_handler \<Rightarrow> pid \<Rightarrow> io_error + unit \<Rightarrow> io_error + unit \<Rightarrow> io_error + usize
      \<Rightarrow> ('s, error, unit) act \<Rightarrow> 's \<Rightarrow> (error, ('t, 's) service) result" where
  "service_new h p po rg ch reg s =
     (case po of
        Inl e \<Rightarrow> Panic ''Poller::new''
      | Inr u \<Rightarrow>
          (case rg of
             Inl e \<Rightarrow> Err (IoError e)
           | Inr u \<Rightarrow>
               (case ch of
                  Inl e \<Rightarrow> Err (IoError e)
                | Inr rx \<Rightarrow>
                    (case seqM reg (sh_init h) s of
                       (Ok u, s') \<Rightarrow> Ok \<lparr>sv_pid = p, sv_rx_id = rx, sv_rx = [], sv_handler = s'\<rparr>
                     | (Err e, s') \<Rightarrow> Err e
                     | (Panic m, s') \<Rightarrow> Panic m))))"

section \<open>The loop\<close>

text \<open>The second argument is the queue of the receiver.\<close>

fun drain_envelopes :: "('t, 's) service_handler \<Rightarrow> 't envelope list \<Rightarrow> ('t, 's) service
    \<Rightarrow> (error, unit) result \<times> ('t, 's) service" where
  "drain_envelopes h [] v = (Ok (), v\<lparr>sv_rx := []\<rparr>)"
| "drain_envelopes h (env # rest) v =
     (if env_msg env = ShutdownMsg then (Err (ShutdownErr (sv_pid v)), v\<lparr>sv_rx := rest\<rparr>)
      else
        (case sh_envelope h env (sv_handler v) of
           (Ok u, s) \<Rightarrow> drain_envelopes h rest (v\<lparr>sv_rx := rest, sv_handler := s\<rparr>)
         | (Err e, s) \<Rightarrow> (Err e, v\<lparr>sv_rx := rest, sv_handler := s\<rparr>)
         | (Panic m, s) \<Rightarrow> (Panic m, v\<lparr>sv_rx := rest, sv_handler := s\<rparr>)))"

definition handle_envelopes :: "('t, 's) service_handler \<Rightarrow> ('t, 's) service
    \<Rightarrow> (error, unit) result \<times> ('t, 's) service" where
  "handle_envelopes h v = drain_envelopes h (sv_rx v) v"

datatype 't service_event = Arrived "'t envelope" | Notified notification

fun is_shutdown :: "error \<Rightarrow> bool" where
  "is_shutdown (ShutdownErr p) = True"
| "is_shutdown e = False"

definition service_notified :: "('t, 's) service_handler \<Rightarrow> notification \<Rightarrow> ('t, 's) service
    \<Rightarrow> loop_status \<times> ('t, 's) service" where
  "service_notified h n v =
     (if n_id n = sv_rx_id v then
        (case handle_envelopes h v of
           (Ok u, v') \<Rightarrow> (Running, v')
         | (Err e, v') \<Rightarrow> (if is_shutdown e then Stopped else Running, v')
         | (Panic m, v') \<Rightarrow> (Crashed m, v'))
      else
        (case sh_notification h n (sv_handler v) of
           (Panic m, s) \<Rightarrow> (Crashed m, v\<lparr>sv_handler := s\<rparr>)
         | (_, s) \<Rightarrow> (Running, v\<lparr>sv_handler := s\<rparr>)))"

definition service_handle :: "('t, 's) service_handler \<Rightarrow> 't service_event \<Rightarrow> ('t, 's) service
    \<Rightarrow> loop_status \<times> ('t, 's) service" where
  "service_handle h ev v =
     (case ev of
        Arrived env \<Rightarrow> (Running, v\<lparr>sv_rx := sv_rx v @ [env]\<rparr>)
      | Notified n \<Rightarrow> service_notified h n v)"

definition service_wait :: "('t, 's) service_handler \<Rightarrow> 't service_event list \<Rightarrow> ('t, 's) service
    \<Rightarrow> loop_status \<times> ('t, 's) service" where
  "service_wait h evs v = run_loop (service_handle h) evs v"

section \<open>The contract of a service handler\<close>

text \<open>What may arrive on a service's channel: a shutdown, or an envelope its handler is ready for.\<close>

definition admitted :: "('t envelope \<Rightarrow> bool) \<Rightarrow> 't envelope \<Rightarrow> bool" where
  "admitted accepts env \<longleftrightarrow> env_msg env = ShutdownMsg \<or> accepts env"

fun event_ok :: "('t envelope \<Rightarrow> bool) \<Rightarrow> 't service_event \<Rightarrow> bool" where
  "event_ok accepts (Arrived env) = admitted accepts env"
| "event_ok accepts (Notified n) = True"

text \<open>
  A handler that keeps its invariant and does not panic on any notification, nor on an envelope
  it accepts, makes a service that does not crash, however arrivals and notifications interleave.
\<close>

locale service_contract =
  fixes h :: "('t, 's) service_handler"
    and inv :: "'s \<Rightarrow> bool"
    and accepts :: "'t envelope \<Rightarrow> bool"
  assumes notification_safe: "safe inv (sh_notification h n)"
    and envelope_safe: "accepts env \<Longrightarrow> safe inv (sh_envelope h env)"
begin

definition service_inv :: "('t, 's) service \<Rightarrow> bool" where
  "service_inv v \<longleftrightarrow> inv (sv_handler v) \<and> list_all (admitted accepts) (sv_rx v)"

lemma drain_safe:
  "inv (sv_handler v) \<Longrightarrow> list_all (admitted accepts) rx \<Longrightarrow> drain_envelopes h rx v = (r, v') \<Longrightarrow>
   service_inv v' \<and> \<not> is_panic r"
proof (induction rx arbitrary: v)
  case Nil
  then show ?case by (auto simp: service_inv_def)
next
  case (Cons env rest)
  show ?case
  proof (cases "env_msg env = ShutdownMsg")
    case True
    with Cons.prems show ?thesis by (auto simp: service_inv_def)
  next
    case False
    with Cons.prems have acc: "accepts env" by (simp add: admitted_def)
    obtain r1 s1 where e: "sh_envelope h env (sv_handler v) = (r1, s1)" by fastforce
    have s1: "inv s1 \<and> \<not> is_panic r1" by (rule safeD [OF envelope_safe [OF acc] Cons.prems(1) e])
    show ?thesis
    proof (cases r1)
      case (Ok u)
      with e False s1 Cons.prems Cons.IH [of "v\<lparr>sv_rx := rest, sv_handler := s1\<rparr>"]
      show ?thesis by simp
    qed (use e False s1 Cons.prems in \<open>auto simp: service_inv_def\<close>)
  qed
qed

lemma service_handle_safe:
  assumes "service_inv v" and "event_ok accepts ev" and "service_handle h ev v = (st, v')"
  shows "service_inv v'" and "st \<noteq> Crashed p"
proof -
  have inv: "inv (sv_handler v)" and rx: "list_all (admitted accepts) (sv_rx v)"
    using assms(1) by (auto simp: service_inv_def)
  have "service_inv v' \<and> st \<noteq> Crashed p"
  proof (cases ev)
    case (Arrived env)
    with assms show ?thesis by (auto simp: service_handle_def service_inv_def)
  next
    case (Notified n)
    obtain r1 v1 where d: "drain_envelopes h (sv_rx v) v = (r1, v1)" by fastforce
    obtain r2 s2 where e: "sh_notification h n (sv_handler v) = (r2, s2)" by fastforce
    show ?thesis
      using assms(3) Notified drain_safe [OF inv rx d] safeD [OF notification_safe inv e] d e rx
      by (cases r1; cases r2)
         (auto simp: service_handle_def service_notified_def handle_envelopes_def service_inv_def
            split: if_splits)
  qed
  then show "service_inv v'" and "st \<noteq> Crashed p" by auto
qed

end

sublocale service_contract \<subseteq> loop: message_loop "service_handle h" "\<lambda>ev v. event_ok accepts ev" service_inv
  by unfold_locales (auto dest: service_handle_safe split: loop_status.splits)

section \<open>The TCP server as a service\<close>

definition tcp_service :: "('t, 'm, 'h, 'z, 'w) tcp_env
    \<Rightarrow> ('t, ('t, 'q, 'x, 'm, 'h, 'z, 'w) tcp_server) service_handler" where
  "tcp_service x =
     \<lparr>sh_init = tcp_init x, sh_notification = tcp_handle_notification x,
      sh_envelope = tcp_handle_envelope x\<rparr>"

definition tcp_register :: "('x \<Rightarrow> io_error + 'x) \<Rightarrow> pid \<Rightarrow> 'x
    \<Rightarrow> ('t, 'q, 'x, 'm, 'h, 'z, 'w, unit) tact" where
  "tcp_register clone p tx = (\<lambda>s. case node_register_service clone p tx (t_node s) of
     (r, n) \<Rightarrow> (r, s\<lparr>t_node := n\<rparr>))"

end
