(* ===== verification/TcpInv.thy ===== *)
theory TcpInv
  imports Service
begin

text \<open>
  The invariant of the TCP server handler, and that each of its calls keeps it without a panic.
  The user's connection handler keeps a contract; the hypotheses on the outside are those of the
  cluster server, fresh registration ids, and that a socket holds finitely many messages.
\<close>

section \<open>Hypotheses\<close>

text \<open>
  \<open>kc_env\<close> and \<open>kc_net\<close> are the envelopes and the client messages a connection handler is ready
  for, \<open>kc_cid\<close> the correlation ids of its requests and \<open>kc_h\<close> its states.
\<close>

record ('t, 'm, 'h) conn_contract =
  kc_env :: "'t envelope \<Rightarrow> bool"
  kc_net :: "'m \<Rightarrow> bool"
  kc_cid :: "correlation_id \<Rightarrow> bool"
  kc_h :: "'h \<Rightarrow> bool"

fun kc_out :: "('t, 'm, 'h) conn_contract \<Rightarrow> ('t, 'm) connection_msg \<Rightarrow> bool" where
  "kc_out K (ConnEnvelope env) = (\<forall>cid. env_cid env = Some cid \<longrightarrow> kc_cid K cid)"
| "kc_out K (ConnClient m cid) = True"

text \<open>A call of a handler that starts with an empty output vector.\<close>

definition good_call ::
    "('t, 'm, 'h) conn_contract
      \<Rightarrow> (('t, 'm) connection_msg list \<Rightarrow> 'h \<Rightarrow> (('t, 'm) connection_msg list \<times> 'h) option) \<Rightarrow> bool" where
  "good_call K f \<longleftrightarrow>
     (\<forall>h. kc_h K h \<longrightarrow> (\<exists>out h'. f [] h = Some (out, h') \<and> kc_h K h' \<and> list_all (kc_out K) out))"

definition timeout_envelope :: "pid \<Rightarrow> correlation_id \<Rightarrow> 't envelope" where
  "timeout_envelope p cid = \<lparr>env_to = p, env_from = p, env_msg = Timeout, env_cid = Some cid\<rparr>"

definition handlers_ok :: "('t, 'm, 'h, 'z, 'w) tcp_env \<Rightarrow> ('t, 'm, 'h) conn_contract \<Rightarrow> pid \<Rightarrow> bool" where
  "handlers_ok x K p \<longleftrightarrow>
     (\<forall>i. kc_h K (ch_new (t_handler x) p i)) \<and>
     (\<forall>env. kc_env K env \<longrightarrow> good_call K (ch_envelope (t_handler x) env)) \<and>
     (\<forall>m. kc_net K m \<longrightarrow> good_call K (ch_network (t_handler x) m)) \<and>
     (\<forall>cid. kc_cid K cid \<longrightarrow> connection cid \<noteq> None \<and> kc_env K (timeout_envelope p cid))"

definition outside_ok ::
    "('t, 'm, 'h, 'z, 'w) tcp_env \<Rightarrow> ('w \<Rightarrow> usize set) \<Rightarrow> ('t, 'm, 'h) conn_contract \<Rightarrow> bool" where
  "outside_ok x used K \<longleftrightarrow>
     (\<forall>sk ev w i w'. t_register x sk ev w = (Inr i, w') \<longrightarrow>
        i \<notin> used w \<and> i \<in> used w' \<and> used w \<subseteq> used w') \<and>
     (\<forall>sk ev w e w'. t_register x sk ev w = (Inl e, w') \<longrightarrow> used w \<subseteq> used w') \<and>
     (\<forall>sk w r w'. t_set_nonblocking x sk w = (r, w') \<longrightarrow> used w \<subseteq> used w') \<and>
     (\<forall>sk w r w'. t_deregister x sk w = (r, w') \<longrightarrow> used w \<subseteq> used w') \<and>
     (\<forall>ev w r w'. t_register_listener x ev w = (r, w') \<longrightarrow> used w \<subseteq> used w') \<and>
     (\<forall>ms w r w'. t_set_interval x ms w = (r, w') \<longrightarrow> used w \<subseteq> used w') \<and>
     (\<forall>sk z w r z' w'. ser_read (t_serializer x) sk z w = (r, z', w') \<longrightarrow> used w \<subseteq> used w'
        \<and> (\<forall>m. r = Inr (Some m) \<longrightarrow> kc_net K m \<and> t_available x sk z' w' < t_available x sk z w)) \<and>
     (\<forall>sk m z w r z' w'. ser_write (t_serializer x) sk m z w = (r, z', w') \<longrightarrow> used w \<subseteq> used w'
        \<and> t_available x sk z' w' \<le> t_available x sk z w)"

section \<open>The invariant\<close>

definition timeouts_ok :: "('w \<Rightarrow> usize set) \<Rightarrow> ('t, 'q, 'x, 'm, 'h, 'z, 'w) tcp_server \<Rightarrow> bool" where
  "timeouts_ok used s \<longleftrightarrow>
     (case connection_timer_wheel s of
        None \<Rightarrow> connection_timer_id s = None \<and> connection_timeout s = None
      | Some tw \<Rightarrow> (\<exists>own. wheel.owns tw own \<and> dom own \<subseteq> used (t_world s)
          \<and> (\<forall>i c. hm_get (t_connections s) i = Some c \<longrightarrow> own i = Some (timer_wheel_slot c))))"

definition conns_ok :: "('w \<Rightarrow> usize set) \<Rightarrow> ('t, 'm, 'h) conn_contract
    \<Rightarrow> ('t, 'q, 'x, 'm, 'h, 'z, 'w) tcp_server \<Rightarrow> bool" where
  "conns_ok used K s \<longleftrightarrow> hm_ok (t_connections s) \<and>
     (\<forall>i c. hm_get (t_connections s) i = Some c \<longrightarrow> tc_id c = i \<and> kc_h K (tc_handler c)
        \<and> i \<in> used (t_world s))"

text \<open>While a socket is read, at most so many messages are left on it.\<close>

definition within :: "('t, 'm, 'h, 'z, 'w) tcp_env \<Rightarrow> (usize \<times> nat) option
    \<Rightarrow> ('t, 'q, 'x, 'm, 'h, 'z, 'w) tcp_server \<Rightarrow> bool" where
  "within x lim s \<longleftrightarrow> (case lim of None \<Rightarrow> True | Some (i, n) \<Rightarrow>
     (\<forall>c. hm_get (t_connections s) i = Some c \<longrightarrow>
        t_available x (tc_sock c) (tc_serializer c) (t_world s) \<le> n))"

definition tcp_inv ::
    "('t, 'm, 'h, 'z, 'w) tcp_env \<Rightarrow> ('w \<Rightarrow> usize set) \<Rightarrow> ('t, 'm, 'h) conn_contract
      \<Rightarrow> (usize \<times> nat) option \<Rightarrow> ('t, 'q, 'x, 'm, 'h, 'z, 'w) tcp_server \<Rightarrow> bool" where
  "tcp_inv x used K lim s \<longleftrightarrow>
     outside_ok x used K \<and> handlers_ok x K (t_pid s) \<and> rx_alive (nd_executor_tx (t_node s))
     \<and> t_output s = [] \<and> conns_ok used K s \<and> timeouts_ok used s
     \<and> tw_wf (request_timer_wheel s) \<and> (\<forall>j. \<forall>cid \<in> slot_keys (request_timer_wheel s) j. kc_cid K cid)
     \<and> within x lim s"

lemma tcp_invD:
  assumes "tcp_inv x used K lim s"
  shows "outside_ok x used K" "handlers_ok x K (t_pid s)" "rx_alive (nd_executor_tx (t_node s))"
    "t_output s = []" "conns_ok used K s" "timeouts_ok used s" "tw_wf (request_timer_wheel s)"
    "cid \<in> slot_keys (request_timer_wheel s) j \<Longrightarrow> kc_cid K cid" "within x lim s"
  using assms by (auto simp: tcp_inv_def)

lemma conns_okD:
  assumes "conns_ok used K s" and "hm_get (t_connections s) i = Some c"
  shows "tc_id c = i" "kc_h K (tc_handler c)" "i \<in> used (t_world s)"
  using assms unfolding conns_ok_def by blast+

lemma tcp_inv_unlimited: "tcp_inv x used K lim s \<Longrightarrow> tcp_inv x used K None s"
  by (simp add: tcp_inv_def within_def)

lemma outside_okD:
  assumes "outside_ok x used K"
  shows "t_register x sk ev w = (Inr i, w') \<Longrightarrow> i \<notin> used w \<and> i \<in> used w' \<and> used w \<subseteq> used w'"
    and "t_register x sk ev w = (Inl e, w') \<Longrightarrow> used w \<subseteq> used w'"
    and "t_set_nonblocking x sk w = (u, w') \<Longrightarrow> used w \<subseteq> used w'"
    and "t_deregister x sk w = (u, w') \<Longrightarrow> used w \<subseteq> used w'"
    and "ser_read (t_serializer x) sk z w = (rd, z', w') \<Longrightarrow> used w \<subseteq> used w'"
    and "ser_read (t_serializer x) sk z w = (Inr (Some m), z', w') \<Longrightarrow>
      kc_net K m \<and> t_available x sk z' w' < t_available x sk z w"
    and "ser_write (t_serializer x) sk v z w = (wr, z', w') \<Longrightarrow>
      used w \<subseteq> used w' \<and> t_available x sk z' w' \<le> t_available x sk z w"
    and "t_register_listener x ev w = (l, w') \<Longrightarrow> used w \<subseteq> used w'"
    and "t_set_interval x ms w = (l, w') \<Longrightarrow> used w \<subseteq> used w'"
  using assms by (simp_all add: outside_ok_def)

lemma timeouts_okI:
  "connection_timer_wheel s = Some tw \<Longrightarrow> wheel.owns tw own \<Longrightarrow> dom own \<subseteq> used (t_world s) \<Longrightarrow>
   (\<And>i c. hm_get (t_connections s) i = Some c \<Longrightarrow> own i = Some (timer_wheel_slot c)) \<Longrightarrow>
   timeouts_ok used s"
  by (auto simp: timeouts_ok_def)

lemma timeouts_okE:
  assumes "timeouts_ok used s" and "connection_timer_wheel s = Some tw"
  obtains own where "wheel.owns tw own" "dom own \<subseteq> used (t_world s)"
    "\<And>i c. hm_get (t_connections s) i = Some c \<Longrightarrow> own i = Some (timer_wheel_slot c)"
  using assms by (auto simp: timeouts_ok_def)

section \<open>Frames\<close>

lemma timeouts_ok_world:
  "timeouts_ok used s \<Longrightarrow> used (t_world s) \<subseteq> used w \<Longrightarrow> timeouts_ok used (s\<lparr>t_world := w\<rparr>)"
  by (auto simp: timeouts_ok_def split: option.splits)

lemma tcp_inv_world:
  assumes "tcp_inv x used K None s" and "used (t_world s) \<subseteq> used w"
  shows "tcp_inv x used K None (s\<lparr>t_world := w\<rparr>)"
proof -
  have "conns_ok used K (s\<lparr>t_world := w\<rparr>)"
    using tcp_invD(5) [OF assms(1)] assms(2) by (auto simp: conns_ok_def)
  then show ?thesis
    using assms timeouts_ok_world [OF tcp_invD(6) [OF assms(1)] assms(2)]
    by (simp add: tcp_inv_def within_def)
qed

text \<open>A connection may change its handler and its serializer, and read or write its socket.\<close>

lemma tcp_inv_conn:
  assumes inv: "tcp_inv x used K lim s" and c: "hm_get (t_connections s) i = Some c"
    and c': "tc_id c' = tc_id c" "timer_wheel_slot c' = timer_wheel_slot c" "tc_sock c' = tc_sock c"
      "kc_h K (tc_handler c')"
    and w: "used (t_world s) \<subseteq> used w"
    and lim: "lim' = None \<or> (\<exists>n. lim' = Some (i, n)
      \<and> t_available x (tc_sock c) (tc_serializer c') w \<le> n)"
  shows "tcp_inv x used K lim' (set_conn i c' s\<lparr>t_world := w\<rparr>)" (is "tcp_inv _ _ _ _ ?s")
proof -
  note D = tcp_invD [OF inv]
  have "conns_ok used K ?s"
    using D(5) c c' w unfolding conns_ok_def set_conn_def by (auto dest: conns_okD(1) [OF D(5)])
  moreover have "timeouts_ok used ?s"
  proof (cases "connection_timer_wheel s")
    case None
    with D(6) show ?thesis by (simp add: timeouts_ok_def set_conn_def)
  next
    case (Some tw)
    obtain own where own: "wheel.owns tw own" "dom own \<subseteq> used (t_world s)"
      "\<And>i c. hm_get (t_connections s) i = Some c \<Longrightarrow> own i = Some (timer_wheel_slot c)"
      by (rule timeouts_okE [OF D(6) Some]) (rule that)
    show ?thesis
      by (rule timeouts_okI [OF _ own(1)])
         (use own(2,3) c c'(2) w Some in \<open>auto simp: set_conn_def split: if_splits\<close>)
  qed
  moreover have "within x lim' ?s"
    using lim c'(3) by (auto simp: within_def set_conn_def)
  ultimately show ?thesis
    using D by (simp add: tcp_inv_def set_conn_def)
qed

section \<open>Calls to the outside\<close>

lemma t_sys_safe:
  assumes "\<And>w r w'. f w = (r, w') \<Longrightarrow> used w \<subseteq> used w'"
  shows "safe (tcp_inv x used K None) (t_sys f)"
  by (rule safeI) (auto simp: t_sys_def intro!: tcp_inv_world dest: assms split: prod.splits)

lemma t_try_safe:
  assumes "\<And>w r w'. f w = (r, w') \<Longrightarrow> used w \<subseteq> used w'"
  shows "safe (tcp_inv x used K None) (t_try f txt)"
  unfolding t_try_def
  by (auto intro!: safe_bind t_sys_safe safe_ret safe_fail assms split: sum.splits)

lemma safe_outside:
  "(outside_ok x used K \<Longrightarrow> safe (tcp_inv x used K lim) m) \<Longrightarrow> safe (tcp_inv x used K lim) m"
  by (auto simp: safe_def triple_def dest: tcp_invD(1))

lemma request_insert_safe:
  assumes "kc_cid K cid"
  shows "safe (tcp_inv x used K lim) (request_insert cid)"
proof (rule safeI)
  fix s assume inv: "tcp_inv x used K lim s"
  note D = tcp_invD [OF inv]
  obtain slot tw where ins: "tw_insert cid (request_timer_wheel s) = Some (slot, tw)"
    using tw_insert_total [OF D(7)] by blast
  note iw = tw_insert_wf [OF D(7) ins]
  have "\<forall>j. \<forall>d \<in> slot_keys tw j. kc_cid K d"
    using D(8) assms iw(7) by auto
  then have "tcp_inv x used K lim (s\<lparr>request_timer_wheel := tw\<rparr>)"
    using inv iw(1)
    by (simp add: tcp_inv_def conns_ok_def timeouts_ok_def within_def cong: option.case_cong)
  with ins show "tcp_inv x used K lim (snd (request_insert cid s))
      \<and> \<not> is_panic (fst (request_insert cid s))"
    by (simp add: request_insert_def)
qed

lemma t_node_send_safe: "safe (tcp_inv x used K lim) (t_node_send env)"
proof (rule safeI)
  fix s assume inv: "tcp_inv x used K lim s"
  note D = tcp_invD [OF inv]
  let ?n = "(t_node s)\<lparr>nd_executor_tx := (nd_executor_tx (t_node s))
    \<lparr>sent := sent (nd_executor_tx (t_node s)) @ [ExecEnvelope env]\<rparr>\<rparr>"
  have "tcp_inv x used K lim (s\<lparr>t_node := ?n\<rparr>)"
    using inv by (simp add: tcp_inv_def conns_ok_def timeouts_ok_def within_def cong: option.case_cong)
  with D(3) show "tcp_inv x used K lim (snd (t_node_send env s)) \<and> \<not> is_panic (fst (t_node_send env s))"
    by (simp add: t_node_send_def node_send_def send_executor_result)
qed

lemma conn_send_safe:
  assumes "lim = None \<or> (\<exists>n. lim = Some (i, n))"
  shows "safe (tcp_inv x used K lim) (conn_send x i m k)"
proof (rule safeI)
  fix s assume inv: "tcp_inv x used K lim s"
  show "tcp_inv x used K lim (snd (conn_send x i m k s)) \<and> \<not> is_panic (fst (conn_send x i m k s))"
  proof (cases "hm_get (t_connections s) i")
    case None
    with inv show ?thesis by (simp add: conn_send_def)
  next
    case (Some c)
    obtain r z w where wr: "ser_write (t_serializer x) (tc_sock c) m (tc_serializer c) (t_world s)
        = (r, z, w)"
      by (metis prod_cases3)
    note D = tcp_invD [OF inv]
    note o = outside_okD(7) [OF D(1) wr]
    have "lim = None \<or> (\<exists>n. lim = Some (i, n) \<and> t_available x (tc_sock c) z w \<le> n)"
      using assms D(9) Some o by (auto simp: within_def)
    then have "tcp_inv x used K lim (set_conn i (c\<lparr>tc_serializer := z\<rparr>) s\<lparr>t_world := w\<rparr>)"
      using conns_okD(2) [OF D(5) Some] o by (intro tcp_inv_conn [OF inv Some]) simp_all
    with Some wr show ?thesis by (auto simp: conn_send_def split: sum.splits)
  qed
qed

section \<open>Handlers and replies\<close>

lemma connection_msg_safe:
  assumes "lim = None \<or> (\<exists>n. lim = Some (i, n))" and "kc_out K m"
  shows "safe (tcp_inv x used K lim) (connection_msg x i m)"
  using assms unfolding connection_msg_def
  by (cases m)
     (auto intro!: safe_seq safe_ret request_insert_safe t_node_send_safe conn_send_safe
        split: option.splits)

lemma call_and_reply_safe:
  assumes lim: "lim = None \<or> (\<exists>n. lim = Some (i, n))" and good: "good_call K f"
  shows "safe (tcp_inv x used K lim) (seqM (call_handler f i) (handle_connection_msgs x i))"
proof (rule safeI)
  fix s assume inv: "tcp_inv x used K lim s"
  note D = tcp_invD [OF inv]
  let ?m = "seqM (call_handler f i) (handle_connection_msgs x i)"
  show "tcp_inv x used K lim (snd (?m s)) \<and> \<not> is_panic (fst (?m s))"
  proof (cases "hm_get (t_connections s) i")
    case None
    have same: "s\<lparr>t_output := []\<rparr> = s" using D(4) by simp
    have "?m s = (Ok (), s\<lparr>t_output := []\<rparr>)"
      using None D(4) by (simp add: call_handler_def handle_connection_msgs_def act_defs)
    then have "?m s = (Ok (), s)" by (simp only: same)
    with inv show ?thesis by simp
  next
    case (Some c)
    obtain out h where f: "f [] (tc_handler c) = Some (out, h)" "kc_h K h" "list_all (kc_out K) out"
      using good conns_okD(2) [OF D(5) Some] unfolding good_call_def by blast
    let ?s = "set_conn i (c\<lparr>tc_handler := h\<rparr>) s"
    have "lim = None \<or> (\<exists>n. lim = Some (i, n)
        \<and> t_available x (tc_sock c) (tc_serializer c) (t_world s) \<le> n)"
      using lim D(9) Some by (auto simp: within_def)
    then have "tcp_inv x used K lim (?s\<lparr>t_world := t_world s\<rparr>)"
      using f(2) by (intro tcp_inv_conn [OF inv Some]) simp_all
    moreover have "?s\<lparr>t_world := t_world s\<rparr> = ?s" by (simp add: set_conn_def)
    ultimately have inv': "tcp_inv x used K lim ?s" by simp
    have msgs: "kc_out K m" if "m \<in> set out" for m
      using f(3) that by (simp add: list_all_iff)
    have calls: "tcp_inv x used K lim (snd (forM out (connection_msg x i) ?s))
        \<and> \<not> is_panic (fst (forM out (connection_msg x i) ?s))"
      by (rule safe_at [where P = "tcp_inv x used K lim"])
         (use inv' in \<open>auto intro!: safe_for connection_msg_safe [OF lim] msgs\<close>)
    have same: "?s\<lparr>t_output := []\<rparr> = ?s" using D(4) by (simp add: set_conn_def)
    have "?m s = forM out (connection_msg x i) (?s\<lparr>t_output := []\<rparr>)"
      using f(1) Some D(4) by (simp add: call_handler_def handle_connection_msgs_def act_defs set_conn_def)
    then have "?m s = forM out (connection_msg x i) ?s" by (simp only: same)
    with calls show ?thesis by simp
  qed
qed

section \<open>Reading a socket\<close>

lemma read_loop_safe:
  "tcp_inv x used K (Some (i, n)) s \<Longrightarrow> read_loop x i (Suc n) s = (r, s') \<Longrightarrow>
   tcp_inv x used K None s' \<and> \<not> is_panic r"
proof (induction n arbitrary: s)
  case 0
  show ?case
  proof (cases "hm_get (t_connections s) i")
    case None
    with 0 show ?thesis by (auto simp: conn_read_def act_defs dest: tcp_inv_unlimited)
  next
    case (Some c)
    note D = tcp_invD [OF 0(1)]
    obtain rd z w where read: "ser_read (t_serializer x) (tc_sock c) (tc_serializer c) (t_world s)
        = (rd, z, w)"
      by (metis prod_cases3)
    have "rd \<noteq> Inr (Some m)" for m
      using outside_okD(6) [OF D(1), of _ _ _ m] read D(9) Some by (fastforce simp: within_def)
    moreover have "tcp_inv x used K None (set_conn i (c\<lparr>tc_serializer := z\<rparr>) s\<lparr>t_world := w\<rparr>)"
      using conns_okD(2) [OF D(5) Some] outside_okD(5) [OF D(1) read]
      by (intro tcp_inv_conn [OF 0(1) Some]) simp_all
    ultimately show ?thesis
      using 0(2) Some read by (auto simp: conn_read_def act_defs split: sum.splits option.splits)
  qed
next
  case (Suc n)
  show ?case
  proof (cases "hm_get (t_connections s) i")
    case None
    with Suc.prems show ?thesis by (auto simp: conn_read_def act_defs dest: tcp_inv_unlimited)
  next
    case (Some c)
    note D = tcp_invD [OF Suc.prems(1)]
    obtain rd z w where read: "ser_read (t_serializer x) (tc_sock c) (tc_serializer c) (t_world s)
        = (rd, z, w)"
      by (metis prod_cases3)
    let ?s = "set_conn i (c\<lparr>tc_serializer := z\<rparr>) s\<lparr>t_world := w\<rparr>"
    have inv: "tcp_inv x used K lim ?s"
      if "lim = None \<or> (\<exists>n. lim = Some (i, n) \<and> t_available x (tc_sock c) z w \<le> n)" for lim
      using conns_okD(2) [OF D(5) Some] outside_okD(5) [OF D(1) read] that
      by (intro tcp_inv_conn [OF Suc.prems(1) Some]) simp_all
    consider e where "rd = Inl e" | "rd = Inr None" | m where "rd = Inr (Some m)"
      by (cases rd) auto
    then show ?thesis
    proof cases
      case (3 m)
      have dec: "kc_net K m" "t_available x (tc_sock c) z w < Suc n"
        using outside_okD(6) [OF D(1) read [unfolded 3]] D(9) Some by (auto simp: within_def)
      then have "tcp_inv x used K (Some (i, n)) ?s" by (intro inv) auto
      moreover have "good_call K (ch_network (t_handler x) m)"
        using D(2) dec(1) by (simp add: handlers_ok_def)
      moreover obtain r1 s1 where call: "seqM (call_handler (ch_network (t_handler x) m) i)
          (handle_connection_msgs x i) ?s = (r1, s1)"
        by fastforce
      ultimately have s1: "tcp_inv x used K (Some (i, n)) s1 \<and> \<not> is_panic r1"
        using safeD [OF call_and_reply_safe [of "Some (i, n)" i K]] by blast
      have "read_loop x i (Suc (Suc n)) s
          = bindM (seqM (call_handler (ch_network (t_handler x) m) i) (handle_connection_msgs x i))
              (\<lambda>_. read_loop x i (Suc n)) ?s"
        using Some read 3
        by (simp add: conn_read_def seqM_def bindM_def split: prod.splits result.splits)
      then show ?thesis
        using Suc.prems(2) call s1 Suc.IH [of s1]
        by (cases r1) (auto simp: bindM_def dest: tcp_inv_unlimited)
    qed (use Suc.prems(2) Some read inv [of None] in \<open>auto simp: conn_read_def act_defs\<close>)
  qed
qed

lemma handle_readable_safe: "safe (tcp_inv x used K None) (handle_readable x i)"
proof (rule safeI)
  fix s assume inv: "tcp_inv x used K None s"
  show "tcp_inv x used K None (snd (handle_readable x i s)) \<and> \<not> is_panic (fst (handle_readable x i s))"
  proof (cases "hm_get (t_connections s) i")
    case None
    with inv show ?thesis by (simp add: handle_readable_def act_defs)
  next
    case (Some c)
    let ?n = "t_available x (tc_sock c) (tc_serializer c) (t_world s)"
    have "tcp_inv x used K (Some (i, ?n)) s"
      using inv Some by (simp add: tcp_inv_def within_def)
    from read_loop_safe [OF this prod.collapse [symmetric]] Some show ?thesis
      by (simp add: handle_readable_def withM_def)
  qed
qed

end
