(* ===== verification/TcpSafe.thy ===== *)
theory TcpSafe
  imports TcpInv
begin

text \<open>
  Every operation of the TCP server handler keeps its invariant and does not panic, and the
  handler fulfils the contract of a service handler.
\<close>

section \<open>Sequencing at one state\<close>

lemma seq_at:
  assumes "P (snd (m s)) \<and> \<not> is_panic (fst (m s))" and "safe P k"
  shows "P (snd (seqM m k s)) \<and> \<not> is_panic (fst (seqM m k s))"
  using assms unfolding safe_def triple_def seqM_def bindM_def
  by (auto split: prod.splits result.splits)

lemma safe_withI:
  "(\<And>s. P s \<Longrightarrow> P (snd (f s s)) \<and> \<not> is_panic (fst (f s s))) \<Longrightarrow> safe P (withM f)"
  by (simp add: safe_def triple_def withM_def)

section \<open>Timeouts\<close>

text \<open>A connection's timeout moves to the slot that expires last.\<close>

lemma update_connection_timeout_effect:
  assumes inv: "tcp_inv x used K None s" and tw: "connection_timer_wheel s = Some tw"
    and c: "hm_get (t_connections s) i = Some c"
  obtains slot tw' where "update_connection_timeout i s
      = (Ok (), set_conn i (c\<lparr>timer_wheel_slot := slot\<rparr>) (s\<lparr>connection_timer_wheel := Some tw'\<rparr>))"
    and "tcp_inv x used K None
      (set_conn i (c\<lparr>timer_wheel_slot := slot\<rparr>) (s\<lparr>connection_timer_wheel := Some tw'\<rparr>))"
    and "slot = current_write tw" and "i \<in> due tw' (tw_size tw' - 1)"
proof -
  note D = tcp_invD [OF inv]
  obtain own where own: "wheel.owns tw own" "dom own \<subseteq> used (t_world s)"
    "\<And>i c. hm_get (t_connections s) i = Some c \<Longrightarrow> own i = Some (timer_wheel_slot c)"
    by (rule timeouts_okE [OF D(6) tw]) (rule that)
  note C = conns_okD [OF D(5) c]
  obtain w1 slot w2 where w: "tw_remove i (timer_wheel_slot c) tw = Some w1"
    "tw_insert i w1 = Some (slot, w2)" "wheel.owns w2 (own(i \<mapsto> slot))"
    using wheel.rearm [OF own(1) own(3) [OF c]] by blast
  note w1 = tw_remove_wf [OF wheel.owns_good [OF own(1)] w(1)]
  note w2 = tw_insert_wf [OF w1(1) w(2)]
  have "0 < tw_size w1" using w1(1) by (simp add: tw_wf_def)
  then have "i \<in> due w2 (tw_size w2 - 1)"
    using due_insert [OF w1(1) w(2), of "tw_size w1 - 1"] w2(3) by simp
  moreover have "slot = current_write tw"
    using w2(4) w(1) by (auto simp: tw_remove_def split: if_splits)
  moreover let ?s = "set_conn i (c\<lparr>timer_wheel_slot := slot\<rparr>) (s\<lparr>connection_timer_wheel := Some w2\<rparr>)"
  have "update_connection_timeout i s = (Ok (), ?s)"
    using tw c w C(1)
    by (simp add: update_connection_timeout_def conn_wheel_remove_def conn_wheel_insert_def act_defs)
  moreover have "timeouts_ok used ?s"
    by (rule timeouts_okI [OF _ w(3)])
       (use own C(3) c in \<open>auto simp: set_conn_def split: if_splits\<close>)
  moreover have "conns_ok used K ?s"
    using D(5) C by (auto simp: conns_ok_def set_conn_def)
  ultimately show ?thesis
    using that D by (simp add: tcp_inv_def set_conn_def within_def)
qed

lemma update_connection_timeout_safe:
  "safe (tcp_inv x used K None) (update_connection_timeout i)"
proof (rule safeI, goal_cases)
  case inv: (1 s)
  show ?case
  proof (cases "connection_timer_wheel s = None \<or> hm_get (t_connections s) i = None")
    case True
    with inv show ?thesis
      by (auto simp: update_connection_timeout_def act_defs split: option.splits)
  next
    case False
    then show ?thesis by (auto elim!: update_connection_timeout_effect [OF inv])
  qed
qed

section \<open>Accepting\<close>

lemma new_connection_safe: "safe (tcp_inv x used K None) (new_connection x sk)"
proof (rule safeI)
  fix s assume inv: "tcp_inv x used K None s"
  note D = tcp_invD [OF inv]
  let ?m = "new_connection x sk"
  obtain r1 w1 where o1: "t_set_nonblocking x sk (t_world s) = (r1, w1)" by fastforce
  obtain r2 w2 where o2: "t_register x sk Read w1 = (r2, w2)" by fastforce
  have u1: "used (t_world s) \<subseteq> used w1" by (rule outside_okD(3) [OF D(1) o1])
  have u2: "used w1 \<subseteq> used w2"
    using o2 outside_okD(1,2) [OF D(1), of sk Read w1] by (cases r2) blast+
  have inv1: "tcp_inv x used K None (s\<lparr>t_world := w1\<rparr>)" by (rule tcp_inv_world [OF inv u1])
  have inv2: "tcp_inv x used K None (s\<lparr>t_world := w2\<rparr>)"
    using tcp_inv_world [OF inv, of w2] u1 u2 by blast
  show "tcp_inv x used K None (snd (?m s)) \<and> \<not> is_panic (fst (?m s))"
  proof (cases "\<exists>u i. r1 = Inr u \<and> r2 = Inr i")
    case False
    then have "(\<exists>e. r1 = Inl e) \<or> (\<exists>u e. r1 = Inr u \<and> r2 = Inl e)" by (cases r1; cases r2) auto
    then have "\<exists>e. ?m s = (Err e, s\<lparr>t_world := w1\<rparr>) \<or> ?m s = (Err e, s\<lparr>t_world := w2\<rparr>)"
      using o1 o2 by (elim disjE exE) (auto simp: new_connection_def t_try_def t_sys_def act_defs)
    with inv1 inv2 show ?thesis by auto
  next
    case True
    then obtain u i where r: "r1 = Inr u" "r2 = Inr i" by blast
    have i: "i \<notin> used w1" "i \<in> used w2"
      using outside_okD(1) [OF D(1) o2 [unfolded r]] by auto
    have h: "kc_h K (ch_new (t_handler x) (t_pid s) i)" using D(2) by (simp add: handlers_ok_def)
    let ?c = "\<lambda>slot. tcp_conn_new x i (ch_new (t_handler x) (t_pid s) i) sk slot"
    have conns: "conns_ok used K (set_conn i (?c slot) s\<lparr>t_world := w2\<rparr>)" for slot
      using D(5) i h u1 u2 by (auto simp: conns_ok_def set_conn_def tcp_conn_new_def)
    show ?thesis
    proof (cases "connection_timer_wheel s")
      case None
      have "timeouts_ok used (set_conn i (?c 0) s\<lparr>t_world := w2\<rparr>)"
        using D(6) None by (simp add: timeouts_ok_def set_conn_def)
      then have "tcp_inv x used K None (set_conn i (?c 0) s\<lparr>t_world := w2\<rparr>)"
        using conns [of 0] D by (simp add: tcp_inv_def within_def set_conn_def)
      moreover have "?m s = (Ok (), set_conn i (?c 0) s\<lparr>t_world := w2\<rparr>)"
        using None o1 o2 r
        by (simp add: new_connection_def t_try_def t_sys_def act_defs conn_wheel_insert_def set_conn_def)
      ultimately show ?thesis by simp
    next
      case (Some tw)
      obtain own where own: "wheel.owns tw own" "dom own \<subseteq> used (t_world s)"
        "\<And>i c. hm_get (t_connections s) i = Some c \<Longrightarrow> own i = Some (timer_wheel_slot c)"
        by (rule timeouts_okE [OF D(6) Some]) (rule that)
      obtain slot tw' where ins: "tw_insert i tw = Some (slot, tw')"
        using tw_insert_total [OF wheel.owns_good [OF own(1)], of i] by blast
      have "own i = None" using own(2) u1 i(1) by auto
      from wheel.arm [OF own(1) this ins] have arm: "wheel.owns tw' (own(i \<mapsto> slot))" .
      let ?s = "set_conn i (?c slot) (s\<lparr>t_world := w2, connection_timer_wheel := Some tw'\<rparr>)"
      have "?m s = (Ok (), ?s)"
        using Some ins o1 o2 r
        by (simp add: new_connection_def t_try_def t_sys_def act_defs conn_wheel_insert_def)
      moreover have "timeouts_ok used ?s"
        by (rule timeouts_okI [OF _ arm])
           (use own u1 u2 i in \<open>auto simp: set_conn_def tcp_conn_new_def split: if_splits\<close>)
      moreover have "conns_ok used K ?s"
        using conns [of slot] by (simp add: set_conn_def conns_ok_def)
      ultimately show ?thesis
        using D by (simp add: tcp_inv_def within_def set_conn_def)
    qed
  qed
qed

lemma tcp_inv_listener [simp]:
  "tcp_inv x used K lim (s\<lparr>t_listener := l\<rparr>) = tcp_inv x used K lim s"
  by (simp add: tcp_inv_def conns_ok_def timeouts_ok_def within_def cong: option.case_cong)

lemma accept_conns_safe: "safe (tcp_inv x used K None) (accept_conns x l)"
  by (induction l rule: accept_conns.induct)
     (auto intro!: safe_ret safe_fail safe_seq safe_mod new_connection_safe)

section \<open>Sockets\<close>

text \<open>A notification in two halves: a writable socket is flushed, a readable one is read.\<close>

definition flush :: "('t, 'm, 'h, 'z, 'w) tcp_env \<Rightarrow> notification \<Rightarrow> ('h, 'z) tcp_conn
    \<Rightarrow> ('t, 'q, 'x, 'm, 'h, 'z, 'w, unit) tact" where
  "flush x n c =
     (if n_event n \<noteq> Read then
        seqM (modM (set_conn (n_id n)
            (c\<lparr>tc_serializer := ser_set_writable (t_serializer x) (tc_serializer c)\<rparr>)))
          (conn_send x (n_id n) None (\<lambda>e. e))
      else ret ())"

lemma notification_halves:
  "hm_get (t_connections s) (n_id n) = Some c \<Longrightarrow> handle_connection_notification x n s
   = seqM (flush x n c)
      (if n_event n \<noteq> Write then
         seqM (handle_readable x (n_id n)) (update_connection_timeout (n_id n))
       else ret ()) s"
  by (simp add: handle_connection_notification_def flush_def withM_def)

lemma flush_safe_at:
  assumes inv: "tcp_inv x used K None s" and c: "hm_get (t_connections s) (n_id n) = Some c"
  shows "tcp_inv x used K None (snd (flush x n c s)) \<and> \<not> is_panic (fst (flush x n c s))"
proof -
  note D = tcp_invD [OF inv]
  let ?s = "set_conn (n_id n)
    (c\<lparr>tc_serializer := ser_set_writable (t_serializer x) (tc_serializer c)\<rparr>) s"
  have "tcp_inv x used K None (?s\<lparr>t_world := t_world s\<rparr>)"
    using conns_okD(2) [OF D(5) c] by (intro tcp_inv_conn [OF inv c]) simp_all
  moreover have "?s\<lparr>t_world := t_world s\<rparr> = ?s" by (simp add: set_conn_def)
  ultimately have s: "tcp_inv x used K None ?s" by simp
  show ?thesis
  proof (cases "n_event n \<noteq> Read")
    case True
    show ?thesis
      unfolding flush_def if_P [OF True]
      by (rule seq_at) (use s in \<open>auto simp: modM_def intro: conn_send_safe\<close>)
  qed (use inv in \<open>simp add: flush_def ret_def\<close>)
qed

lemma handle_connection_notification_safe:
  "safe (tcp_inv x used K None) (handle_connection_notification x n)"
proof (rule safeI, goal_cases)
  case inv: (1 s)
  show ?case
  proof (cases "hm_get (t_connections s) (n_id n)")
    case None
    with inv show ?thesis by (simp add: handle_connection_notification_def act_defs)
  next
    case (Some c)
    show ?thesis
      unfolding notification_halves [OF Some]
      by (rule seq_at [where P = "tcp_inv x used K None" and m = "flush x n c" and s = s,
            OF flush_safe_at [OF inv Some]])
         (auto intro!: safe_ret safe_seq handle_readable_safe update_connection_timeout_safe)
  qed
qed

lemma tcp_inv_removed:
  "tcp_inv x used K None s \<Longrightarrow>
   tcp_inv x used K None (s\<lparr>t_connections := hm_remove i (t_connections s)\<rparr>)"
  by (auto simp: tcp_inv_def conns_ok_def timeouts_ok_def within_def split: option.splits)

lemma drop_connection_safe: "safe (tcp_inv x used K None) (drop_connection x i c)"
  by (rule safe_outside)
     (auto simp: drop_connection_def intro!: safe_seq safe_bind safe_ret safe_mod t_sys_safe
        tcp_inv_removed dest: outside_okD(4))

section \<open>Ticks\<close>

definition without :: "usize list \<Rightarrow> ('t, 'q, 'x, 'm, 'h, 'z, 'w) tcp_server
    \<Rightarrow> ('t, 'q, 'x, 'm, 'h, 'z, 'w) tcp_server" where
  "without ids s = s\<lparr>t_connections := filter (\<lambda>e. fst e \<notin> set ids) (t_connections s)\<rparr>"

lemma hm_get_filter: "hm_get (filter (\<lambda>e. fst e \<notin> A) m) k = (if k \<in> A then None else hm_get m k)"
  by (induction m) auto

lemma filter_hm_remove:
  "filter (\<lambda>e. fst e \<notin> set ids) (hm_remove i m) = filter (\<lambda>e. fst e \<notin> set (i # ids)) m"
  by (induction m) (auto simp: hm_remove_def AList.delete_eq)

lemma without_remove:
  "without ids (s\<lparr>t_connections := hm_remove i (t_connections s)\<rparr>) = without (i # ids) s"
  by (simp add: without_def filter_hm_remove)

lemma without_absent:
  "hm_get (t_connections s) i = None \<Longrightarrow> without (i # ids) s = without ids s"
  by (auto simp: without_def map_of_eq_None_iff intro!: filter_cong tcp_server.fold_congs)

lemma drops_effect:
  "outside_ok x used K \<Longrightarrow>
   \<exists>w. forM ids (\<lambda>i. withM (\<lambda>s. case hm_get (t_connections s) i of
       None \<Rightarrow> ret () | Some c \<Rightarrow> drop_connection x i c)) s = (Ok (), without ids s\<lparr>t_world := w\<rparr>)
     \<and> used (t_world s) \<subseteq> used w"
proof (induction ids arbitrary: s)
  case Nil
  show ?case by (rule exI [of _ "t_world s"]) (simp add: without_def ret_def)
next
  case (Cons i ids)
  show ?case
  proof (cases "hm_get (t_connections s) i")
    case None
    with Cons.IH [OF Cons.prems, of s] without_absent [OF None] show ?thesis
      by (auto simp: act_defs)
  next
    case (Some c)
    obtain r w where o: "t_deregister x (tc_sock c) (t_world s) = (r, w)" by fastforce
    let ?s = "s\<lparr>t_connections := hm_remove i (t_connections s), t_world := w\<rparr>"
    have eq: "without ids ?s\<lparr>t_world := w'\<rparr> = without (i # ids) s\<lparr>t_world := w'\<rparr>" for w'
      using without_remove [where s = s and ids = ids and i = i] by (simp add: without_def)
    obtain w' where w': "forM ids (\<lambda>i. withM (\<lambda>s. case hm_get (t_connections s) i of
       None \<Rightarrow> ret () | Some c \<Rightarrow> drop_connection x i c)) ?s = (Ok (), without ids ?s\<lparr>t_world := w'\<rparr>)"
      "used w \<subseteq> used w'"
      using Cons.IH [OF Cons.prems, of ?s] by auto
    have "used (t_world s) \<subseteq> used w" by (rule outside_okD(4) [OF Cons.prems o])
    with w' Some o show ?thesis
      unfolding eq by (intro exI [of _ w']) (auto simp: drop_connection_def t_sys_def act_defs)
  qed
qed

lemma connection_tick_effect:
  assumes inv: "tcp_inv x used K None s" and tw: "connection_timer_wheel s = Some tw"
  obtains ids tw' w where "tw_expire tw = Some (ids, tw')"
    and "connection_tick x s
      = (Ok (), without ids s\<lparr>connection_timer_wheel := Some tw', t_world := w\<rparr>)"
    and "tcp_inv x used K None (without ids s\<lparr>connection_timer_wheel := Some tw', t_world := w\<rparr>)"
    and "\<And>i c. hm_get (t_connections s) i = Some c \<Longrightarrow>
      i \<in> set ids \<longleftrightarrow> timer_wheel_slot c = current_read tw"
proof -
  note D = tcp_invD [OF inv]
  obtain own where own: "wheel.owns tw own" "dom own \<subseteq> used (t_world s)"
    "\<And>i c. hm_get (t_connections s) i = Some c \<Longrightarrow> own i = Some (timer_wheel_slot c)"
    by (rule timeouts_okE [OF D(6) tw]) (rule that)
  obtain ids tw' where ex: "tw_expire tw = Some (ids, tw')"
    using tw_expire_total [OF wheel.owns_good [OF own(1)]] by blast
  note E = wheel.expire_owned [OF own(1) ex]
  let ?s = "s\<lparr>connection_timer_wheel := Some tw'\<rparr>"
  obtain w where w: "forM ids (\<lambda>i. withM (\<lambda>s. case hm_get (t_connections s) i of
       None \<Rightarrow> ret () | Some c \<Rightarrow> drop_connection x i c)) ?s = (Ok (), without ids ?s\<lparr>t_world := w\<rparr>)"
    "used (t_world s) \<subseteq> used w"
    using drops_effect [OF D(1), of ids ?s] by auto
  let ?t = "without ids s\<lparr>connection_timer_wheel := Some tw', t_world := w\<rparr>"
  have t: "without ids ?s\<lparr>t_world := w\<rparr> = ?t" by (simp add: without_def)
  have "connection_tick x s = (Ok (), ?t)"
    using w(1) tw ex unfolding t by (simp add: connection_tick_def conn_wheel_expire_def bindM_def)
  moreover have "dom (\<lambda>i. if i \<in> set ids then None else own i) \<subseteq> dom own"
    by (auto split: if_splits)
  then have "dom (\<lambda>i. if i \<in> set ids then None else own i) \<subseteq> used w"
    using own(2) w(2) by blast
  then have "timeouts_ok used ?t"
    by (intro timeouts_okI [OF _ E(1)])
       (use own(3) in \<open>auto simp: without_def hm_get_filter split: if_splits\<close>)
  moreover have "conns_ok used K ?t"
    using D(5) w(2)
    by (auto simp: conns_ok_def without_def hm_get_filter hm_ok_def distinct_map inj_on_def)
  ultimately have "tcp_inv x used K None ?t" "connection_tick x s = (Ok (), ?t)"
    using D by (simp_all add: tcp_inv_def without_def within_def)
  moreover have "i \<in> set ids \<longleftrightarrow> timer_wheel_slot c = current_read tw"
    if "hm_get (t_connections s) i = Some c" for i c
    using E(2) own(3) [OF that] by auto
  ultimately show ?thesis using that [OF ex] by blast
qed

lemma request_timed_out_safe:
  assumes "kc_cid K cid"
  shows "safe (tcp_inv x used K None) (request_timed_out x cid)"
  unfolding request_timed_out_def
proof (rule safe_with, goal_cases)
  case (1 s)
  have "connection cid \<noteq> None" "good_call K (ch_envelope (t_handler x) (timeout_envelope (t_pid s) cid))"
    using assms tcp_invD(2) [OF 1] by (auto simp: handlers_ok_def)
  then show ?case
    by (auto simp: timeout_envelope_def intro!: safe_ret call_and_reply_safe split: option.splits)
qed

lemma request_tick_safe: "safe (tcp_inv x used K None) (request_tick x)"
proof (rule safeI)
  fix s assume inv: "tcp_inv x used K None s"
  note D = tcp_invD [OF inv]
  obtain cids tw where ex: "tw_expire (request_timer_wheel s) = Some (cids, tw)"
    using tw_expire_total [OF D(7)] by blast
  note E = tw_expire_wf [OF D(7) ex]
  have cids: "kc_cid K cid" if "cid \<in> set cids" for cid
    using that D(8) E by auto
  have "tcp_inv x used K None (s\<lparr>request_timer_wheel := tw\<rparr>)"
    using inv E D(8)
    by (simp add: tcp_inv_def conns_ok_def timeouts_ok_def within_def cong: option.case_cong)
  then have "tcp_inv x used K None (snd (forM cids (request_timed_out x) (s\<lparr>request_timer_wheel := tw\<rparr>)))
      \<and> \<not> is_panic (fst (forM cids (request_timed_out x) (s\<lparr>request_timer_wheel := tw\<rparr>)))"
    by (intro safe_at [where P = "tcp_inv x used K None"])
       (auto intro!: safe_for request_timed_out_safe cids)
  with ex show "tcp_inv x used K None (snd (request_tick x s)) \<and> \<not> is_panic (fst (request_tick x s))"
    by (simp add: request_tick_def request_expire_def bindM_def)
qed

section \<open>What handling a connection leaves alone\<close>

text \<open>
  While a connection is handled, only that connection's entry of the map changes, and of the
  other fields the world, the node, the requests' wheel and the output vector: a predicate that
  does not depend on these is kept. With the connections' wheel it is kept by a whole
  notification.
\<close>

locale conn_local =
  fixes Q :: "('t, 'q, 'x, 'm, 'h, 'z, 'w) tcp_server \<Rightarrow> bool"
    and i :: usize
  assumes keeps_world: "Q s \<Longrightarrow> Q (s\<lparr>t_world := w\<rparr>)"
    and keeps_node: "Q s \<Longrightarrow> Q (s\<lparr>t_node := n\<rparr>)"
    and keeps_requests: "Q s \<Longrightarrow> Q (s\<lparr>request_timer_wheel := tw\<rparr>)"
    and keeps_output: "Q s \<Longrightarrow> Q (s\<lparr>t_output := out\<rparr>)"
    and keeps_conn: "Q s \<Longrightarrow> Q (set_conn i c s)"
begin

lemma leaves:
  "keeps Q (t_node_send env)" "keeps Q (request_insert cid)" "keeps Q (conn_read x i)"
  "keeps Q (conn_send x i m k)" "keeps Q (call_handler g i)" "keeps Q (modM (set_conn i c))"
  by (auto intro!: keepsI keeps_world keeps_node keeps_requests keeps_output keeps_conn
      simp: t_node_send_def request_insert_def conn_read_def conn_send_def call_handler_def modM_def
      split: option.splits prod.splits result.splits)

lemma msgs: "keeps Q (handle_connection_msgs x i)"
  unfolding handle_connection_msgs_def connection_msg_def
  by (intro keeps_rules keeps_mod)
     (auto intro!: keeps_rules leaves keeps_output split: connection_msg.splits option.splits)

lemma reads: "keeps Q (read_loop x i n)"
  by (induction n) (auto split: option.splits intro!: keeps_rules leaves msgs)

lemma readable: "keeps Q (handle_readable x i)"
  unfolding handle_readable_def
  by (auto simp del: read_loop.simps split: option.splits intro!: keeps_rules reads)

lemma envelope:
  "env_cid env = Some cid \<Longrightarrow> connection cid = Some i \<Longrightarrow> keeps Q (tcp_handle_envelope x env)"
  unfolding tcp_handle_envelope_def by (auto split: option.splits intro!: keeps_rules leaves msgs)

end

locale conn_timed = conn_local Q i
  for Q :: "('t, 'q, 'x, 'm, 'h, 'z, 'w) tcp_server \<Rightarrow> bool" and i :: usize +
  assumes keeps_timers: "Q s \<Longrightarrow> Q (s\<lparr>connection_timer_wheel := tw\<rparr>)"
begin

lemma timers: "keeps Q (conn_wheel_insert k)" "keeps Q (conn_wheel_remove k slot)"
  by (auto intro!: keepsI keeps_timers simp: conn_wheel_insert_def conn_wheel_remove_def
      split: option.splits prod.splits)

lemma timeout: "keeps Q (update_connection_timeout i)"
  unfolding update_connection_timeout_def
  by (auto split: option.splits intro!: keeps_rules timers leaves)

lemma notification:
  assumes i: "n_id n = i"
  shows "keeps Q (handle_connection_notification x n)"
  unfolding handle_connection_notification_def i
  by (auto split: option.splits intro!: keeps_rules leaves readable timeout)

end

definition present :: "usize \<Rightarrow> ('t, 'q, 'x, 'm, 'h, 'z, 'w) tcp_server \<Rightarrow> bool" where
  "present i s \<longleftrightarrow> hm_get (t_connections s) i \<noteq> None"

interpretation present: conn_timed "present k" i for k i
  by unfold_locales (simp_all add: present_def set_conn_def)

interpretation wheel_kept: conn_local "\<lambda>s. connection_timer_wheel s = tw" i for tw i
  by unfold_locales (simp_all add: set_conn_def)

interpretation others_kept: conn_timed "\<lambda>s. \<forall>k. k \<noteq> i \<longrightarrow> hm_get (t_connections s) k = conns k" i
  for conns i
  by unfold_locales (simp_all add: set_conn_def)

section \<open>Errors on a connection\<close>

lemma failed_connection_present:
  assumes "handle_connection_notification x n s = (Err e, s')"
  shows "present (n_id n) s'"
proof -
  have "present (n_id n) s"
    using assms
    by (cases "hm_get (t_connections s) (n_id n)")
       (auto simp: present_def handle_connection_notification_def withM_def ret_def)
  then show ?thesis using assms by (rule keepsD [OF present.notification [OF refl]])
qed

section \<open>The service handler\<close>

lemma tcp_handle_notification_safe: "safe (tcp_inv x used K None) (tcp_handle_notification x n)"
  unfolding tcp_handle_notification_def
proof (rule safe_withI, goal_cases)
  case (1 s)
  consider "n_id n = t_listener_id s" | "n_id n \<noteq> t_listener_id s" "n_id n = request_timer_id s"
    | "n_id n \<noteq> t_listener_id s" "n_id n \<noteq> request_timer_id s" "connection_timer_id s = Some (n_id n)"
    | "n_id n \<noteq> t_listener_id s" "n_id n \<noteq> request_timer_id s" "connection_timer_id s \<noteq> Some (n_id n)"
    by blast
  then show ?case
  proof cases
    case 1
    then show ?thesis
      using safe_at [OF accept_conns_safe \<open>tcp_inv x used K None s\<close>]
      by (simp add: accept_connections_def withM_def)
  next
    case 2
    then show ?thesis using safe_at [OF request_tick_safe \<open>tcp_inv x used K None s\<close>] by simp
  next
    case 3
    then obtain tw where tw: "connection_timer_wheel s = Some tw"
      using tcp_invD(6) [OF \<open>tcp_inv x used K None s\<close>] by (auto simp: timeouts_ok_def split: option.splits)
    show ?thesis
      using 3 by (auto intro: connection_tick_effect [OF \<open>tcp_inv x used K None s\<close> tw])
  next
    case 4
    obtain r s1 where h: "handle_connection_notification x n s = (r, s1)" by fastforce
    have s1: "tcp_inv x used K None s1" "\<not> is_panic r"
      using safeD [OF handle_connection_notification_safe \<open>tcp_inv x used K None s\<close> h] by auto
    show ?thesis
    proof (cases r)
      case (Err e)
      then obtain c where c: "hm_get (t_connections s1) (n_id n) = Some c"
        using failed_connection_present [OF h [unfolded Err]] by (auto simp: present_def)
      let ?k = "seqM (drop_connection x (n_id n) c)
        (fail (ErrorMsg (t_error_text x e @ '': id '' @ decimal (unat (n_id n)))))"
      have "safe (tcp_inv x used K None) ?k" by (intro safe_seq drop_connection_safe safe_fail)
      from safe_at [OF this s1(1)] 4 h Err c show ?thesis by (simp add: catchM_def withM_def)
    qed (use 4 h s1 in \<open>simp_all add: catchM_def\<close>)
  qed
qed

definition tcp_accepts :: "('t, 'm, 'h) conn_contract \<Rightarrow> 't envelope \<Rightarrow> bool" where
  "tcp_accepts K env \<longleftrightarrow> kc_env K env \<and> (\<forall>cid. env_cid env = Some cid \<longrightarrow> connection cid \<noteq> None)"

lemma tcp_handle_envelope_safe:
  assumes "tcp_accepts K env"
  shows "safe (tcp_inv x used K None) (tcp_handle_envelope x env)"
proof -
  have good: "good_call K (ch_envelope (t_handler x) env)" if "tcp_inv x used K None s"
    for s
    using assms tcp_invD(2) [OF that] by (simp add: tcp_accepts_def handlers_ok_def)
  show ?thesis
    using assms unfolding tcp_handle_envelope_def tcp_accepts_def
    by (auto split: option.splits intro!: safe_with safe_fail safe_ret call_and_reply_safe good)
qed

interpretation tcp_svc: service_contract "tcp_service x" "tcp_inv x used K None" "tcp_accepts K"
  by unfold_locales
     (simp_all add: tcp_service_def tcp_handle_notification_safe tcp_handle_envelope_safe)

section \<open>Starting\<close>

lemma tcp_new_inv:
  assumes "tcp_new x p a req conn n w = Ok s" and "outside_ok x used K" and "handlers_ok x K p"
    and "rx_alive (nd_executor_tx n)"
  shows "tcp_inv x used K None s"
proof -
  have "wheel.owns tw (\<lambda>i. None)" if "timer_wheel_new (timer_wheel_slots + 1) = Some tw" for tw :: "usize timer_wheel"
    using timer_wheel_new_wf [OF that] timer_wheel_new_keys [OF that] by (simp add: wheel.owns_def)
  then show ?thesis
    using assms
    by (auto simp: tcp_new_def tcp_inv_def conns_ok_def timeouts_ok_def within_def
        timer_wheel_new_keys dest: timer_wheel_new_wf
        split: option.splits prod.splits sum.splits if_splits)
qed

lemma tcp_inv_ids:
  "tcp_inv x used K lim (s\<lparr>t_listener_id := l\<rparr>) = tcp_inv x used K lim s"
  "tcp_inv x used K lim (s\<lparr>request_timer_id := l\<rparr>) = tcp_inv x used K lim s"
  "connection_timeout s \<noteq> None \<Longrightarrow>
   tcp_inv x used K lim s \<Longrightarrow> tcp_inv x used K lim (s\<lparr>connection_timer_id := t\<rparr>)"
  by (auto simp: tcp_inv_def conns_ok_def timeouts_ok_def within_def split: option.splits)

lemma t_try_timeout_safe:
  assumes "\<And>w r w'. f w = (r, w') \<Longrightarrow> used w \<subseteq> used w'"
  shows "safe (\<lambda>s. tcp_inv x used K None s \<and> connection_timeout s = t) (t_try f txt)"
  by (rule safeI)
     (auto simp: t_try_def t_sys_def act_defs intro!: tcp_inv_world dest: assms
        split: prod.splits sum.splits)

lemma tcp_init_safe:
  "safe (\<lambda>s. tcp_inv x used K None s \<and> connection_timeout s = t) (tcp_init x)" (is "safe ?P _")
proof -
  have "safe ?P (tcp_init x)" if out: "outside_ok x used K"
    unfolding tcp_init_def
    by (intro safe_bind safe_seq safe_with)
       (use out in \<open>auto intro!: t_try_timeout_safe safe_mod safe_ret safe_bind
          simp: tcp_inv_ids dest: outside_okD(8,9) split: option.splits\<close>)
  then show ?thesis by (auto simp: safe_def triple_def dest: tcp_invD(1))
qed

lemma tcp_accepted_run:
  "list_all (event_ok (tcp_accepts K)) evs \<Longrightarrow> tcp_svc.loop.accepted_run x K evs v"
  by (induction evs arbitrary: v) (auto split: prod.splits loop_status.splits)

end
