(* ===== verification/ApiServer.thy ===== *)
theory ApiServer
  imports TcpSafe Service ClusterSample
begin

text \<open>
  The connection handler of \<open>tests/utils/api_server.rs\<close>, a client of the TCP server of the
  repository's own: it keeps the contract the server's invariant asks for. The outside it runs
  on here is a concrete one: the kernel of the cluster's sample, frames that arrive whole, and a
  format of a few requests and replies.
\<close>

section \<open>The connection handler\<close>

datatype api_client_msg =
    ApiOp pid usize
  | ApiOpComplete
  | ApiGetHistory pid
  | ApiHistory "usize list"
  | ApiTimeout

record api_handler =
  ah_pid :: pid
  ah_id :: u64
  total_requests :: u64

type_synonym api_msg = "(rabble_user_msg, api_client_msg) connection_msg"

definition api_new :: "pid \<Rightarrow> u64 \<Rightarrow> api_handler" where
  "api_new p i = \<lparr>ah_pid = p, ah_id = i, total_requests = 0\<rparr>"

text \<open>\<open>None\<close> is the panic of the \<open>unwrap\<close> and of \<open>unreachable!\<close>.\<close>

definition api_handle_envelope ::
    "rabble_user_msg envelope \<Rightarrow> api_msg list \<Rightarrow> api_handler \<Rightarrow> (api_msg list \<times> api_handler) option" where
  "api_handle_envelope env out h =
     (case env_cid env of
        None \<Rightarrow> None
      | Some cid \<Rightarrow>
          (case env_msg env of
             User (History hs) \<Rightarrow> Some (out @ [ConnClient (ApiHistory hs) cid], h)
           | User OpComplete \<Rightarrow> Some (out @ [ConnClient ApiOpComplete cid], h)
           | Timeout \<Rightarrow> Some (out @ [ConnClient ApiTimeout cid], h)
           | _ \<Rightarrow> None))"

definition api_new_envelope :: "pid \<Rightarrow> rabble_user_msg \<Rightarrow> api_handler \<Rightarrow> api_msg \<times> api_handler" where
  "api_new_envelope t m h =
     (ConnEnvelope (envelope_new t (ah_pid h) (User m)
        (Some (cid_of_request (ah_pid h) (ah_id h) (total_requests h)))),
      h\<lparr>total_requests := total_requests h + 1\<rparr>)"

definition api_handle_network_msg ::
    "api_client_msg \<Rightarrow> api_msg list \<Rightarrow> api_handler \<Rightarrow> (api_msg list \<times> api_handler) option" where
  "api_handle_network_msg m out h =
     (case m of
        ApiOp p val \<Rightarrow> (case api_new_envelope p (Op val) h of (e, h') \<Rightarrow> Some (out @ [e], h'))
      | ApiGetHistory p \<Rightarrow> (case api_new_envelope p GetHistory h of (e, h') \<Rightarrow> Some (out @ [e], h'))
      | _ \<Rightarrow> None)"

definition api_handlers :: "(rabble_user_msg, api_client_msg, api_handler) conn_handler" where
  "api_handlers =
     \<lparr>ch_new = api_new, ch_envelope = api_handle_envelope, ch_network = api_handle_network_msg\<rparr>"

text \<open>
  The start of the server: a TCP server that speaks msgpack, with a timeout of requests and none of
  connections, as a service. It returns the service that its thread waits on; the pid of the service
  is \<open>sv_pid\<close>, and \<open>Service::new(..).unwrap()\<close> panics on an error.
\<close>

definition api_server_ip :: string where
  "api_server_ip = ''127.0.0.1:22001''"

definition api_server_env ::
    "('r, 'f, 'w) framing \<Rightarrow> api_client_msg format
      \<Rightarrow> (rabble_user_msg, api_client_msg, api_handler, ('r, 'f) frames, 'w) tcp_env
      \<Rightarrow> (rabble_user_msg, api_client_msg, api_handler, ('r, 'f) frames, 'w) tcp_env" where
  "api_server_env fr fmt x = x\<lparr>t_handler := api_handlers, t_serializer := msgpack_serializer fr fmt\<rparr>"

definition api_server_start ::
    "(rabble_user_msg, api_client_msg, api_handler, 'z, 'w) tcp_env \<Rightarrow> ('x \<Rightarrow> io_error + 'x) \<Rightarrow> 'x
      \<Rightarrow> io_error + unit \<Rightarrow> io_error + unit \<Rightarrow> io_error + usize
      \<Rightarrow> (rabble_user_msg, 'q, 'x) node_handle \<Rightarrow> 'w
      \<Rightarrow> (error, (rabble_user_msg,
           (rabble_user_msg, 'q, 'x, api_client_msg, api_handler, 'z, 'w) tcp_server) service) result" where
  "api_server_start x clone tx po rg ch n w =
     (let server_pid = \<lparr>group = None, pname = ''api-server'', node = nd_id n\<rparr>
      in case tcp_new x server_pid api_server_ip 5000 None n w of
           Panic m \<Rightarrow> Panic m
         | Err e \<Rightarrow> Panic ''unwrap''
         | Ok s \<Rightarrow>
             (case service_new (tcp_service x) server_pid po rg ch (tcp_register clone server_pid tx) s of
                Panic m \<Rightarrow> Panic m
              | Err e \<Rightarrow> Panic ''unwrap''
              | Ok v \<Rightarrow> Ok v))"

text \<open>It takes replies and timeouts of its requests from the node, and requests from the client.\<close>

definition api_contract :: "(rabble_user_msg, api_client_msg, api_handler) conn_contract" where
  "api_contract =
     \<lparr>kc_env = (\<lambda>env. env_cid env \<noteq> None \<and>
        (case env_msg env of User (History hs) \<Rightarrow> True | User OpComplete \<Rightarrow> True | Timeout \<Rightarrow> True
         | _ \<Rightarrow> False)),
      kc_net = (\<lambda>m. case m of ApiOp p v \<Rightarrow> True | ApiGetHistory p \<Rightarrow> True | _ \<Rightarrow> False),
      kc_cid = (\<lambda>cid. connection cid \<noteq> None),
      kc_h = (\<lambda>h. True)\<rparr>"

lemma api_handlers_ok:
  assumes "t_handler x = api_handlers"
  shows "handlers_ok x api_contract p"
  using assms unfolding handlers_ok_def good_call_def
  by (auto simp: api_handlers_def api_contract_def api_handle_envelope_def api_handle_network_msg_def
      api_new_envelope_def timeout_envelope_def cid_of_request_def
      split: msg.splits rabble_user_msg.splits api_client_msg.splits)

section \<open>A kernel and a format\<close>

definition sample_framing :: "(bytes list, bytes list, sample_net) framing" where
  "sample_framing =
     \<lparr>fm_reader = (\<lambda>n. []),
      fm_read = (\<lambda>sk r w. (Inr (length (inbox w)), r @ map snd (filter (\<lambda>e. fst e = sk) (inbox w)),
        w\<lparr>inbox := filter (\<lambda>e. fst e \<noteq> sk) (inbox w)\<rparr>)),
      fm_next = (\<lambda>r. case r of [] \<Rightarrow> (None, []) | b # bs \<Rightarrow> (Some b, bs)),
      fm_writer = [],
      fm_write = (\<lambda>sk b f w. if 200 \<le> sk then (Inl would_block, f, w)
        else (Inr True, (case b of None \<Rightarrow> f | Some b \<Rightarrow> f @ [b]), w)),
      fm_set_writable = (\<lambda>f. f),
      fm_is_writable = (\<lambda>f. True)\<rparr>"

definition sample_pid :: "nat \<Rightarrow> pid" where
  "sample_pid k = \<lparr>group = None, pname = ''r'', node = sample_peer k\<rparr>"

definition sample_format :: "api_client_msg format" where
  "sample_format =
     \<lparr>fmt_encode = (\<lambda>m. case m of
        ApiOp p v \<Rightarrow> Some [0, sample_index (node p), ucast v]
      | ApiGetHistory p \<Rightarrow> Some [1, sample_index (node p)]
      | ApiOpComplete \<Rightarrow> Some [2]
      | ApiHistory h \<Rightarrow> Some (3 # map ucast h)
      | ApiTimeout \<Rightarrow> Some [4]),
      fmt_decode = (\<lambda>b. case b of
        [k, n] \<Rightarrow> if k = 1 then Some (ApiGetHistory (sample_pid (unat n))) else None
      | [k, n, v] \<Rightarrow> if k = 0 then Some (ApiOp (sample_pid (unat n)) (ucast v)) else None
      | _ \<Rightarrow> None),
      fmt_debug = (\<lambda>m. ''message'')\<rparr>"

type_synonym api_frames = "(bytes list, bytes list) frames"

definition sample_tcp ::
    "(rabble_user_msg, api_client_msg, api_handler, api_frames, sample_net) tcp_env" where
  "sample_tcp =
     \<lparr>t_handler = api_handlers,
      t_serializer = msgpack_serializer sample_framing sample_format,
      t_available = (\<lambda>sk z w. length (frame_reader z) + length (filter (\<lambda>e. fst e = sk) (inbox w))),
      t_bind = (\<lambda>a w. (Inr [Inr 6, Inl would_block], w)),
      t_listener_nonblocking = (\<lambda>w. (Inr (), w)),
      t_set_nonblocking = (\<lambda>sk w. (Inr (), w)),
      t_register = (\<lambda>sk ev. sample_register),
      t_register_listener = (\<lambda>ev. sample_register),
      t_deregister = (\<lambda>sk w. (Inr (), w)),
      t_set_interval = (\<lambda>ms. sample_register),
      t_error_text = (\<lambda>e. ''error''),
      t_msg_text = (\<lambda>m. ''message''),
      t_envelope_text = (\<lambda>e. ''envelope'')\<rparr>"

lemma sample_framing_laws:
  "framing_laws sample_framing (\<lambda>r. r) (\<lambda>sk w. map snd (filter (\<lambda>e. fst e = sk) (inbox w))) sk"
  by (auto simp: framing_laws_def sample_framing_def filter_False split: list.splits if_splits)

lemma sample_reads_requests:
  assumes "msgpack_read sample_framing sample_format sk z w = (r, z', w')"
  shows "sample_used w' = sample_used w"
    and "r = Inr (Some m) \<Longrightarrow> kc_net api_contract m
      \<and> t_available sample_tcp sk z' w' < t_available sample_tcp sk z w"
proof -
  note defs = msgpack_read_def sample_framing_def sample_used_def
  show "sample_used w' = sample_used w"
    using assms by (auto simp: defs split: list.splits option.splits)
  have kinds: "fmt_decode sample_format b = Some m \<Longrightarrow> kc_net api_contract m" for b
    by (auto simp: sample_format_def api_contract_def split: list.splits if_splits)
  assume r: "r = Inr (Some m)"
  let ?got = "map snd (filter (\<lambda>e. fst e = sk) (inbox w))"
  show "kc_net api_contract m \<and> t_available sample_tcp sk z' w' < t_available sample_tcp sk z w"
  proof (cases "frame_reader z @ ?got")
    case Nil
    with assms r show ?thesis by (simp add: defs)
  next
    case (Cons b bs)
    then have len: "length (frame_reader z) + length ?got = Suc (length bs)"
      by (metis length_append length_Cons)
    with assms r Cons kinds [of b] show ?thesis
      by (auto simp: defs sample_tcp_def filter_False split: option.splits)
  qed
qed

lemma sample_writes:
  assumes "msgpack_write sample_framing sample_format sk m z w = (r, z', w')"
  shows "w' = w \<and> frame_reader z' = frame_reader z"
  using assms
  by (auto simp: msgpack_write_def frames_write_def sample_framing_def split: option.splits if_splits)

lemma sample_tcp_calls [simp]:
  "t_handler sample_tcp = api_handlers"
  "t_serializer sample_tcp = msgpack_serializer sample_framing sample_format"
  "t_register sample_tcp sk ev = sample_register"
  "t_register_listener sample_tcp ev = sample_register"
  "t_set_interval sample_tcp ms = sample_register"
  "t_set_nonblocking sample_tcp sk w = (Inr (), w)"
  "t_deregister sample_tcp sk w = (Inr (), w)"
  "t_bind sample_tcp a w = (Inr [Inr 6, Inl would_block], w)"
  "t_listener_nonblocking sample_tcp w = (Inr (), w)"
  "t_available sample_tcp sk z w
    = length (frame_reader z) + length (filter (\<lambda>e. fst e = sk) (inbox w))"
  by (simp_all add: sample_tcp_def)

lemma sample_register_used: "sample_register w = (r, w') \<Longrightarrow> sample_used w \<subseteq> sample_used w'"
  by (auto simp: sample_register_def sample_used_def split: if_splits)

lemma sample_outside_ok: "outside_ok sample_tcp sample_used api_contract"
  unfolding outside_ok_def
proof (intro conjI allI impI, goal_cases)
  case 10
  then show ?case
    using sample_reads_requests(2) by (auto simp: msgpack_serializer_def simp del: sample_tcp_calls(10))
next
  case 11
  then show ?case
    using sample_reads_requests(2) by (auto simp: msgpack_serializer_def simp del: sample_tcp_calls(10))
qed (auto simp: msgpack_serializer_def dest: sample_register_used sample_register_fresh
       sample_writes sample_reads_requests(1))

end
