(* ===== verification/TcpClaims.thy ===== *)
theory TcpClaims
  imports ApiServer
begin

text \<open>
  Properties of the TCP server and of the service loop it runs in, evaluated on the API server
  of the repository's tests.
\<close>

section \<open>A server to evaluate them on\<close>

definition sample_node :: "(rabble_user_msg, replica, nat) node_handle" where
  "sample_node = node_new (sample_peer 5) \<lparr>sent = [], rx_alive = True\<rparr> \<lparr>sent = [], rx_alive = True\<rparr>"

type_synonym api_server =
  "(rabble_user_msg, replica, nat, api_client_msg, api_handler, api_frames, sample_net) tcp_server"

definition sample_api_pid :: pid where
  "sample_api_pid = \<lparr>group = None, pname = ''api-server'', node = sample_peer 5\<rparr>"

text \<open>The server after \<open>new\<close>, with a timeout of connections, and one that has been running.\<close>

definition sample_start :: "api_server" where
  "sample_start =
     \<lparr>t_pid = sample_api_pid, t_listener = [Inr 6, Inl would_block], t_listener_id = 0,
      t_connections = [], connection_timeout = Some 1000, connection_timer_id = None,
      connection_timer_wheel = Some \<lparr>tw_size = 11, tw_data = replicate 11 [], current_read = 0,
        current_write = 10\<rparr>,
      t_request_timeout = 5000, request_timer_id = 0,
      request_timer_wheel = \<lparr>tw_size = 11, tw_data = replicate 11 [], current_read = 0,
        current_write = 10\<rparr>,
      t_output = [], t_node = sample_node,
      t_world = \<lparr>next_reg = 1, next_fd = 0, inbox = [(6, [0, 3, 7])]\<rparr>\<rparr>"

definition sample_request :: correlation_id where
  "sample_request = cid_of_request sample_api_pid 7 0"

definition sample_api :: "sock_fd \<Rightarrow> api_server" where
  "sample_api sk = sample_start
     \<lparr>t_listener := [], t_listener_id := 1, request_timer_id := 2, connection_timer_id := Some 3,
      t_connections := [(7, \<lparr>tc_id = 7, tc_handler = api_new sample_api_pid 7,
          tc_serializer = \<lparr>frame_reader = [], frame_writer = []\<rparr>, tc_sock = sk, timer_wheel_slot = 0\<rparr>),
        (8, \<lparr>tc_id = 8, tc_handler = api_new sample_api_pid 8,
          tc_serializer = \<lparr>frame_reader = [], frame_writer = []\<rparr>, tc_sock = 9, timer_wheel_slot = 10\<rparr>)],
      connection_timer_wheel := Some \<lparr>tw_size = 11, tw_data = [7] # replicate 9 [] @ [[8]],
        current_read = 0, current_write = 10\<rparr>,
      request_timer_wheel := \<lparr>tw_size = 11, tw_data = [sample_request] # replicate 10 [],
        current_read = 0, current_write = 10\<rparr>,
      t_world := \<lparr>next_reg = 9, next_fd = 10, inbox = [(6, [0, 3, 7])]\<rparr>\<rparr>"

lemma sample_wheel_keys:
  "slot_keys \<lparr>tw_size = 11, tw_data = a # replicate 9 [] @ [b], current_read = 0, current_write = 10\<rparr> j
   = (if j = 0 then set a else if j = 10 then set b else {})"
  by (auto simp: slot_keys_def nth_Cons nth_append split: nat.splits)

lemma sample_request_keys:
  "slot_keys \<lparr>tw_size = 11, tw_data = a # replicate 10 [], current_read = 0, current_write = 10\<rparr> j
   = (if j = 0 then set a else {})"
  by (auto simp: slot_keys_def nth_Cons split: nat.splits)

lemma sample_api_inv: "tcp_inv sample_tcp sample_used api_contract None (sample_api sk)"
proof -
  let ?cw = "\<lparr>tw_size = 11, tw_data = [7 :: usize] # replicate 9 [] @ [[8]], current_read = 0,
    current_write = 10\<rparr>"
  have cw: "wheel.owns ?cw [7 \<mapsto> 0, 8 \<mapsto> 10]"
    by (auto simp: wheel.owns_def tw_wf_def list_all_iff sample_wheel_keys split: if_splits)
  have "timeouts_ok sample_used (sample_api sk)"
    by (rule timeouts_okI [OF _ cw])
       (auto simp: sample_api_def sample_used_def split: if_splits)
  then show ?thesis
    using sample_outside_ok api_handlers_ok [of sample_tcp sample_api_pid]
    by (auto simp: tcp_inv_def sample_api_def sample_start_def conns_ok_def hm_ok_def within_def
        sample_used_def tw_wf_def list_all_iff sample_wheel_keys sample_request_keys
        sample_node_def node_new_def api_contract_def
        sample_request_def cid_of_request_def split: if_splits)
qed

section \<open>Runs of the service\<close>

lemma tcp_register_safe: "safe (tcp_inv x used K None) (tcp_register clone p tx)"
proof (rule safeI, goal_cases)
  case inv: (1 s)
  obtain r n where reg: "node_register_service clone p tx (t_node s) = (r, n)" by fastforce
  then have n: "rx_alive (nd_executor_tx n) \<and> \<not> is_panic r"
    using tcp_invD(3) [OF inv]
    by (auto simp: node_register_service_def fail_def send_executor_result split: sum.splits)
  with inv have "tcp_inv x used K None (s\<lparr>t_node := n\<rparr>)"
    by (simp add: tcp_inv_def conns_ok_def timeouts_ok_def within_def cong: option.case_cong)
  with reg n show ?case
    by (simp add: tcp_register_def)
qed

lemma service_new_inv:
  assumes "service_new (tcp_service x) p po rg ch (tcp_register clone p tx) s = Ok v"
    and "tcp_inv x used K None s"
  shows "tcp_svc.service_inv x used K v"
proof -
  obtain r1 s1 where reg: "tcp_register clone p tx s = (r1, s1)" by fastforce
  obtain r2 s2 where ini: "tcp_init x s1 = (r2, s2)" by fastforce
  have s1: "tcp_inv x used K None s1" using safeD [OF tcp_register_safe assms(2) reg] by blast
  then have s2: "tcp_inv x used K None s2"
    using safeD [OF tcp_init_safe [of x used K "connection_timeout s1"] _ ini] by blast
  from assms(1) reg ini have "sv_handler v = s2 \<and> sv_rx v = []"
    by (auto simp: service_new_def tcp_service_def seqM_def bindM_def
        split: sum.splits result.splits prod.splits)
  with s2 show ?thesis by (simp add: tcp_svc.service_inv_def)
qed

text \<open>
  The API server of the integration tests, once started with a live executor, keeps the invariant.
\<close>

lemma api_server_start_inv:
  assumes "api_server_start x clone tx po rg ch n w = Ok v" and "outside_ok x used api_contract"
    and "t_handler x = api_handlers" and "rx_alive (nd_executor_tx n)"
  shows "tcp_svc.service_inv x used api_contract v"
proof -
  let ?p = "\<lparr>group = None, pname = ''api-server'', node = nd_id n\<rparr>"
  obtain s where new: "tcp_new x ?p api_server_ip 5000 None n w = Ok s"
    and srv: "service_new (tcp_service x) ?p po rg ch (tcp_register clone ?p tx) s = Ok v"
    using assms(1) unfolding api_server_start_def Let_def by (cases "tcp_new x ?p api_server_ip 5000 None n w")
      (simp_all split: result.splits)
  show ?thesis
    by (rule service_new_inv [OF srv tcp_new_inv [OF new assms(2) api_handlers_ok [OF assms(3)] assms(4)]])
qed

text \<open>
  Its thread, which only waits on it, then survives every message that the contract of the
  connection handler allows.
\<close>

lemma api_server_survives:
  assumes y: "y = api_server_env fr fmt x"
    and "api_server_start y clone tx po rg ch n w = Ok v" and "outside_ok y used api_contract"
    and "rx_alive (nd_executor_tx n)" and "list_all (event_ok (tcp_accepts api_contract)) evs"
    and "service_wait (tcp_service y) evs v = (st, v')"
  shows "st \<noteq> Crashed m"
proof -
  have "t_handler y = api_handlers" by (simp add: y api_server_env_def)
  then have "tcp_svc.service_inv y used api_contract v"
    using api_server_start_inv [OF assms(2,3) _ assms(4)] by blast
  then show ?thesis
    by (rule tcp_svc.loop.loop_no_crash [OF _ tcp_accepted_run [OF assms(5)] assms(6) [unfolded service_wait_def]])
qed

text \<open>
  C13: A TCP service does not panic on envelopes that answer its own connections. From any start,
  with a connection handler that keeps its contract (\<open>handlers_ok\<close>), clients whose messages are in
  that contract, sockets that run dry and a poller that numbers registrations afresh
  (\<open>outside_ok\<close>), and an executor that is alive, no sequence of notifications and of envelopes that
  are in the contract and whose correlation id, when they have one, carries a connection id
  (\<open>tcp_accepts\<close>) makes it panic, and at any time the timer wheel of the connections holds every
  connection in the slot it records and in no other. An envelope outside \<open>tcp_accepts\<close>, with a
  correlation id that names no connection, does panic the service (C12).
\<close>
theorem tcp_service_never_crashes:
  assumes "outside_ok x used K" and "handlers_ok x K p" and "rx_alive (nd_executor_tx n)"
    and "tcp_new x p a req conn n w = Ok s"
    and "service_new (tcp_service x) p po rg ch (tcp_register clone p tx) s = Ok v"
    and "list_all (event_ok (tcp_accepts K)) evs"
    and "service_wait (tcp_service x) evs v = (st, v')"
  shows "st \<noteq> Crashed m
    \<and> (\<forall>i c tw. hm_get (t_connections (sv_handler v')) i = Some c \<longrightarrow>
         connection_timer_wheel (sv_handler v') = Some tw \<longrightarrow>
         (\<forall>j. i \<in> slot_keys tw j \<longleftrightarrow> j = timer_wheel_slot c))"
proof -
  have inv: "tcp_svc.service_inv x used K v"
    using tcp_new_inv [OF assms(4,1,2,3)] assms(5) by (rule service_new_inv [rotated])
  note run = assms(7) [unfolded service_wait_def]
  have "st \<noteq> Crashed m"
    by (rule tcp_svc.loop.loop_no_crash [OF inv tcp_accepted_run [OF assms(6)] run])
  moreover have inv': "tcp_inv x used K None (sv_handler v')"
    using tcp_svc.loop.loop_inv [OF inv tcp_accepted_run [OF assms(6)] run]
    by (simp add: tcp_svc.service_inv_def)
  have "\<forall>j. i \<in> slot_keys tw j \<longleftrightarrow> j = timer_wheel_slot c"
    if c: "hm_get (t_connections (sv_handler v')) i = Some c"
      and tw: "connection_timer_wheel (sv_handler v') = Some tw" for i c tw
  proof -
    obtain own where "wheel.owns tw own" "own i = Some (timer_wheel_slot c)"
      by (rule timeouts_okE [OF tcp_invD(6) [OF inv'] tw]) (use c in blast)
    then show ?thesis by (auto simp: wheel.owns_def)
  qed
  ultimately show ?thesis by blast
qed

text \<open>A client connects, asks for an operation and gets the reply; then the service is shut down.\<close>

definition sample_service :: "(rabble_user_msg, api_server) service" where
  "sample_service =
     \<lparr>sv_pid = sample_api_pid, sv_rx_id = 0, sv_rx = [],
      sv_handler = sample_start
        \<lparr>t_listener_id := 1, request_timer_id := 2, connection_timer_id := Some 3,
         t_node := sample_node\<lparr>nd_executor_tx :=
           \<lparr>sent = [RegisterService sample_api_pid 9], rx_alive = True\<rparr>\<rparr>,
         t_world := \<lparr>next_reg = 4, next_fd = 0, inbox = [(6, [0, 3, 7])]\<rparr>\<rparr>\<rparr>"

definition sample_events :: "rabble_user_msg service_event list" where
  "sample_events =
     [Notified \<lparr>n_id = 1, n_event = Read\<rparr>, Notified \<lparr>n_id = 4, n_event = Read\<rparr>,
      Arrived (envelope_new sample_api_pid (sample_pid 3) (User OpComplete)
        (Some (cid_of_request sample_api_pid 4 0))),
      Notified \<lparr>n_id = 0, n_event = Read\<rparr>,
      Arrived (envelope_new sample_api_pid sample_api_pid ShutdownMsg None),
      Notified \<lparr>n_id = 0, n_event = Read\<rparr>]"

lemma sample_new:
  "tcp_new sample_tcp sample_api_pid a 5000 (Some 1000) sample_node
     \<lparr>next_reg = 1, next_fd = 0, inbox = [(6, [0, 3, 7])]\<rparr> = Ok sample_start"
  by (simp add: tcp_new_def timer_wheel_new_def timer_wheel_slots_def sample_start_def)

lemma sample_service_new:
  "service_new (tcp_service sample_tcp) sample_api_pid (Inr ()) (Inr ()) (Inr 0)
     (tcp_register Inr sample_api_pid 9) sample_start = Ok sample_service"
  by (simp add: service_new_def tcp_service_def tcp_register_def node_register_service_def
      send_executor_result tcp_init_def t_try_def t_sys_def act_defs sample_register_def
      sample_start_def sample_service_def sample_node_def node_new_def timer_wheel_slots_def)

theorem tcp_service_never_crashes_witness:
  "fst (service_wait (tcp_service sample_tcp) sample_events sample_service) \<noteq> Crashed ''handler''"
proof -
  have "list_all (event_ok (tcp_accepts api_contract)) sample_events"
    by (simp add: sample_events_def admitted_def tcp_accepts_def api_contract_def cid_of_request_def
        envelope_new_def)
  moreover have "rx_alive (nd_executor_tx sample_node)" by (simp add: sample_node_def node_new_def)
  moreover have "handlers_ok sample_tcp api_contract sample_api_pid" by (rule api_handlers_ok) simp
  ultimately show ?thesis
    using tcp_service_never_crashes [OF sample_outside_ok _ _ sample_new sample_service_new _
      prod.collapse [symmetric]] by blast
qed

section \<open>Failed connections\<close>

text \<open>
  C33: A connection whose handling fails is dropped: it leaves the map and its socket is
  deregistered, whatever failed, and the error returned names the socket. The connection is
  always still there to be removed, so the \<open>unwrap\<close> of the error path never panics.
\<close>
theorem failed_connection_is_dropped:
  assumes "n_id n \<noteq> t_listener_id s" and "n_id n \<noteq> request_timer_id s"
    and "connection_timer_id s \<noteq> Some (n_id n)"
    and "handle_connection_notification x n s = (Err e, s1)"
  shows "\<exists>c. hm_get (t_connections s1) (n_id n) = Some c
    \<and> tcp_handle_notification x n s
      = (Err (ErrorMsg (t_error_text x e @ '': id '' @ decimal (unat (n_id n)))),
         s1\<lparr>t_connections := hm_remove (n_id n) (t_connections s1),
            t_world := snd (t_deregister x (tc_sock c) (t_world s1))\<rparr>)"
proof -
  obtain c where c: "hm_get (t_connections s1) (n_id n) = Some c"
    using failed_connection_present [OF assms(4)] by (auto simp: present_def)
  with assms show ?thesis
    by (auto simp: tcp_handle_notification_def drop_connection_def t_sys_def act_defs
        split: prod.splits)
qed

text \<open>Socket 200 is broken: the reply that was held back cannot be written.\<close>

theorem failed_connection_is_dropped_witness:
  "\<exists>s1 e s'. handle_connection_notification sample_tcp \<lparr>n_id = 7, n_event = Write\<rparr> (sample_api 200)
       = (Err e, s1)
     \<and> tcp_handle_notification sample_tcp \<lparr>n_id = 7, n_event = Write\<rparr> (sample_api 200)
       = (Err (ErrorMsg (''error'' @ '': id '' @ ''7'')), s')
     \<and> hm_get (t_connections s') 7 = None"
proof -
  have e: "\<exists>s1. handle_connection_notification sample_tcp \<lparr>n_id = 7, n_event = Write\<rparr> (sample_api 200)
      = (Err (ErrorMsg ''Failed to write encoded message''), s1)"
    by (simp add: handle_connection_notification_def sample_api_def conn_send_def act_defs
        msgpack_serializer_def msgpack_write_def frames_write_def frames_set_writable_def
        sample_framing_def set_conn_def)
  then obtain s1 where s1: "handle_connection_notification sample_tcp \<lparr>n_id = 7, n_event = Write\<rparr>
      (sample_api 200) = (Err (ErrorMsg ''Failed to write encoded message''), s1)" ..
  have seven: "decimal 7 = ''7''" by code_simp
  have "t_error_text sample_tcp e = ''error''" for e by (simp add: sample_tcp_def)
  then show ?thesis
    using s1 failed_connection_is_dropped [OF _ _ _ s1]
    by (auto simp: sample_api_def seven)
qed

section \<open>Idle connections\<close>

text \<open>
  C34: A tick of the connection timer closes exactly the connections whose timeout is in the
  next slot of the wheel and never fails; all others stay as they are.
\<close>
theorem tcp_tick_closes_idle_connections:
  assumes "tcp_inv x used K None s" and "connection_timer_wheel s = Some tw"
    and "connection_timer_id s = Some (n_id n)"
    and "n_id n \<noteq> t_listener_id s" and "n_id n \<noteq> request_timer_id s"
  shows "fst (tcp_handle_notification x n s) = Ok ()
    \<and> hm_get (t_connections (snd (tcp_handle_notification x n s))) i
      = (case hm_get (t_connections s) i of
           None \<Rightarrow> None
         | Some c \<Rightarrow> if timer_wheel_slot c = current_read tw then None else Some c)"
proof -
  have tick: "tcp_handle_notification x n s = connection_tick x s"
    using assms(3-5) by (simp add: tcp_handle_notification_def withM_def)
  show ?thesis
    by (rule connection_tick_effect [OF assms(1,2)])
       (auto simp: tick without_def hm_get_filter split: option.splits)
qed

theorem tcp_tick_closes_idle_connections_witness:
  "map_option tc_id (hm_get (t_connections (snd (tcp_handle_notification sample_tcp
     \<lparr>n_id = 3, n_event = Read\<rparr> (sample_api 6)))) 7) = None
   \<and> map_option tc_id (hm_get (t_connections (snd (tcp_handle_notification sample_tcp
     \<lparr>n_id = 3, n_event = Read\<rparr> (sample_api 6)))) 8) = Some 8"
proof -
  let ?tw = "the (connection_timer_wheel (sample_api 6))"
  have tw: "connection_timer_wheel (sample_api 6) = Some ?tw" by (simp add: sample_api_def)
  show ?thesis
    using tcp_tick_closes_idle_connections [OF sample_api_inv tw, of "\<lparr>n_id = 3, n_event = Read\<rparr>" 7]
      tcp_tick_closes_idle_connections [OF sample_api_inv tw, of "\<lparr>n_id = 3, n_event = Read\<rparr>" 8]
    by (simp add: sample_api_def)
qed

end
