(* ===== verification/TcpTyped.thy ===== *)
theory TcpTyped
  imports TcpClaims Outcomes
begin

text \<open>
  What the TCP server handler never gets wrong, whatever the outside, the clients and the
  connection handlers do: the keys of its map are unique, its timer wheels keep their shape and
  exist when the code unwraps them, and the slots it removes timeouts from are slots of the wheel.
\<close>

section \<open>Well-typed states\<close>

definition wheel_slots :: nat where
  "wheel_slots = timer_wheel_slots + 1"

definition wheel_typed :: "'k timer_wheel \<Rightarrow> bool" where
  "wheel_typed tw \<longleftrightarrow> tw_wf tw \<and> tw_size tw = wheel_slots"

definition tcp_typed :: "('t, 'q, 'x, 'm, 'h, 'z, 'w) tcp_server \<Rightarrow> bool" where
  "tcp_typed s \<longleftrightarrow> hm_ok (t_connections s) \<and> wheel_typed (request_timer_wheel s)
     \<and> (connection_timer_wheel s = None \<longrightarrow> connection_timer_id s = None \<and> connection_timeout s = None)
     \<and> (\<forall>tw. connection_timer_wheel s = Some tw \<longrightarrow> wheel_typed tw)
     \<and> list_all (\<lambda>(i, c). timer_wheel_slot c < wheel_slots) (t_connections s)"

text \<open>
  \<open>handler\<close>: the user's code; \<open>node.send\<close>: the executor is gone; \<open>connection.unwrap\<close>: a
  correlation id that names no connection; \<open>fuel\<close>: a socket that never runs dry, on which the code
  loops.
\<close>

definition tcp_unwraps :: "string set" where
  "tcp_unwraps = {''handler'', ''node.send'', ''connection.unwrap'', ''fuel''}"

lemma tcp_typed_frame [simp]:
  "tcp_typed (s\<lparr>t_world := w\<rparr>) = tcp_typed s" "tcp_typed (s\<lparr>t_node := n\<rparr>) = tcp_typed s"
  "tcp_typed (s\<lparr>t_output := out\<rparr>) = tcp_typed s" "tcp_typed (s\<lparr>t_listener := l\<rparr>) = tcp_typed s"
  "tcp_typed (s\<lparr>t_listener_id := i\<rparr>) = tcp_typed s" "tcp_typed (s\<lparr>request_timer_id := i\<rparr>) = tcp_typed s"
  by (simp_all add: tcp_typed_def)

lemma tcp_slots:
  "hm_ok cs \<Longrightarrow> list_all (\<lambda>(i, c). timer_wheel_slot c < k) cs
    \<longleftrightarrow> (\<forall>i c. hm_get cs i = Some c \<longrightarrow> timer_wheel_slot c < k)"
  unfolding hm_ok_def by (rule list_all_map_of)

lemma tcp_typed_slot:
  "tcp_typed s \<Longrightarrow> hm_get (t_connections s) i = Some c \<Longrightarrow> timer_wheel_slot c < wheel_slots"
  by (auto simp: tcp_typed_def tcp_slots)

lemma tcp_typed_conn [intro]:
  "tcp_typed s \<Longrightarrow> timer_wheel_slot c < wheel_slots \<Longrightarrow> tcp_typed (set_conn i c s)"
  by (auto simp: tcp_typed_def set_conn_def tcp_slots split: if_splits)

lemma tcp_typed_same:
  "tcp_typed s \<Longrightarrow> hm_get (t_connections s) i = Some c \<Longrightarrow> timer_wheel_slot c' = timer_wheel_slot c \<Longrightarrow>
   tcp_typed (set_conn i c' s)"
  by (metis tcp_typed_conn tcp_typed_slot)

lemma tcp_typed_remove [intro]:
  "tcp_typed s \<Longrightarrow> tcp_typed (s\<lparr>t_connections := hm_remove i (t_connections s)\<rparr>)"
  by (auto simp: tcp_typed_def tcp_slots split: if_splits)

lemma tcp_typed_wheels [intro]:
  "tcp_typed s \<Longrightarrow> connection_timer_wheel s = Some tw \<Longrightarrow> wheel_typed tw' \<Longrightarrow>
   tcp_typed (s\<lparr>connection_timer_wheel := Some tw'\<rparr>)"
  "tcp_typed s \<Longrightarrow> wheel_typed rw \<Longrightarrow> tcp_typed (s\<lparr>request_timer_wheel := rw\<rparr>)"
  by (auto simp: tcp_typed_def)

section \<open>The timer wheels\<close>

lemma wheel_typed_insert:
  assumes "wheel_typed tw"
  shows "\<exists>slot tw'. tw_insert k tw = Some (slot, tw') \<and> slot < wheel_slots \<and> wheel_typed tw'"
proof -
  have wf: "tw_wf tw" "tw_size tw = wheel_slots" using assms by (simp_all add: wheel_typed_def)
  obtain slot tw' where ins: "tw_insert k tw = Some (slot, tw')" using tw_insert_total [OF wf(1)] by blast
  from tw_insert_wf [OF wf(1) ins] wf(2) ins show ?thesis by (auto simp: wheel_typed_def)
qed

lemma wheel_typed_remove:
  assumes "wheel_typed tw" and "slot < wheel_slots"
  shows "\<exists>tw'. tw_remove k slot tw = Some tw' \<and> wheel_typed tw'"
proof -
  have wf: "tw_wf tw" "tw_size tw = wheel_slots" using assms(1) by (simp_all add: wheel_typed_def)
  obtain tw' where rem: "tw_remove k slot tw = Some tw'" using tw_remove_total [OF wf(1)] wf(2) assms(2) by metis
  from tw_remove_wf [OF wf(1) rem] wf(2) rem show ?thesis by (auto simp: wheel_typed_def)
qed

lemma wheel_typed_expire:
  assumes "wheel_typed tw"
  shows "\<exists>ks tw'. tw_expire tw = Some (ks, tw') \<and> wheel_typed tw'"
proof -
  have wf: "tw_wf tw" "tw_size tw = wheel_slots" using assms(1) by (simp_all add: wheel_typed_def)
  obtain ks tw' where e: "tw_expire tw = Some (ks, tw')" using tw_expire_total [OF wf(1)] by blast
  from tw_expire_wf(1,2) [OF wf(1) e] wf(2) e show ?thesis by (auto simp: wheel_typed_def)
qed

lemma typed_requests [only_rules]:
  "only U tcp_typed (request_insert cid)" "only U tcp_typed request_expire"
proof -
  show "only U tcp_typed (request_insert cid)"
  proof (rule onlyI, goal_cases)
    case (1 s)
    then have "wheel_typed (request_timer_wheel s)" by (simp add: tcp_typed_def)
    from wheel_typed_insert [OF this, of cid] 1 show ?case by (auto simp: request_insert_def)
  qed
  show "only U tcp_typed request_expire"
  proof (rule onlyI, goal_cases)
    case (1 s)
    then have "wheel_typed (request_timer_wheel s)" by (simp add: tcp_typed_def)
    from wheel_typed_expire [OF this] 1 show ?case by (auto simp: request_expire_def)
  qed
qed

lemma typed_conn_insert:
  assumes "\<And>slot. slot < wheel_slots \<Longrightarrow> only U tcp_typed (f slot)"
  shows "only U tcp_typed (bindM (conn_wheel_insert i) f)"
proof (rule onlyI, goal_cases)
  case (1 s)
  show ?case
  proof (cases "connection_timer_wheel s")
    case None
    with only_at [OF assms 1, of 0] show ?thesis
      by (simp add: conn_wheel_insert_def bindM_def wheel_slots_def)
  next
    case (Some tw)
    with 1 have "wheel_typed tw" by (simp add: tcp_typed_def)
    from wheel_typed_insert [OF this, of i] obtain slot tw' where
      ins: "tw_insert i tw = Some (slot, tw')" "slot < wheel_slots" "wheel_typed tw'" by blast
    have "tcp_typed (s\<lparr>connection_timer_wheel := Some tw'\<rparr>)" using 1 Some ins(3) by blast
    from only_at [OF assms [OF ins(2)] this] Some ins(1) show ?thesis
      by (simp add: conn_wheel_insert_def bindM_def)
  qed
qed

lemma typed_conn_remove:
  assumes "slot < wheel_slots"
  shows "only U tcp_typed (conn_wheel_remove i slot)"
proof (rule onlyI, goal_cases)
  case (1 s)
  show ?case
  proof (cases "connection_timer_wheel s")
    case (Some tw)
    with 1 have "wheel_typed tw" by (simp add: tcp_typed_def)
    from wheel_typed_remove [OF this assms, of i] 1 Some show ?thesis
      by (auto simp: conn_wheel_remove_def)
  qed (use 1 in \<open>simp add: conn_wheel_remove_def\<close>)
qed

section \<open>Operations\<close>

lemma typed_calls [only_rules]:
  "only U tcp_typed (t_sys f)" "only U tcp_typed (conn_read x i)" "only U tcp_typed (conn_send x i m k)"
  by (auto intro!: onlyI tcp_typed_same simp: t_sys_def conn_read_def conn_send_def
      split: option.splits prod.splits sum.splits)

lemma typed_try [only_rules]: "only U tcp_typed (t_try f txt)"
  unfolding t_try_def by (auto intro!: only_rules split: sum.splits)

lemma typed_node_send [only_rules]: "only tcp_unwraps tcp_typed (t_node_send env)"
  by (rule onlyI) (auto simp: t_node_send_def tcp_unwraps_def split: prod.splits result.splits)

lemma typed_call_handler [only_rules]: "only tcp_unwraps tcp_typed (call_handler g i)"
  by (rule onlyI)
     (auto intro!: tcp_typed_same simp: call_handler_def tcp_unwraps_def split: option.splits prod.splits)

lemma typed_connection_msgs [only_rules]: "only tcp_unwraps tcp_typed (handle_connection_msgs x i)"
  unfolding handle_connection_msgs_def connection_msg_def
  by (intro only_rules only_mod) (auto intro!: only_rules split: connection_msg.splits option.splits)

lemma typed_read_loop [only_rules]: "only tcp_unwraps tcp_typed (read_loop x i n)"
  by (induction n)
     (auto intro!: only_rules only_panic split: option.splits simp: tcp_unwraps_def [symmetric],
      simp add: tcp_unwraps_def)

lemma typed_handle_readable [only_rules]: "only tcp_unwraps tcp_typed (handle_readable x i)"
  unfolding handle_readable_def
  by (auto intro!: only_rules simp del: read_loop.simps split: option.splits)

lemma typed_update_timeout [only_rules]: "only U tcp_typed (update_connection_timeout i)"
  unfolding update_connection_timeout_def
  by (auto intro!: only_rules typed_conn_remove typed_conn_insert only_mod tcp_typed_conn
      intro: tcp_typed_slot split: option.splits)

lemma typed_new_connection [only_rules]: "only U tcp_typed (new_connection x sk)"
  unfolding new_connection_def
  by (auto intro!: only_rules typed_conn_insert only_mod simp: tcp_conn_new_def)

lemma typed_accept_conns [only_rules]: "only U tcp_typed (accept_conns x l)"
  by (induction l rule: accept_conns.induct) (auto intro!: only_rules only_mod)

lemma typed_drop [only_rules]: "only U tcp_typed (drop_connection x i c)"
  unfolding drop_connection_def by (auto intro!: only_rules only_mod)

lemma typed_conn_notification [only_rules]: "only tcp_unwraps tcp_typed (handle_connection_notification x n)"
  unfolding handle_connection_notification_def
  by (auto intro!: only_rules only_mod tcp_typed_conn split: option.splits) (erule (1) tcp_typed_slot)+

lemma typed_request_tick [only_rules]: "only tcp_unwraps tcp_typed (request_tick x)"
  unfolding request_tick_def request_timed_out_def
  by (auto intro!: only_rules only_panic split: option.splits simp: tcp_unwraps_def [symmetric])
     (simp_all add: tcp_unwraps_def)

lemma typed_connection_tick:
  assumes "tcp_typed s" and "connection_timer_id s \<noteq> None"
  shows "tcp_typed (snd (connection_tick x s)) \<and> \<not> is_panic (fst (connection_tick x s))"
proof -
  obtain tw where tw: "connection_timer_wheel s = Some tw" "wheel_typed tw"
    using assms by (auto simp: tcp_typed_def)
  obtain ids tw' where e: "tw_expire tw = Some (ids, tw')" "wheel_typed tw'"
    using wheel_typed_expire [OF tw(2)] by blast
  let ?k = "forM ids (\<lambda>i. withM (\<lambda>s.
      case hm_get (t_connections s) i of None \<Rightarrow> ret () | Some c \<Rightarrow> drop_connection x i c))"
  have "only {} tcp_typed ?k" by (auto intro!: only_rules split: option.splits)
  moreover have "tcp_typed (s\<lparr>connection_timer_wheel := Some tw'\<rparr>)" using assms(1) tw(1) e(2) by blast
  ultimately have "tcp_typed (snd (?k (s\<lparr>connection_timer_wheel := Some tw'\<rparr>)))
      \<and> (\<forall>p. fst (?k (s\<lparr>connection_timer_wheel := Some tw'\<rparr>)) \<noteq> Panic p)"
    using only_at by fastforce
  with tw(1) e(1) show ?thesis
    by (cases "fst (?k (s\<lparr>connection_timer_wheel := Some tw'\<rparr>))")
       (auto simp: connection_tick_def conn_wheel_expire_def bindM_def)
qed

section \<open>The service\<close>

lemma typed_tcp_notification: "only tcp_unwraps tcp_typed (tcp_handle_notification x n)"
proof (rule onlyI, goal_cases)
  case (1 s)
  consider "n_id n = t_listener_id s" | "n_id n \<noteq> t_listener_id s" "n_id n = request_timer_id s"
    | "n_id n \<noteq> t_listener_id s" "n_id n \<noteq> request_timer_id s" "connection_timer_id s = Some (n_id n)"
    | "n_id n \<noteq> t_listener_id s" "n_id n \<noteq> request_timer_id s" "connection_timer_id s \<noteq> Some (n_id n)"
    by blast
  then show ?case
  proof cases
    case 1
    have "only tcp_unwraps tcp_typed (accept_connections x)"
      unfolding accept_connections_def by (intro only_rules)
    from only_at [OF this \<open>tcp_typed s\<close>] 1 show ?thesis by (simp add: tcp_handle_notification_def withM_def)
  next
    case 2
    from only_at [OF typed_request_tick \<open>tcp_typed s\<close>] 2 show ?thesis
      by (simp add: tcp_handle_notification_def withM_def)
  next
    case 3
    then have "tcp_handle_notification x n s = connection_tick x s"
      by (simp add: tcp_handle_notification_def withM_def)
    with typed_connection_tick [OF \<open>tcp_typed s\<close>, of x] 3 show ?thesis by auto
  next
    case 4
    obtain r s1 where h: "handle_connection_notification x n s = (r, s1)" by fastforce
    note s1 = onlyD [OF typed_conn_notification \<open>tcp_typed s\<close> h]
    show ?thesis
    proof (cases r)
      case (Err e)
      then obtain c where c: "hm_get (t_connections s1) (n_id n) = Some c"
        using failed_connection_present [OF h [unfolded Err]] by (auto simp: present_def)
      have "only tcp_unwraps tcp_typed (seqM (drop_connection x (n_id n) c)
          (fail (ErrorMsg (t_error_text x e @ '': id '' @ decimal (unat (n_id n))))))"
        by (intro only_rules)
      from only_at [OF this, of s1] s1 4 h Err c show ?thesis
        by (simp add: tcp_handle_notification_def catchM_def withM_def)
    qed (use 4 h s1 in \<open>simp_all add: tcp_handle_notification_def catchM_def withM_def\<close>)
  qed
qed

lemma typed_tcp_envelope: "only tcp_unwraps tcp_typed (tcp_handle_envelope x env)"
  unfolding tcp_handle_envelope_def
  by (auto intro!: only_rules only_panic split: option.splits simp: tcp_unwraps_def [symmetric])
     (simp_all add: tcp_unwraps_def)

lemma typed_tcp_init: "only U tcp_typed (tcp_init x)"
proof (rule onlyI, goal_cases)
  case (1 s)
  from 1 show ?case
    by (auto simp: tcp_init_def tcp_typed_def t_try_def t_sys_def act_defs split: prod.splits sum.splits option.splits)
qed

text \<open>A service whose handler keeps \<open>P\<close> and bounds its panics does so itself.\<close>

lemma only_drain:
  assumes "\<And>env. only U P (sh_envelope h env)"
  shows "P (sv_handler v) \<Longrightarrow> drain_envelopes h rx v = (r, v') \<Longrightarrow>
    P (sv_handler v') \<and> (\<forall>p. r = Panic p \<longrightarrow> p \<in> U)"
proof (induction rx arbitrary: v)
  case (Cons env rest)
  obtain r1 s1 where e: "sh_envelope h env (sv_handler v) = (r1, s1)" by fastforce
  note s1 = onlyD [OF assms Cons.prems(1) e]
  show ?case
    using Cons.prems e s1 Cons.IH [of "v\<lparr>sv_rx := rest, sv_handler := s1\<rparr>"]
    by (cases r1) (auto split: if_splits)
qed auto

lemma only_service:
  assumes "\<And>env. only U P (sh_envelope h env)" and "\<And>n. only U P (sh_notification h n)"
  shows "P (sv_handler v) \<Longrightarrow> service_wait h evs v = (st, v') \<Longrightarrow>
    P (sv_handler v') \<and> (\<forall>p. st = Crashed p \<longrightarrow> p \<in> U)"
  unfolding service_wait_def
proof (induction evs arbitrary: v)
  case (Cons ev evs)
  obtain st1 v1 where h: "service_handle h ev v = (st1, v1)" by fastforce
  have "P (sv_handler v1) \<and> (\<forall>p. st1 = Crashed p \<longrightarrow> p \<in> U)"
  proof (cases ev)
    case (Arrived env)
    with h Cons.prems(1) show ?thesis by (auto simp: service_handle_def)
  next
    case (Notified n)
    obtain r2 v2 where d: "drain_envelopes h (sv_rx v) v = (r2, v2)" by fastforce
    obtain r3 s3 where e: "sh_notification h n (sv_handler v) = (r3, s3)" by fastforce
    from h Notified d e only_drain [OF assms(1) Cons.prems(1) d] onlyD [OF assms(2) Cons.prems(1) e]
    show ?thesis
      by (cases r2; cases r3)
         (auto simp: service_handle_def service_notified_def handle_envelopes_def split: if_splits)
  qed
  with Cons h show ?case by (cases st1) auto
qed simp

lemma wheel_typed_new: "timer_wheel_new (Suc timer_wheel_slots) = Some tw \<Longrightarrow> wheel_typed tw"
  using timer_wheel_new_wf [of "Suc timer_wheel_slots" tw] by (simp add: wheel_typed_def wheel_slots_def)

lemma tcp_new_typed: "tcp_new x p a req conn n w = Ok s \<Longrightarrow> tcp_typed s"
  by (auto simp: tcp_new_def tcp_typed_def wheel_typed_new
      split: option.splits prod.splits sum.splits if_splits)

text \<open>
  C12: The TCP server stays well typed, and its indices in range, whatever the outside does: the
  poller may hand out an id twice, clients may send any bytes and connection handlers answer
  anything. At any moment of a run the keys of the map of connections are unique, both timer wheels
  have their eleven slots with distinct entries, the connections' wheel is there whenever its
  timer is, and every connection records a slot of the wheel. The thread can only panic in the
  user's connection handler, when the executor is gone, or on a correlation id that names no
  connection; \<open>''fuel''\<close> stands for a turn that does not end, on a socket that is readable for ever.
  It is never by an index out of range, never in the \<open>unwrap\<close> of the connections' wheel, and
  never in the one that removes a failed connection.
\<close>
theorem tcp_server_well_typed:
  assumes "tcp_new x p a req conn n w = Ok s"
    and "service_new (tcp_service x) p po rg ch (tcp_register clone p tx) s = Ok v"
    and "service_wait (tcp_service x) evs v = (st, v')"
  shows "tcp_typed (sv_handler v')
    \<and> (\<forall>m. st = Crashed m \<longrightarrow> m \<in> {''handler'', ''node.send'', ''connection.unwrap'', ''fuel''})"
proof -
  obtain r1 s1 where reg: "tcp_register clone p tx s = (r1, s1)" by fastforce
  obtain r2 s2 where ini: "tcp_init x s1 = (r2, s2)" by fastforce
  have "tcp_typed s1" using tcp_new_typed [OF assms(1)] reg by (auto simp: tcp_register_def split: prod.splits)
  from onlyD [OF typed_tcp_init this ini] have "tcp_typed s2" by blast
  moreover have "sv_handler v = s2"
    using assms(2) reg ini
    by (auto simp: service_new_def tcp_service_def seqM_def bindM_def
        split: sum.splits result.splits prod.splits)
  ultimately have v: "tcp_typed (sv_handler v)" by simp
  have "only tcp_unwraps tcp_typed (sh_envelope (tcp_service x) env)"
    "only tcp_unwraps tcp_typed (sh_notification (tcp_service x) nt)" for env nt
    by (simp_all add: tcp_service_def typed_tcp_envelope typed_tcp_notification)
  from only_service [OF this v assms(3)] show ?thesis by (simp add: tcp_unwraps_def)
qed

text \<open>A process that answers with a correlation id of its own panics the service.\<close>

theorem tcp_server_well_typed_witness:
  "\<exists>v'. service_wait (tcp_service sample_tcp)
       [Arrived (envelope_new sample_api_pid (sample_pid 3) (User OpComplete) (Some (cid_of_pid (sample_pid 3)))),
        Notified \<lparr>n_id = 0, n_event = Read\<rparr>] sample_service = (Crashed ''connection.unwrap'', v')
     \<and> tcp_typed (sv_handler v')"
proof -
  let ?evs = "[Arrived (envelope_new sample_api_pid (sample_pid 3) (User OpComplete) (Some (cid_of_pid (sample_pid 3)))),
    Notified \<lparr>n_id = 0, n_event = Read\<rparr>] :: rabble_user_msg service_event list"
  obtain v' where v': "service_wait (tcp_service sample_tcp) ?evs sample_service = (Crashed ''connection.unwrap'', v')"
    by (simp add: service_wait_def service_handle_def service_notified_def handle_envelopes_def
        sample_service_def tcp_service_def tcp_handle_envelope_def cid_of_pid_def panic_def)
  from tcp_server_well_typed [OF sample_new sample_service_new this] v' show ?thesis by blast
qed

end
