(* ===== verification/TcpClaims2.thy ===== *)
theory TcpClaims2
  imports TcpClaims
begin

text \<open>
  What the TCP server does with the output of its connection handlers, with activity on a
  connection, with replies and with the timeouts of requests.
\<close>

section \<open>The output of a handler\<close>

text \<open>
  The specification of \<open>handle_connection_msgs\<close>: the output vector is a list of envelopes for the
  node and a list of replies for the client, and the two are handled independently.
\<close>

definition out_envelopes :: "('t, 'm) connection_msg list \<Rightarrow> 't envelope list" where
  "out_envelopes out = concat (map (\<lambda>m. case m of ConnEnvelope env \<Rightarrow> [env] | _ \<Rightarrow> []) out)"

definition out_replies :: "('t, 'm) connection_msg list \<Rightarrow> 'm list" where
  "out_replies out = concat (map (\<lambda>m. case m of ConnClient cm cid \<Rightarrow> [cm] | _ \<Rightarrow> []) out)"

fun write_all :: "('t, 'm, 'h, 'z, 'w) tcp_env \<Rightarrow> sock_fd \<Rightarrow> 'm list \<Rightarrow> 'z \<Rightarrow> 'w \<Rightarrow> ('z \<times> 'w) option" where
  "write_all x sk [] z w = Some (z, w)"
| "write_all x sk (m # ms) z w =
     (case ser_write (t_serializer x) sk (Some m) z w of
        (Inl e, z', w') \<Rightarrow> None
      | (Inr b, z', w') \<Rightarrow> write_all x sk ms z' w')"

definition request_ids :: "'t envelope list \<Rightarrow> correlation_id set" where
  "request_ids envs = {cid. \<exists>env \<in> set envs. env_cid env = Some cid}"

lemma out_simps [simp]:
  "out_envelopes [] = []" "out_replies [] = []"
  "out_envelopes (ConnEnvelope env # out) = env # out_envelopes out"
  "out_envelopes (ConnClient cm cid # out) = out_envelopes out"
  "out_replies (ConnEnvelope env # out) = out_replies out"
  "out_replies (ConnClient cm cid # out) = cm # out_replies out"
  by (simp_all add: out_envelopes_def out_replies_def)

lemma request_ids_simps [simp]:
  "request_ids [] = {}"
  "request_ids (env # envs) = (case env_cid env of None \<Rightarrow> {} | Some cid \<Rightarrow> {cid}) \<union> request_ids envs"
  by (auto simp: request_ids_def split: option.splits)

text \<open>What is true after a list of output messages was handled for connection \<open>i\<close>.\<close>

definition routed ::
    "usize \<Rightarrow> ('h, 'z) tcp_conn \<Rightarrow> 't envelope list
      \<Rightarrow> ('t, 'q, 'x, 'm, 'h, 'z, 'w) tcp_server \<Rightarrow> ('t, 'q, 'x, 'm, 'h, 'z, 'w) tcp_server \<Rightarrow> bool" where
  "routed i c envs s s' \<longleftrightarrow>
     hm_get (t_connections s') = (hm_get (t_connections s))(i \<mapsto> c)
     \<and> sent (nd_executor_tx (t_node s')) = sent (nd_executor_tx (t_node s)) @ map ExecEnvelope envs
     \<and> (\<forall>j. slot_keys (request_timer_wheel s') j = slot_keys (request_timer_wheel s) j \<union>
          (if j = current_write (request_timer_wheel s) then request_ids envs else {}))"

text \<open>The server is as ready for the next call of a handler as it was.\<close>

definition ready :: "('t, 'q, 'x, 'm, 'h, 'z, 'w) tcp_server
    \<Rightarrow> ('t, 'q, 'x, 'm, 'h, 'z, 'w) tcp_server \<Rightarrow> bool" where
  "ready s s' \<longleftrightarrow> tw_wf (request_timer_wheel s') \<and> t_output s' = t_output s
     \<and> rx_alive (nd_executor_tx (t_node s')) = rx_alive (nd_executor_tx (t_node s))"

lemma conn_messages_routed:
  assumes "hm_get (t_connections s) i = Some c" and "rx_alive (nd_executor_tx (t_node s))"
    and "tw_wf (request_timer_wheel s)"
    and "write_all x (tc_sock c) (out_replies out) (tc_serializer c) (t_world s) = Some (z, w)"
  shows "\<exists>s'. forM out (connection_msg x i) s = (Ok (), s')
    \<and> routed i (c\<lparr>tc_serializer := z\<rparr>) (out_envelopes out) s s' \<and> t_world s' = w \<and> ready s s'"
  using assms
proof (induction out arbitrary: s c)
  case Nil
  then show ?case by (auto simp: routed_def ready_def ret_def)
next
  case (Cons m out)
  show ?case
  proof (cases m)
    case (ConnEnvelope env)
    let ?tx = "\<lambda>tx. tx\<lparr>sent := sent tx @ [ExecEnvelope env]\<rparr>"
    let ?n = "(t_node s)\<lparr>nd_executor_tx := ?tx (nd_executor_tx (t_node s))\<rparr>"
    obtain tw where step: "connection_msg x i m s
        = (Ok (), s\<lparr>request_timer_wheel := tw, t_node := ?n\<rparr>)"
      and tw: "tw_wf tw" "current_write tw = current_write (request_timer_wheel s)"
        "\<And>j. slot_keys tw j = slot_keys (request_timer_wheel s) j \<union>
          (if j = current_write (request_timer_wheel s)
           then (case env_cid env of None \<Rightarrow> {} | Some cid \<Rightarrow> {cid}) else {})"
    proof (cases "env_cid env")
      case None
      show thesis
        by (rule that [of "request_timer_wheel s"])
           (use None ConnEnvelope Cons.prems in \<open>simp_all add: connection_msg_def act_defs
              t_node_send_def node_send_def send_executor_result\<close>)
    next
      case (Some cid)
      obtain slot tw where ins: "tw_insert cid (request_timer_wheel s) = Some (slot, tw)"
        using tw_insert_total [OF Cons.prems(3), of cid] by blast
      note iw = tw_insert_wf [OF Cons.prems(3) ins]
      have cw: "current_write tw = current_write (request_timer_wheel s)"
        using ins Cons.prems(3) by (auto simp: tw_insert_Some)
      show thesis
        by (rule that [of tw])
           (use Some ConnEnvelope Cons.prems ins iw cw in \<open>simp_all add: connection_msg_def act_defs
              request_insert_def t_node_send_def node_send_def send_executor_result\<close>)
    qed
    let ?s = "s\<lparr>request_timer_wheel := tw, t_node := ?n\<rparr>"
    obtain s' where s': "forM out (connection_msg x i) ?s = (Ok (), s')"
      "routed i (c\<lparr>tc_serializer := z\<rparr>) (out_envelopes out) ?s s'" "t_world s' = w" "ready s s'"
      using Cons.IH [of ?s c] Cons.prems ConnEnvelope tw(1) by (auto simp: ready_def)
    have "routed i (c\<lparr>tc_serializer := z\<rparr>) (env # out_envelopes out) s s'"
      using s'(2) tw(2,3) unfolding routed_def by auto
    with s' step ConnEnvelope show ?thesis by (auto simp: seqM_def bindM_def)
  next
    case (ConnClient cm cid)
    then obtain b z1 w1 where wr: "ser_write (t_serializer x) (tc_sock c) (Some cm) (tc_serializer c)
        (t_world s) = (Inr b, z1, w1)"
      "write_all x (tc_sock c) (out_replies out) z1 w1 = Some (z, w)"
      using Cons.prems(4) by (auto split: prod.splits sum.splits)
    let ?c = "c\<lparr>tc_serializer := z1\<rparr>"
    let ?s = "set_conn i ?c s\<lparr>t_world := w1\<rparr>"
    have step: "connection_msg x i m s = (Ok (), ?s)"
      using ConnClient Cons.prems(1) wr(1) by (simp add: connection_msg_def conn_send_def)
    obtain s' where s': "forM out (connection_msg x i) ?s = (Ok (), s')"
      "routed i (?c\<lparr>tc_serializer := z\<rparr>) (out_envelopes out) ?s s'" "t_world s' = w" "ready s s'"
      using Cons.IH [of ?s ?c] Cons.prems wr(2) by (auto simp: set_conn_def ready_def)
    then have "routed i (c\<lparr>tc_serializer := z\<rparr>) (out_envelopes out) s s'"
      by (simp add: routed_def set_conn_def)
    with s' step ConnClient show ?thesis by (auto simp: seqM_def bindM_def)
  qed
qed

lemma handler_output_effect:
  assumes "hm_get (t_connections s) i = Some c" and "f [] (tc_handler c) = Some (out, h)"
    and "t_output s = []" and "rx_alive (nd_executor_tx (t_node s))"
    and "tw_wf (request_timer_wheel s)"
    and "write_all x (tc_sock c) (out_replies out) (tc_serializer c) (t_world s) = Some (z, w)"
  shows "\<exists>s'. seqM (call_handler f i) (handle_connection_msgs x i) s = (Ok (), s')
    \<and> routed i (c\<lparr>tc_handler := h, tc_serializer := z\<rparr>) (out_envelopes out) s s'
    \<and> t_world s' = w \<and> ready s s'"
proof -
  let ?s = "set_conn i (c\<lparr>tc_handler := h\<rparr>) s\<lparr>t_output := []\<rparr>"
  obtain s' where s': "forM out (connection_msg x i) ?s = (Ok (), s')"
    "routed i (c\<lparr>tc_handler := h, tc_serializer := z\<rparr>) (out_envelopes out) ?s s'" "t_world s' = w" "ready ?s s'"
    using conn_messages_routed [of ?s i "c\<lparr>tc_handler := h\<rparr>" x out z w] assms(1,4-6)
    by (auto simp: set_conn_def)
  have "seqM (call_handler f i) (handle_connection_msgs x i) s = forM out (connection_msg x i) ?s"
    using assms(1-3)
    by (simp add: call_handler_def handle_connection_msgs_def act_defs set_conn_def)
  moreover have "routed i (c\<lparr>tc_handler := h, tc_serializer := z\<rparr>) (out_envelopes out) s s'"
    using s'(2) by (simp add: routed_def set_conn_def)
  ultimately show ?thesis using s'(1,3,4) assms(3) by (auto simp: ready_def set_conn_def)
qed

text \<open>
  C35: As long as its writes succeed and the executor lives, the output of a connection handler is
  routed completely and in order: its envelopes go
  to the executor, its replies to the client's socket, and the correlation id of every envelope
  that has one gets a timeout in the slot of the wheel that expires last.
\<close>
theorem handler_output_is_routed:
  assumes "hm_get (t_connections s) i = Some c" and "f [] (tc_handler c) = Some (out, h)"
    and "t_output s = []" and "rx_alive (nd_executor_tx (t_node s))"
    and "tw_wf (request_timer_wheel s)"
    and "write_all x (tc_sock c) (out_replies out) (tc_serializer c) (t_world s) = Some (z, w)"
  shows "\<exists>s'. seqM (call_handler f i) (handle_connection_msgs x i) s = (Ok (), s')
    \<and> routed i (c\<lparr>tc_handler := h, tc_serializer := z\<rparr>) (out_envelopes out) s s'
    \<and> t_world s' = w"
  using handler_output_effect [where f = f, OF assms] by blast

theorem handler_output_is_routed_witness:
  "\<exists>s'. seqM (call_handler (api_handle_network_msg (ApiGetHistory (sample_pid 3))) 7)
      (handle_connection_msgs sample_tcp 7) (sample_api 6) = (Ok (), s')
    \<and> slot_keys (request_timer_wheel s') 10 = {cid_of_request sample_api_pid 7 0}"
proof -
  let ?env = "envelope_new (sample_pid 3) sample_api_pid (User GetHistory)
    (Some (cid_of_request sample_api_pid 7 0))"
  let ?c = "\<lparr>tc_id = 7, tc_handler = api_new sample_api_pid 7,
    tc_serializer = \<lparr>frame_reader = [], frame_writer = []\<rparr>, tc_sock = 6, timer_wheel_slot = 0\<rparr>"
  have call: "api_handle_network_msg (ApiGetHistory (sample_pid 3)) [] (tc_handler ?c)
      = Some ([ConnEnvelope ?env], (api_new sample_api_pid 7)\<lparr>total_requests := 1\<rparr>)"
    by (simp add: api_handle_network_msg_def api_new_envelope_def api_new_def)
  have wf: "tw_wf (request_timer_wheel (sample_api 6))"
    using tcp_invD(7) [OF sample_api_inv] .
  have s: "hm_get (t_connections (sample_api 6)) 7 = Some ?c" "t_output (sample_api 6) = []"
    "rx_alive (nd_executor_tx (t_node (sample_api 6)))"
    by (simp_all add: sample_api_def sample_start_def sample_node_def node_new_def)
  have wr: "write_all sample_tcp (tc_sock ?c) (out_replies [ConnEnvelope ?env]) (tc_serializer ?c)
      (t_world (sample_api 6)) = Some (tc_serializer ?c, t_world (sample_api 6))" by simp
  obtain s' where s': "seqM (call_handler (api_handle_network_msg (ApiGetHistory (sample_pid 3))) 7)
      (handle_connection_msgs sample_tcp 7) (sample_api 6) = (Ok (), s')"
    "\<forall>j. slot_keys (request_timer_wheel s') j = slot_keys (request_timer_wheel (sample_api 6)) j \<union>
       (if j = current_write (request_timer_wheel (sample_api 6)) then request_ids [?env] else {})"
    using handler_output_is_routed [where s = "sample_api 6" and i = 7 and c = ?c
        and f = "api_handle_network_msg (ApiGetHistory (sample_pid 3))", OF s(1) call s(2,3) wf wr]
    unfolding routed_def by auto
  then show ?thesis by (intro exI [of _ s']) (simp add: sample_api_def sample_request_keys)
qed

section \<open>Activity\<close>

text \<open>
  Activity on a connection restores its timeout: after a readable notification was handled,
  the connection is in the slot of the wheel that expires last, so that it takes as many silent
  ticks as the wheel has slots to close it.
\<close>
lemma activity_restores_timeout:
  assumes "tcp_inv x used K None s" and "connection_timer_wheel s = Some tw"
    and "n_event n \<noteq> Write" and "present (n_id n) s"
    and "handle_connection_notification x n s = (Ok (), s')"
  shows "\<exists>c tw'. hm_get (t_connections s') (n_id n) = Some c
    \<and> connection_timer_wheel s' = Some tw' \<and> timer_wheel_slot c = current_write tw
    \<and> n_id n \<in> due tw' (tw_size tw' - 1)"
proof -
  let ?i = "n_id n"
  let ?Q = "\<lambda>s. present ?i s \<and> connection_timer_wheel s = Some tw"
  obtain c where c: "hm_get (t_connections s) ?i = Some c" using assms(4) by (auto simp: present_def)
  obtain s1 where s1: "flush x n c s = (Ok (), s1)"
    "seqM (handle_readable x ?i) (update_connection_timeout ?i) s1 = (Ok (), s')"
    using assms(3,5) unfolding notification_halves [OF c]
    by (auto simp: seqM_def bindM_def split: prod.splits result.splits)
  obtain s2 where s2: "handle_readable x ?i s1 = (Ok (), s2)" "update_connection_timeout ?i s2 = (Ok (), s')"
    using s1(2) by (auto simp: seqM_def bindM_def split: prod.splits result.splits)
  have inv1: "tcp_inv x used K None s1" using flush_safe_at [OF assms(1) c] s1(1) by simp
  have inv2: "tcp_inv x used K None s2" using safeD [OF handle_readable_safe inv1 s2(1)] by blast
  have "keeps (present ?i) (flush x n c)" "keeps (\<lambda>s. connection_timer_wheel s = Some tw) (flush x n c)"
    by (auto simp: flush_def intro!: keeps_rules present.leaves wheel_kept.leaves)
  then have Q1: "present ?i s1" "connection_timer_wheel s1 = Some tw"
    using keepsD s1(1) assms(2,4) by fastforce+
  have Q2: "present ?i s2" by (rule keepsD [OF present.readable Q1(1) s2(1)])
  have W2: "connection_timer_wheel s2 = Some tw"
    by (rule keepsD [OF wheel_kept.readable Q1(2) s2(1)])
  obtain c2 where c2: "hm_get (t_connections s2) ?i = Some c2" using Q2 by (auto simp: present_def)
  show ?thesis
    by (rule update_connection_timeout_effect [OF inv2 W2 c2]) (use s2(2) in \<open>auto simp: set_conn_def\<close>)
qed

lemma activity_restores_timeout_witness:
  "\<exists>s' c. handle_connection_notification sample_tcp \<lparr>n_id = 7, n_event = Read\<rparr> (sample_api 5) = (Ok (), s')
    \<and> hm_get (t_connections s') 7 = Some c \<and> timer_wheel_slot c = 10"
proof -
  let ?tw = "the (connection_timer_wheel (sample_api 5))"
  let ?n = "\<lparr>n_id = 7, n_event = Read\<rparr>"
  have tw: "connection_timer_wheel (sample_api 5) = Some ?tw" by (simp add: sample_api_def)
  have p: "present (n_id ?n) (sample_api 5)" by (simp add: present_def sample_api_def)
  obtain s' where s': "handle_connection_notification sample_tcp ?n (sample_api 5) = (Ok (), s')"
    by (simp add: handle_connection_notification_def handle_readable_def conn_read_def act_defs
        update_connection_timeout_def conn_wheel_remove_def conn_wheel_insert_def set_conn_def
        msgpack_serializer_def msgpack_read_def sample_framing_def sample_api_def
        tw_remove_def tw_insert_def)
  have "\<exists>c tw'. hm_get (t_connections s') (n_id ?n) = Some c \<and> connection_timer_wheel s' = Some tw'
      \<and> timer_wheel_slot c = current_write ?tw \<and> n_id ?n \<in> due tw' (tw_size tw' - 1)"
    by (rule activity_restores_timeout [OF sample_api_inv tw _ p s']) simp
  with s' show ?thesis by (auto simp: sample_api_def)
qed

section \<open>Replies\<close>

text \<open>
  C36: An envelope for the server reaches the connection its correlation id names and no other:
  every other connection and all timeouts of connections stay as they are, and an envelope for a
  connection that is gone is ignored.
\<close>
theorem reply_reaches_one_connection:
  assumes "env_cid env = Some cid" and "connection cid = Some i"
  shows "(\<forall>k. k \<noteq> i \<longrightarrow> hm_get (t_connections (snd (tcp_handle_envelope x env s))) k
      = hm_get (t_connections s) k)
    \<and> connection_timer_wheel (snd (tcp_handle_envelope x env s)) = connection_timer_wheel s
    \<and> (hm_get (t_connections s) i = None \<longrightarrow> tcp_handle_envelope x env s = (Ok (), s))"
proof (intro conjI)
  obtain r s' where h: "tcp_handle_envelope x env s = (r, s')" by fastforce
  show "\<forall>k. k \<noteq> i \<longrightarrow> hm_get (t_connections (snd (tcp_handle_envelope x env s))) k
      = hm_get (t_connections s) k"
    using keepsD [OF others_kept.envelope [OF assms] _ h, of "hm_get (t_connections s)"] h by simp
  show "connection_timer_wheel (snd (tcp_handle_envelope x env s)) = connection_timer_wheel s"
    using keepsD [OF wheel_kept.envelope [OF assms] _ h, of "connection_timer_wheel s"] h by simp
  show "hm_get (t_connections s) i = None \<longrightarrow> tcp_handle_envelope x env s = (Ok (), s)"
    using assms by (simp add: tcp_handle_envelope_def withM_def ret_def)
qed

definition sample_reply :: "rabble_user_msg envelope" where
  "sample_reply = envelope_new sample_api_pid (sample_pid 3) (User OpComplete) (Some sample_request)"

theorem reply_reaches_one_connection_witness:
  "hm_get (t_connections (snd (tcp_handle_envelope sample_tcp sample_reply (sample_api 6)))) 8
   = hm_get (t_connections (sample_api 6)) 8"
proof -
  have "env_cid sample_reply = Some sample_request" "connection sample_request = Some 7"
    by (simp_all add: sample_reply_def envelope_new_def sample_request_def cid_of_request_def)
  from reply_reaches_one_connection [OF this, of sample_tcp "sample_api 6"] show ?thesis by simp
qed

section \<open>Timeouts of requests\<close>

text \<open>
  C37: When the reply to an expired request cannot be written, the requests that expired at the
  same tick are lost: the tick stops with the error, the handlers of the other connections are
  not called, and the broken connection stays in the map.
\<close>
theorem failed_write_loses_timeouts:
  assumes "tw_expire (request_timer_wheel s) = Some (cid # cids, tw)"
    and "connection cid = Some i"
    and "request_timed_out x cid (s\<lparr>request_timer_wheel := tw\<rparr>) = (Err e, s')"
  shows "request_tick x s = (Err e, s')
    \<and> (\<forall>k. k \<noteq> i \<longrightarrow> hm_get (t_connections s') k = hm_get (t_connections s) k)
    \<and> present i s'"
proof -
  let ?env = "\<lparr>env_to = t_pid s, env_from = t_pid s, env_msg = Timeout, env_cid = Some cid\<rparr>"
  let ?s = "s\<lparr>request_timer_wheel := tw\<rparr>"
  have env: "request_timed_out x cid ?s = tcp_handle_envelope x ?env ?s"
    using assms(2)
    by (cases "hm_get (t_connections s) i")
       (simp_all add: request_timed_out_def tcp_handle_envelope_def withM_def)
  note run = assms(3) [unfolded env]
  have others: "\<forall>k. k \<noteq> i \<longrightarrow> hm_get (t_connections s') k = hm_get (t_connections s) k"
    using keepsD [OF others_kept.envelope [OF _ assms(2)] _ run, of "hm_get (t_connections s)"] by simp
  have "present i ?s"
    using run assms(2)
    by (cases "hm_get (t_connections s) i")
       (simp_all add: tcp_handle_envelope_def withM_def ret_def present_def)
  then have "present i s'"
    using keepsD [OF present.envelope [OF _ assms(2)] _ run] by simp
  with others assms show ?thesis
    by (simp add: request_tick_def request_expire_def bindM_def seqM_def)
qed

text \<open>Two requests expire, the client of the first is gone: the second is never told.\<close>

definition sample_two_requests :: api_server where
  "sample_two_requests = sample_api 200
     \<lparr>request_timer_wheel := \<lparr>tw_size = 11,
        tw_data = [sample_request, cid_of_request sample_api_pid 8 0] # replicate 10 [],
        current_read = 0, current_write = 10\<rparr>\<rparr>"

theorem failed_write_loses_timeouts_witness:
  "\<exists>e s'. request_tick sample_tcp sample_two_requests = (Err e, s')
    \<and> hm_get (t_connections s') 8 = hm_get (t_connections sample_two_requests) 8 \<and> present 7 s'"
proof -
  let ?s = "sample_two_requests"
  obtain tw where tw: "tw_expire (request_timer_wheel ?s)
      = Some (sample_request # [cid_of_request sample_api_pid 8 0], tw)"
    by (simp add: sample_two_requests_def tw_expire_def swap_remove_def update_pointers_def)
  have c: "connection sample_request = Some 7" by (simp add: sample_request_def cid_of_request_def)
  obtain e s' where run: "request_timed_out sample_tcp sample_request (?s\<lparr>request_timer_wheel := tw\<rparr>)
      = (Err e, s')"
    using c
    by (simp add: request_timed_out_def sample_two_requests_def sample_api_def sample_start_def call_handler_def
        handle_connection_msgs_def connection_msg_def conn_send_def act_defs api_handlers_def
        api_handle_envelope_def msgpack_serializer_def msgpack_write_def frames_write_def
        sample_framing_def sample_format_def set_conn_def)
  show ?thesis using failed_write_loses_timeouts [OF tw c run] by auto
qed

end
