(* ===== verification/ServiceClaims.thy ===== *)
theory ServiceClaims
  imports TcpClaims
begin

text \<open>Properties of the service loop over any handler, and of the two serializers.\<close>

section \<open>The service loop\<close>

lemma drain_handled:
  assumes "\<forall>env \<in> set pre. env_msg env \<noteq> ShutdownMsg"
    and "forM pre (sh_envelope h) (sv_handler v) = (Ok (), s)"
  shows "drain_envelopes h (pre @ rest) v
    = drain_envelopes h rest (v\<lparr>sv_rx := (if pre = [] then sv_rx v else rest), sv_handler := s\<rparr>)"
  using assms
proof (induction pre arbitrary: v)
  case Nil
  have "v\<lparr>sv_rx := sv_rx v, sv_handler := sv_handler v\<rparr> = v" by simp
  with Nil show ?case by (cases v) (simp add: ret_def)
next
  case (Cons env pre)
  obtain r s1 where e: "sh_envelope h env (sv_handler v) = (r, s1)" by fastforce
  with Cons.prems have r: "r = Ok ()" and rest: "forM pre (sh_envelope h) s1 = (Ok (), s)"
    by (auto simp: seqM_def bindM_def split: result.splits)
  from Cons.IH [of "v\<lparr>sv_rx := pre @ rest, sv_handler := s1\<rparr>"] Cons.prems(1) e r rest
  show ?case by (cases pre) (auto simp: ret_def)
qed

text \<open>
  C38: A service handles its envelopes in the order they arrived, up to the first that is a
  shutdown or that its handler fails on, and leaves the ones after it in the channel. A shutdown
  ends the service, so that they are never handled; after a failure the service goes on and they
  wait for the next notification of the channel.
\<close>
theorem service_stops_at_first_failure:
  assumes "sv_rx v = pre @ env # rest" and "\<forall>env \<in> set pre. env_msg env \<noteq> ShutdownMsg"
    and "forM pre (sh_envelope h) (sv_handler v) = (Ok (), s1)"
    and "env_msg env = ShutdownMsg \<or> sh_envelope h env s1 = (Err e, s2)"
    and "n_id n = sv_rx_id v"
  shows "service_handle h (Notified n) v
    = (if env_msg env = ShutdownMsg then (Stopped, v\<lparr>sv_rx := rest, sv_handler := s1\<rparr>)
       else (if is_shutdown e then Stopped else Running, v\<lparr>sv_rx := rest, sv_handler := s2\<rparr>))"
  using assms drain_handled [OF assms(2,3), of "env # rest"]
  by (auto simp: service_handle_def service_notified_def handle_envelopes_def)

text \<open>
  The TCP service fails on an envelope without a correlation id; the reply behind it waits.
\<close>

theorem service_stops_at_first_failure_witness:
  "\<exists>v'. service_handle (tcp_service sample_tcp) (Notified \<lparr>n_id = 0, n_event = Read\<rparr>)
     (sample_service\<lparr>sv_rx := [envelope_new sample_api_pid (sample_pid 3) (User OpComplete) None,
       envelope_new sample_api_pid (sample_pid 3) (User OpComplete)
         (Some (cid_of_request sample_api_pid 4 0))]\<rparr>) = (Running, v') \<and> length (sv_rx v') = 1"
proof -
  let ?bad = "envelope_new sample_api_pid (sample_pid 3) (User OpComplete) None"
  let ?rest = "[envelope_new sample_api_pid (sample_pid 3) (User OpComplete)
    (Some (cid_of_request sample_api_pid 4 0))]"
  let ?v = "sample_service\<lparr>sv_rx := ?bad # ?rest\<rparr>"
  let ?h = "tcp_service sample_tcp"
  have none: "forM [] (sh_envelope ?h) (sv_handler ?v) = (Ok (), sv_handler ?v)" by (simp add: ret_def)
  obtain e where e: "env_msg ?bad = ShutdownMsg \<or> sh_envelope ?h ?bad (sv_handler ?v) = (Err e, sv_handler ?v)"
    and "\<not> is_shutdown e"
    by (simp add: tcp_service_def tcp_handle_envelope_def envelope_new_def fail_def)
  then show ?thesis
    using service_stops_at_first_failure [OF _ _ none e, of ?rest "\<lparr>n_id = 0, n_event = Read\<rparr>"]
    by (simp add: sample_service_def envelope_new_def)
qed

section \<open>Serializers\<close>

text \<open>
  C40: What one side writes, the other reads. When the frames that come in on a socket are the
  encodings of a list of messages that the format decodes again, reading until there is no
  message hands out exactly that list, in order, with either serializer.
\<close>
theorem serializer_round_trip:
  assumes "framing_laws x held coming sk"
    and "\<forall>m \<in> set ms. \<exists>b. fmt_encode fmt m = Some b \<and> fmt_decode fmt b = Some m"
    and "held (frame_reader z) @ coming sk w = map (\<lambda>m. the (fmt_encode fmt m)) ms"
    and "length ms < k"
  shows "read_all (msgpack_read x fmt sk) k z w = Some ms
    \<and> read_all (protobuf_read x fmt sk) k z w = Some ms"
proof -
  have dec: "fmt_decode fmt (the (fmt_encode fmt m)) = Some m" if "m \<in> set ms" for m
    using assms(2) that by fastforce
  then have "frames_pending fmt held coming sk z w = ms"
    unfolding frames_pending_def assms(3) by (simp add: map_idI)
  moreover have "frames_ok x fmt held coming sk z w"
    using assms(1) dec unfolding frames_ok_def assms(3) by auto
  ultimately show ?thesis
    using msgpack_source.read_all_pending protobuf_source.read_all_pending assms(4) by metis
qed

theorem serializer_round_trip_witness:
  "read_all (msgpack_read sample_framing sample_format 6) 3 \<lparr>frame_reader = [[1, 3]], frame_writer = []\<rparr>
     \<lparr>next_reg = 0, next_fd = 0, inbox = [(9, [7]), (6, [1, 4])]\<rparr>
   = Some [ApiGetHistory (sample_pid 3), ApiGetHistory (sample_pid 4)]"
proof -
  have i: "sample_index (sample_peer 3) = 3" "sample_index (sample_peer 4) = 4"
    by (simp_all add: sample_index_def sample_peer_def)
  show ?thesis
    by (rule conjunct1 [OF serializer_round_trip [OF sample_framing_laws]])
       (simp_all add: sample_format_def sample_pid_def i)
qed

end
