(* ===== verification/ChainCompletes.thy ===== *)
theory ChainCompletes
  imports ChainClaims ExecutorClaims
begin

text \<open>An operation that is sent to the head of an idle chain is recorded by every replica and answered.\<close>

section \<open>One replica\<close>

text \<open>What the turns of the executor leave alone while a chain works.\<close>

definition same_services :: "('t, 'q, 'c, 'x, 'v, 'w, 'f, 's) node_system
    \<Rightarrow> ('t, 'q, 'c, 'x, 'v, 'w, 'f, 's) node_system \<Rightarrow> bool" where
  "same_services S S' \<longleftrightarrow>
     service_senders (ns_exec S') = service_senders (ns_exec S)
     \<and> ex_world (ns_exec S') = ex_world (ns_exec S) \<and> ex_node (ns_exec S') = ex_node (ns_exec S)
     \<and> ex_pid (ns_exec S') = ex_pid (ns_exec S) \<and> dom (hm_get (processes (ns_exec S')))
       = dom (hm_get (processes (ns_exec S)))"

lemma same_services_trans: "same_services S S' \<Longrightarrow> same_services S' S'' \<Longrightarrow> same_services S S''"
  by (simp add: same_services_def)

lemma same_services_refl: "same_services S S"
  by (simp add: same_services_def)

lemma op_turn:
  assumes x: "runs_replicas (ne_exec e)" and depth: "0 < ne_depth e" and inv: "chain_system ps S"
    and run: "ns_exec_status S = Running" and rx: "ns_exec_rx S = [ExecEnvelope env]"
    and env: "env_msg env = User (Op v)" "env_cid env = Some c" "env_to env \<in> set ps"
    and r: "hm_get (processes (ns_exec S)) (env_to env) = Some r"
    and dest: "node (env_to (forwarded r v c)) = ex_node (ns_exec S)"
      "env_to (forwarded r v c) \<noteq> ex_pid (ns_exec S)"
  shows "\<exists>S'. node_step e S ExecutorTurn S' \<and> ns_exec_status S' = Running
    \<and> ns_exec_rx S' = [ExecEnvelope (forwarded r v c)]
    \<and> hm_get (processes (ns_exec S'))
        = (hm_get (processes (ns_exec S)))(env_to env \<mapsto> r\<lparr>r_history := r_history r @ [v]\<rparr>)
    \<and> same_services S S'"
proof -
  let ?ch = "empty_chan (ns_cluster_status S = Running)"
  let ?ex = "(ns_exec S)\<lparr>ex_tx := [], cluster_tx := ?ch\<rparr>"
  let ?ex1 = "?ex\<lparr>ex_metrics := (ex_metrics (ns_exec S))
    \<lparr>received_envelopes := received_envelopes (ex_metrics (ns_exec S)) + 1\<rparr>\<rparr>"
  let ?out = "forwarded r v c" and ?r = "r\<lparr>r_history := r_history r @ [v]\<rparr>"
  obtain d where d: "ne_depth e = Suc d" using depth by (cases "ne_depth e") auto
  have inv1: "chained ps [ExecEnvelope env] ?ex1" using inv rx by (simp add: chain_system_def)
  note pid = chained_pid [OF inv1 env(3)]
  have core: "exec_core ?ex1" using inv1 by (simp add: chained_def)
  have "proc_handle (ne_exec e) (env_msg env) (env_from env) (env_cid env) [] r = Some ([?out], ?r)"
    using x env by (simp add: runs_replicas_def replica_handle_op)
  then have out: "forM [?out] (route_output (ne_exec e) (route_d (ne_exec e) d))
      (?ex1\<lparr>processes := hm_insert (env_to env) ?r (processes (ns_exec S)), envelopes := []\<rparr>)
    = (Ok (), ?ex1\<lparr>processes := hm_insert (env_to env) ?r (processes (ns_exec S)), envelopes := [],
        ex_tx := [ExecEnvelope ?out]\<rparr>)"
    using dest by (simp add: route_output_def act_defs)
  have none: "envelopes (ns_exec S) = []" using core by (simp add: exec_core_def)
  have "exec_handle (ne_exec e) (ne_depth e) (ExecEnvelope env) ?ex
      = (Running, ?ex1\<lparr>processes := hm_insert (env_to env) ?r (processes (ns_exec S)), envelopes := [],
          ex_tx := [ExecEnvelope ?out]\<rparr>)"
    using pid r out none \<open>proc_handle (ne_exec e) _ _ _ _ _ = _\<close>
    by (simp add: exec_handle_def exec_dispatch_def exec_envelope_def d route_def route_to_process_def
        run_process_def act_defs del: forM.simps)
  then have "executor_turn e (ExecEnvelope env) S = S\<lparr>ns_exec := ?ex1\<lparr>processes := hm_insert (env_to env) ?r
      (processes (ns_exec S)), envelopes := [], ex_tx := [ExecEnvelope ?out]\<rparr>,
      ns_exec_status := Running, ns_exec_rx := [ExecEnvelope ?out], ns_cluster_rx := ns_cluster_rx S\<rparr>"
    using rx by (simp add: executor_turn_def empty_chan_def)
  moreover have "node_step e S ExecutorTurn (executor_turn e (ExecEnvelope env) S)"
    by (rule executor [OF run rx])
  ultimately show ?thesis using r by (intro exI [of _ "executor_turn e (ExecEnvelope env) S"])
    (auto simp: same_services_def)
qed

section \<open>The chain\<close>

lemma chain_runs:
  assumes e: "chain_env e" and dist: "distinct ps"
    and reply: "node (cid_pid c) = ex_node (ns_exec S)" "cid_pid c \<noteq> ex_pid (ns_exec S)"
  shows "ps = us @ vs \<Longrightarrow> vs \<noteq> [] \<Longrightarrow> chain_system ps S \<Longrightarrow> ns_exec_status S = Running \<Longrightarrow>
    ns_exec_rx S = [ExecEnvelope env] \<Longrightarrow> env_msg env = User (Op v) \<Longrightarrow> env_cid env = Some c \<Longrightarrow>
    env_to env = hd vs \<Longrightarrow>
    \<exists>S' f. node_steps e S (replicate (length vs) ExecutorTurn) S' \<and> ns_exec_status S' = Running
      \<and> ns_exec_rx S' = [ExecEnvelope (envelope_new (cid_pid c) f (User OpComplete) (Some c))]
      \<and> (\<forall>p. recorded (hm_get (processes (ns_exec S'))) p
          = recorded (hm_get (processes (ns_exec S))) p @ (if p \<in> set vs then [v] else []))
      \<and> same_services S S' \<and> chain_system ps S'"
  using reply
proof (induction vs arbitrary: us S env)
  case (Cons p vs)
  have x: "runs_replicas (ne_exec e)" "0 < ne_depth e" using e by (simp_all add: chain_env_def)
  let ?M = "hm_get (processes (ns_exec S))"
  have inv: "chained ps [ExecEnvelope env] ((ns_exec S)\<lparr>ex_tx := []\<rparr>)"
    using Cons.prems(3,5) by (simp add: chain_system_def)
  have p: "p \<in> set ps" "env_to env = p" using Cons.prems(1,8) by auto
  have wired: "wired ps ?M" using inv by (simp add: chained_def)
  obtain r where r: "?M p = Some r" using wiredD(1) [OF wired p(1)] by blast
  let ?o = "forwarded r v c" and ?r = "r\<lparr>r_history := r_history r @ [v]\<rparr>"
  have rec: "recorded (?M(p \<mapsto> ?r)) k = recorded ?M k @ (if k = p then [v] else [])" for k
    using r by (simp add: recorded_def)
  have next_hd: "r_next r = (case vs of [] \<Rightarrow> None | t # ts \<Rightarrow> Some t)"
  proof (cases vs)
    case Nil
    have "\<not> link ps p t" for t
    proof
      assume "link ps p t"
      then obtain i where i: "Suc i < length ps" "p = ps ! i" unfolding link_nth by blast
      have "ps ! length us = p" "length ps = Suc (length us)" using Cons.prems(1) Nil by simp_all
      with i dist have "i = length us" by (metis Suc_lessD lessI nth_eq_iff_index_eq)
      with i \<open>length ps = Suc (length us)\<close> show False by simp
    qed
    then show ?thesis using wiredD(4) [OF wired r p(1)] Nil by (cases "r_next r") auto
  next
    case (Cons t ts)
    then have "link ps p t" using \<open>ps = us @ p # vs\<close> unfolding link_def by blast
    from wiredD(2) [OF wired r this] Cons show ?thesis by simp
  qed
  have dest: "node (env_to ?o) = ex_node (ns_exec S)" "env_to ?o \<noteq> ex_pid (ns_exec S)"
  proof -
    have "vs = t # ts \<Longrightarrow> t \<in> set ps" for t ts using Cons.prems(1) by simp
    with chained_pid [OF inv] Cons.prems(9,10) next_hd
    show "node (env_to ?o) = ex_node (ns_exec S)" "env_to ?o \<noteq> ex_pid (ns_exec S)"
      by (auto simp: forwarded_def split: list.splits)
  qed
  have p_env: "env_to env \<in> set ps" "?M (env_to env) = Some r" using p r by simp_all
  obtain S1 where S1: "node_step e S ExecutorTurn S1" "ns_exec_status S1 = Running"
    "ns_exec_rx S1 = [ExecEnvelope ?o]" "hm_get (processes (ns_exec S1)) = ?M(p \<mapsto> ?r)" "same_services S S1"
    using op_turn [OF x Cons.prems(3,4,5,6,7) p_env dest] p(2) by blast
  have inv1: "chain_system ps S1" by (rule node_step_chained [OF e Cons.prems(3) _ S1(1)]) simp_all
  show ?case
  proof (cases vs)
    case Nil
    then have "?o = envelope_new (cid_pid c) (r_pid r) (User OpComplete) (Some c)"
      using next_hd by (simp add: forwarded_def)
    moreover have "node_steps e S [ExecutorTurn] S1" using S1(1) by (blast intro: node_steps.intros)
    moreover have "\<forall>k. recorded (hm_get (processes (ns_exec S1))) k
        = recorded ?M k @ (if k \<in> set (p # vs) then [v] else [])"
      unfolding S1(4) using rec Nil by simp
    ultimately show ?thesis
      using S1(2,3,5) inv1 Nil by (intro exI [of _ S1] exI [of _ "r_pid r"]) simp
  next
    case (Cons t ts)
    then have o: "?o = envelope_new t (r_pid r) (User (Op v)) (Some c)"
      using next_hd by (simp add: forwarded_def)
    have node: "node (cid_pid c) = ex_node (ns_exec S1)" "cid_pid c \<noteq> ex_pid (ns_exec S1)"
      using S1(5) Cons.prems(9,10) by (simp_all add: same_services_def)
    have pre: "ps = (us @ [p]) @ vs" "vs \<noteq> []" "env_msg ?o = User (Op v)" "env_cid ?o = Some c"
      "env_to ?o = hd vs"
      using \<open>ps = us @ p # vs\<close> Cons o by simp_all
    obtain S' f where S': "node_steps e S1 (replicate (length vs) ExecutorTurn) S'"
      "ns_exec_status S' = Running"
      "ns_exec_rx S' = [ExecEnvelope (envelope_new (cid_pid c) f (User OpComplete) (Some c))]"
      "\<forall>k. recorded (hm_get (processes (ns_exec S'))) k
          = recorded (hm_get (processes (ns_exec S1))) k @ (if k \<in> set vs then [v] else [])"
      "same_services S1 S'" "chain_system ps S'"
      using Cons.IH [OF pre(1,2) inv1 S1(2,3) pre(3-5) node] by blast
    have "p \<notin> set vs" using dist Cons.prems(1) by simp
    then have "recorded (hm_get (processes (ns_exec S'))) k
        = recorded ?M k @ (if k \<in> set (p # vs) then [v] else [])" for k
      using S'(4) [unfolded S1(4)] rec by (auto simp del: fun_upd_apply)
    moreover have "node_steps e S (replicate (length (p # vs)) ExecutorTurn) S'"
      using S1(1) S'(1) by (simp add: node_steps.turn)
    ultimately show ?thesis using S' same_services_trans [OF S1(5) S'(5)] by blast
  qed
qed simp

end
