(* ===== verification/ApiChain.thy ===== *)
theory ApiChain
  imports ChainCompletes TcpClaims2
begin

text \<open>
  The whole way of a client's operation in the integration tests: from its connection through the
  TCP server into the node, down a chain of replicas, and back to the same connection.
\<close>

section \<open>The reply\<close>

lemma service_turn:
  assumes "0 < ne_depth e" and "ns_exec_status S = Running" and "ns_exec_rx S = [ExecEnvelope env]"
    and "node (env_to env) = ex_node (ns_exec S)" and "env_to env \<noteq> ex_pid (ns_exec S)"
    and "pname (env_to env) \<noteq> ''cluster_server''"
    and "hm_get (processes (ns_exec S)) (env_to env) = None"
    and "hm_get (service_senders (ns_exec S)) (env_to env) = Some tx"
    and "svc_send (ne_exec e) tx env (ex_world (ns_exec S)) = (True, w)"
  shows "\<exists>S'. node_step e S ExecutorTurn S' \<and> ns_exec_status S' = Running \<and> ns_exec_rx S' = []
    \<and> ex_world (ns_exec S') = w \<and> processes (ns_exec S') = processes (ns_exec S)"
proof -
  obtain d where d: "ne_depth e = Suc d" using assms(1) by (cases "ne_depth e") auto
  have "node_step e S ExecutorTurn (executor_turn e (ExecEnvelope env) S)"
    by (rule executor [OF assms(2,3)])
  then show ?thesis
    using assms(3-9)
    by (intro exI [of _ "executor_turn e (ExecEnvelope env) S"])
       (simp add: executor_turn_def exec_handle_def exec_dispatch_def exec_envelope_def d route_def
          route_to_process_def run_process_def route_to_service_def act_defs)
qed

text \<open>An operation sent to the head of an idle chain is recorded everywhere and answered.\<close>

lemma operation_completes:
  assumes e: "chain_env e" and up: "receiver_up (ne_exec e) tx" and inv: "chain_system ps S"
    and run: "ns_exec_status S = Running" and rx: "ns_exec_rx S = [ExecEnvelope env]" and ps: "ps \<noteq> []"
    and env: "env_to env = hd ps" "env_msg env = User (Op v)" "env_cid env = Some c"
    and svc: "node (cid_pid c) = ex_node (ns_exec S)" "cid_pid c \<noteq> ex_pid (ns_exec S)"
      "pname (cid_pid c) \<noteq> ''cluster_server''" "hm_get (processes (ns_exec S)) (cid_pid c) = None"
      "hm_get (service_senders (ns_exec S)) (cid_pid c) = Some tx"
  shows "\<exists>S' f. node_steps e S (replicate (Suc (length ps)) ExecutorTurn) S'
    \<and> ns_exec_status S' = Running \<and> ns_exec_rx S' = []
    \<and> (\<forall>p. recorded (hm_get (processes (ns_exec S'))) p
        = recorded (hm_get (processes (ns_exec S))) p @ (if p \<in> set ps then [v] else []))
    \<and> svc_send (ne_exec e) tx (envelope_new (cid_pid c) f (User OpComplete) (Some c)) (ex_world (ns_exec S))
        = (True, ex_world (ns_exec S'))"
proof -
  have dist: "distinct ps" using inv by (simp add: chain_system_def chained_def chain_pids_def)
  obtain S1 f where S1: "node_steps e S (replicate (length ps) ExecutorTurn) S1"
    "ns_exec_status S1 = Running"
    "ns_exec_rx S1 = [ExecEnvelope (envelope_new (cid_pid c) f (User OpComplete) (Some c))]"
    "\<forall>p. recorded (hm_get (processes (ns_exec S1))) p
        = recorded (hm_get (processes (ns_exec S))) p @ (if p \<in> set ps then [v] else [])"
    "same_services S S1"
    using chain_runs [OF e dist svc(1,2), of "[]" ps env v] inv run rx ps env by auto
  let ?env = "envelope_new (cid_pid c) f (User OpComplete) (Some c)"
  obtain w where w: "svc_send (ne_exec e) tx ?env (ex_world (ns_exec S)) = (True, w)"
    using up by (metis receiver_up_def prod.collapse)
  have none: "hm_get (processes (ns_exec S1)) (cid_pid c) = None"
    using S1(5) svc(4) unfolding same_services_def by (metis domIff)
  have "0 < ne_depth e" using e by (simp add: chain_env_def)
  from service_turn [OF this S1(2,3), of tx w] obtain S' where
    S': "node_step e S1 ExecutorTurn S'" "ns_exec_status S' = Running" "ns_exec_rx S' = []"
    "ex_world (ns_exec S') = w" "processes (ns_exec S') = processes (ns_exec S1)"
    using S1(5) svc w none by (auto simp: same_services_def)
  have "node_steps e S (replicate (length ps) ExecutorTurn @ [ExecutorTurn]) S'"
    using S1(1) S'(1) by (auto simp: node_steps_append intro: node_steps.intros)
  then have "node_steps e S (replicate (Suc (length ps)) ExecutorTurn) S'"
    by (simp add: replicate_append_same)
  with S' S1(4) w show ?thesis by (intro exI [of _ S'] exI [of _ f]) simp
qed

section \<open>From the client and back\<close>

text \<open>
  C8: A client's operation on an idle chain is recorded by every replica and answered. The TCP
  server turns the client's message into an envelope for the head of the chain, with a
  correlation id that names the connection; the node takes one turn of the executor for each
  replica and one to reach the service; when the service hands the reply to the server, the
  client is sent \<open>OpComplete\<close> on the connection the operation came on.
\<close>
theorem client_operation_is_answered:
  fixes s :: "(rabble_user_msg, 'q, 'y, api_client_msg, api_handler, 'z, 'u) tcp_server"
  assumes "t_handler x = api_handlers" and "t_output s = []" and "rx_alive (nd_executor_tx (t_node s))"
    and "tw_wf (request_timer_wheel s)"
    and c: "hm_get (t_connections s) i = Some c" "ah_id (tc_handler c) = i"
    and "ser_write (t_serializer x) (tc_sock c) (Some ApiOpComplete) (tc_serializer c) (t_world s) = (Inr b, z, u)"
    and "chain_env e" and "receiver_up (ne_exec e) tx" and "chain_system ps S" and "ps \<noteq> []"
    and "ns_exec_status S = Running" and "ns_exec_rx S = []"
    and svc: "p = ah_pid (tc_handler c)" "node p = ex_node (ns_exec S)" "p \<noteq> ex_pid (ns_exec S)"
      "pname p \<noteq> ''cluster_server''" "hm_get (processes (ns_exec S)) p = None"
      "hm_get (service_senders (ns_exec S)) p = Some tx"
  shows "\<exists>s1 env S' reply s2 c2.
      seqM (call_handler (ch_network (t_handler x) (ApiOp (hd ps) v)) i) (handle_connection_msgs x i) s
        = (Ok (), s1)
    \<and> sent (nd_executor_tx (t_node s1)) = sent (nd_executor_tx (t_node s)) @ [ExecEnvelope env]
    \<and> node_steps e S (Request (ReqSend env) # replicate (Suc (length ps)) ExecutorTurn) S'
    \<and> ns_exec_status S' = Running \<and> ns_exec_rx S' = []
    \<and> (\<forall>r. recorded (hm_get (processes (ns_exec S'))) r
        = recorded (hm_get (processes (ns_exec S))) r @ (if r \<in> set ps then [v] else []))
    \<and> svc_send (ne_exec e) tx reply (ex_world (ns_exec S)) = (True, ex_world (ns_exec S'))
    \<and> tcp_handle_envelope x reply s1 = (Ok (), s2) \<and> t_world s2 = u
    \<and> hm_get (t_connections s2) = (hm_get (t_connections s))(i \<mapsto> c2) \<and> tc_serializer c2 = z"
proof -
  let ?h = "tc_handler c"
  let ?cid = "cid_of_request (ah_pid ?h) (ah_id ?h) (total_requests ?h)"
  let ?env = "envelope_new (hd ps) (ah_pid ?h) (User (Op v)) (Some ?cid)"
  let ?h1 = "?h\<lparr>total_requests := total_requests ?h + 1\<rparr>"
  let ?f = "ch_network (t_handler x) (ApiOp (hd ps) v)"
  have cid: "cid_pid ?cid = p" "connection ?cid = Some i"
    using c(2) svc(1) by (simp_all add: cid_of_request_def)
  have f: "?f [] ?h = Some ([ConnEnvelope ?env], ?h1)"
    using assms(1) by (simp add: api_handlers_def api_handle_network_msg_def api_new_envelope_def)
  have w0: "write_all x (tc_sock c) (out_replies [ConnEnvelope ?env]) (tc_serializer c) (t_world s)
      = Some (tc_serializer c, t_world s)" by simp
  obtain s1 where s1: "seqM (call_handler ?f i) (handle_connection_msgs x i) s = (Ok (), s1)"
    "routed i (c\<lparr>tc_handler := ?h1, tc_serializer := tc_serializer c\<rparr>) [?env] s s1"
    "t_world s1 = t_world s" "ready s s1"
    using handler_output_effect [where f = ?f, OF c(1) f assms(2-4) w0] by auto
  let ?S1 = "S\<lparr>ns_exec_rx := [ExecEnvelope ?env]\<rparr>"
  have step: "node_step e S (Request (ReqSend ?env)) ?S1"
    using assms(12,13)
    by (simp add: request_turn_iff request_turn_def node_send_def node_new_def empty_chan_def
        send_executor_result)
  have dist: "distinct ps" using assms(10) by (simp add: chain_system_def chained_def chain_pids_def)
  have "hd ps \<notin> set (tl ps)" using dist assms(11) by (cases ps) auto
  then have inv1: "chain_system ps ?S1"
    using node_step_chained [OF assms(8,10) _ step] by (simp add: inner_def)
  obtain S' g where S': "node_steps e ?S1 (replicate (Suc (length ps)) ExecutorTurn) S'"
    "ns_exec_status S' = Running" "ns_exec_rx S' = []"
    "\<forall>r. recorded (hm_get (processes (ns_exec S'))) r
        = recorded (hm_get (processes (ns_exec S))) r @ (if r \<in> set ps then [v] else [])"
    "svc_send (ne_exec e) tx (envelope_new p g (User OpComplete) (Some ?cid)) (ex_world (ns_exec S))
        = (True, ex_world (ns_exec S'))"
    using operation_completes [OF assms(8,9) inv1, of ?env v ?cid] assms(11,12) svc cid by auto
  let ?reply = "envelope_new p g (User OpComplete) (Some ?cid)"
  let ?c1 = "c\<lparr>tc_handler := ?h1, tc_serializer := tc_serializer c\<rparr>"
  let ?k = "ch_envelope (t_handler x) ?reply"
  have c1: "hm_get (t_connections s1) i = Some ?c1" using s1(2) by (simp add: routed_def)
  have k: "?k [] (tc_handler ?c1) = Some ([ConnClient ApiOpComplete ?cid], ?h1)"
    using assms(1) by (simp add: api_handlers_def api_handle_envelope_def)
  have r1: "t_output s1 = []" "rx_alive (nd_executor_tx (t_node s1))" "tw_wf (request_timer_wheel s1)"
    using s1(4) assms(2-4) by (simp_all add: ready_def)
  have w1: "write_all x (tc_sock ?c1) (out_replies [ConnClient ApiOpComplete ?cid]) (tc_serializer ?c1)
      (t_world s1) = Some (z, u)"
    using assms(7) s1(3) by simp
  obtain s2 where s2: "seqM (call_handler ?k i) (handle_connection_msgs x i) s1 = (Ok (), s2)"
    "routed i (?c1\<lparr>tc_handler := ?h1, tc_serializer := z\<rparr>) [] s1 s2" "t_world s2 = u"
    using handler_output_effect [where f = ?k, OF c1 k r1 w1] by auto
  have "tcp_handle_envelope x ?reply s1 = (Ok (), s2)"
    using s2(1) c1 cid(2) by (simp add: tcp_handle_envelope_def withM_def)
  moreover have "hm_get (t_connections s2)
      = (hm_get (t_connections s))(i \<mapsto> ?c1\<lparr>tc_handler := ?h1, tc_serializer := z\<rparr>)"
    using s1(2) s2(2) by (simp add: routed_def)
  moreover have "node_steps e S (Request (ReqSend ?env) # replicate (Suc (length ps)) ExecutorTurn) S'"
    using step S'(1) by (rule node_steps.turn)
  moreover have "sent (nd_executor_tx (t_node s1)) = sent (nd_executor_tx (t_node s)) @ [ExecEnvelope ?env]"
    using s1(2) by (simp add: routed_def)
  ultimately show ?thesis
    using s1(1) S' s2(3)
    by (intro exI [of _ s1] exI [of _ ?env] exI [of _ S'] exI [of _ ?reply] exI [of _ s2]
        exI [of _ "?c1\<lparr>tc_handler := ?h1, tc_serializer := z\<rparr>"]) simp
qed

text \<open>The API server of the integration tests on a node that runs the test's chain.\<close>

definition sample_chain_system :: "(rabble_user_msg, replica, sample_wheel, nat, sample_world,
    sample_net, sample_frames, node_id list) node_system" where
  "sample_chain_system =
     \<lparr>ns_id = sample_peer 5,
      ns_exec = (executor_new replica_ext (sample_peer 5) (empty_chan True) [])
        \<lparr>processes := map (\<lambda>i. (create_replica_pids (sample_peer 5) ! i,
             replica_at (create_replica_pids (sample_peer 5)) i)) [2, 1, 0],
         service_senders := [(sample_api_pid, 7)]\<rparr>,
      ns_exec_rx = [], ns_exec_status = Running,
      ns_cluster = sample_server 3, ns_cluster_rx = [], ns_cluster_status = Running,
      ns_poller = True\<rparr>"

lemma sample_chain_system_ok: "chain_system (create_replica_pids (sample_peer 5)) sample_chain_system"
proof -
  let ?ps = "create_replica_pids (sample_peer 5)"
  let ?s = "(ns_exec sample_chain_system)\<lparr>ex_tx := []\<rparr>"
  have "[0..<length ?ps] = [0, 1, 2]" by (simp add: create_replica_pids_def upt_rec)
  then have "hm_get (processes ?s) = fold (\<lambda>i M. M(?ps ! i \<mapsto> replica_at ?ps i)) [0..<length ?ps] (\<lambda>_. None)"
    by (simp add: sample_chain_system_def create_replica_pids_def fun_eq_iff numeral_2_eq_2)
  moreover have "ex_node ?s = sample_peer 5" "exec_core ?s"
    by (simp_all add: sample_chain_system_def executor_new_def exec_core_def create_replica_pids_def
        sample_api_pid_def hm_ok_def)
  ultimately have "chained ?ps [] ?s"
    using create_replica_pids_chain by (intro spawned_chained) simp_all
  then show ?thesis by (simp add: chain_system_def sample_chain_system_def)
qed

theorem client_operation_is_answered_witness:
  "\<exists>s1 env S' reply s2 c2.
     seqM (call_handler (ch_network api_handlers (ApiOp (hd (create_replica_pids (sample_peer 5))) 4)) 7)
       (handle_connection_msgs sample_tcp 7) (sample_api 6) = (Ok (), s1)
     \<and> node_steps sample_node_env sample_chain_system
          (Request (ReqSend env) # replicate 4 ExecutorTurn) S'
     \<and> (\<forall>r \<in> set (create_replica_pids (sample_peer 5)).
          recorded (hm_get (processes (ns_exec S'))) r = [4])
     \<and> ex_world (ns_exec S') = [(7, reply)]
     \<and> tcp_handle_envelope sample_tcp reply s1 = (Ok (), s2)
     \<and> hm_get (t_connections s2) 7 = Some c2"
proof -
  let ?ps = "create_replica_pids (sample_peer 5)" and ?s = "sample_api 6" and ?S = sample_chain_system
  obtain c where c: "hm_get (t_connections ?s) 7 = Some c" "tc_handler c = api_new sample_api_pid 7"
    by (simp add: sample_api_def)
  have h: "ah_id (tc_handler c) = 7" "sample_api_pid = ah_pid (tc_handler c)"
    using c(2) by (simp_all add: api_new_def)
  obtain b z u where w: "ser_write (t_serializer sample_tcp) (tc_sock c) (Some ApiOpComplete)
      (tc_serializer c) (t_world ?s) = (Inr b, z, u)"
    using c(1) by (auto simp: sample_api_def msgpack_serializer_def msgpack_write_def sample_format_def
        frames_write_def sample_framing_def)
  have s: "t_handler sample_tcp = api_handlers" "t_output ?s = []" "rx_alive (nd_executor_tx (t_node ?s))"
    "tw_wf (request_timer_wheel ?s)"
    using tcp_invD(7) [OF sample_api_inv]
    by (simp_all add: sample_api_def sample_start_def sample_node_def node_new_def)
  have up: "receiver_up (ne_exec sample_node_env) tx" for tx using replica_receiver_up by (simp add: sample_node_env_def)
  have ne: "?ps \<noteq> []" by (simp add: create_replica_pids_def)
  have S: "ns_exec_status ?S = Running" "ns_exec_rx ?S = []"
    by (simp_all add: sample_chain_system_def)
  have svc: "node sample_api_pid = ex_node (ns_exec ?S)" "sample_api_pid \<noteq> ex_pid (ns_exec ?S)"
    "pname sample_api_pid \<noteq> ''cluster_server''" "hm_get (processes (ns_exec ?S)) sample_api_pid = None"
    "hm_get (service_senders (ns_exec ?S)) sample_api_pid = Some 7"
    by (simp_all add: sample_chain_system_def sample_api_pid_def executor_new_def executor_pid_def
        create_replica_pids_def)
  from client_operation_is_answered [OF s c(1) h(1) w sample_chain_env up sample_chain_system_ok ne S h(2) svc,
      where v = 4]
  obtain s1 env S' reply s2 c2 where r:
    "seqM (call_handler (ch_network (t_handler sample_tcp) (ApiOp (hd ?ps) 4)) 7)
       (handle_connection_msgs sample_tcp 7) ?s = (Ok (), s1)"
    "node_steps sample_node_env ?S (Request (ReqSend env) # replicate (Suc (length ?ps)) ExecutorTurn) S'"
    "\<forall>r. recorded (hm_get (processes (ns_exec S'))) r
        = recorded (hm_get (processes (ns_exec ?S))) r @ (if r \<in> set ?ps then [4] else [])"
    "svc_send (ne_exec sample_node_env) 7 reply (ex_world (ns_exec ?S)) = (True, ex_world (ns_exec S'))"
    "tcp_handle_envelope sample_tcp reply s1 = (Ok (), s2)"
    "hm_get (t_connections s2) = (hm_get (t_connections ?s))(7 \<mapsto> c2)"
    by (elim exE conjE) (rule that)
  have "recorded (hm_get (processes (ns_exec ?S))) r = []" if "r \<in> set ?ps" for r
    using that by (auto simp: sample_chain_system_def recorded_def replica_at_def replica_new_def
        create_replica_pids_def)
  moreover have four: "Suc (length ?ps) = 4" by (simp add: create_replica_pids_def)
  moreover have "ex_world (ns_exec S') = [(7, reply)]"
    using r(4) by (simp add: sample_chain_system_def executor_new_def sample_node_env_def replica_ext_def)
  ultimately show ?thesis
    using r four by (intro exI [of _ s1] exI [of _ env] exI [of _ S'] exI [of _ reply] exI [of _ s2] exI [of _ c2]) simp
qed

end
