(* ===== verification/Histogram.thy ===== *)
theory Histogram
  imports Prelude
begin

text \<open>
  The histogram of \<open>src/histogram.rs\<close>: a histogram of the \<open>hdrsample\<close> crate, which is the
  parameter \<open>'h\<close>, with the unit of its samples. \<open>lib.rs\<close> does not declare the module.
\<close>

datatype time_unit = Seconds | Milliseconds | Microseconds | Nanoseconds

record 'h histogram =
  unit :: time_unit
  histogram :: 'h

text \<open>The derived \<open>Debug\<close> text of a unit is its name; that of a histogram shows the unit only.\<close>

fun time_unit_debug :: "time_unit \<Rightarrow> string" where
  "time_unit_debug Seconds = ''Seconds''"
| "time_unit_debug Milliseconds = ''Milliseconds''"
| "time_unit_debug Microseconds = ''Microseconds''"
| "time_unit_debug Nanoseconds = ''Nanoseconds''"

definition histogram_debug :: "'h histogram \<Rightarrow> string" where
  "histogram_debug h = ''Histogram ('' @ time_unit_debug (unit h) @ '')''"

lemma histogram_debug_unit: "histogram_debug h = histogram_debug h' \<longleftrightarrow> unit h = unit h'"
  by (cases "unit h"; cases "unit h'") (simp_all add: histogram_debug_def)

end
