(* ===== verification/Spec2Isabelle.thy ===== *)
theory Spec2Isabelle
  imports ActorClaims ChainNetClaims CoreClaims ExecutorClaims ClusterClaims2 ClusterEquiv ClusterPeers ClusterTyped TcpTyped GossipClaims
    TcpClaims2 ServiceClaims NodePeers ApiChain Histogram
begin

text \<open>
  A verification library for \<open>rabble\<close>, a Rust library for clusters of nodes that run
  processes and services. The names of files below are those under \<open>src/src\<close>.

  The program. A node runs three threads. The executor (\<open>executor/executor.rs\<close>) owns the
  processes and routes envelopes to processes, services, itself and the cluster server. The
  cluster server (\<open>cluster/server.rs\<close>) keeps the connections to the other nodes and the
  membership, and carries envelopes between nodes. The poller sends the notifications of the
  kernel to the cluster server. They share nothing but two channels, one into the executor and
  one into the cluster server. Services (\<open>service/*.rs\<close>) run in threads of their own and talk
  to the node through its handle (\<open>node.rs\<close>); the TCP server handler is the service the library
  offers. \<open>rouse\<close> in \<open>lib.rs\<close> starts a node.

  The model. Code is a state transformer \<open>state \<Rightarrow> (error, value) result \<times> state\<close> of \<open>Prelude\<close>, where
  a result is \<open>Ok\<close>, \<open>Err\<close> for an error the code returns, or \<open>Panic\<close> for a panic of its thread
  (an \<open>unwrap\<close>, an index out of range, a stack overflow, user code). Structs are records,
  enums are datatypes, \<open>usize\<close>, \<open>u64\<close> and \<open>i64\<close> are words of 64 bits, a \<open>HashMap\<close> is an
  association list of distinct keys, a \<open>HashSet\<close> a list of distinct elements, and a
  channel is the list of messages sent and a flag that its receiver is alive. Counters of metrics
  and of requests wrap around, as in a release build; sizes and positions of a timer wheel are
  natural numbers, and the underflow of an empty wheel, which no caller makes, is a panic as in a
  debug build.

  Theories, in the order of their imports:
  \<^item> \<open>Prelude\<close>: results, actions and their safety rules (\<open>safe\<close>: keeps an invariant and does not
    panic; \<open>keeps\<close>: keeps it), the locales \<open>loop_contract\<close> and \<open>message_loop\<close> of threads that handle one message
    after another, channels, hash maps and sets, splitting of strings.
  \<^item> \<open>Ids\<close> (\<open>node_id.rs\<close>, \<open>pid.rs\<close>, \<open>correlation_id.rs\<close>), \<open>Messages\<close> (\<open>msg.rs\<close>, \<open>envelope.rs\<close>,
    \<open>metrics.rs\<close> and the messages, status and metrics of both servers), \<open>Errors\<close> (\<open>errors.rs\<close>),
    \<open>TimerWheel\<close> (\<open>timer_wheel.rs\<close>), \<open>Membership\<close> (\<open>members.rs\<close>).
  \<^item> \<open>Executor\<close> and \<open>ExecutorProps\<close>: the executor's state and every operation; its invariant.
    \<open>Replica\<close>: the process of \<open>tests/utils/replica.rs\<close>, which keeps the contract.
  \<^item> \<open>Cluster\<close>: the cluster server's state and every handler. \<open>ClusterInv\<close> and \<open>ClusterSafe\<close>: its
    invariant and that every handler keeps it without a panic. \<open>ClusterSends\<close>: what it sends to
    the executor. \<open>ClusterSample\<close>: a concrete kernel, codec and membership set.
  \<^item> \<open>NodeApi\<close> (\<open>node.rs\<close>), \<open>Serialize\<close> (\<open>serialize/*.rs\<close>).
  \<^item> \<open>TcpServer\<close> (\<open>service/tcp_server_handler.rs\<close>, \<open>service/connection_handler.rs\<close>), \<open>Service\<close>
    (\<open>service/service.rs\<close>, \<open>service/service_handler.rs\<close>), \<open>TcpInv\<close> and \<open>TcpSafe\<close>: the
    handler's invariant and that every call keeps it without a panic. \<open>ApiServer\<close>: the start and
    the connection handler of \<open>tests/utils/api_server.rs\<close>, and a concrete outside to run it on.
  \<^item> \<open>NodeSystem\<close>: a node as a whole (\<open>lib.rs\<close>), a step relation whose turns are a message handled
    by one thread, a batch of notifications, or a request through the handle.
  \<^item> \<open>Chain\<close> and \<open>ChainRun\<close>: replicas spawned in a chain, as
    \<open>tests/single_node_chain_replication.rs\<close> does, and the invariant that keeps them in step, which
    every message the executor handles preserves. \<open>ChainCompletes\<close>: an operation runs down an
    idle chain in one turn of the executor for each replica. \<open>Histogram\<close> (\<open>histogram.rs\<close>).
  \<^item> \<open>ChainActors\<close>: the invariant of a chain spread over nodes, as one node's machine of actors
    sees it. \<open>ChainCluster\<close>: what a turn of a cluster server does to the operations of the chain.
    \<open>ChainNet\<close>: the nodes of a chain and the frames between them as a step relation, and the
    invariant of the whole.
  \<^item> \<open>Gossip\<close>: what one turn of a cluster server does to its membership set and to the frames on
    its connections. \<open>GossipNet\<close>: a cluster of any number of nodes as a step relation over such
    turns, and the invariant that no change of a membership is lost on the way. \<open>GossipEnds\<close>: a
    potential that every read of a delta lowers.
  \<^item> \<open>Actors\<close>: a node as the library's user sees it, an abstract machine of named actors with
    mailboxes, calls of the node's handle, timers and letters on the way. \<open>ActorSteps\<close>: what each
    operation of the executor does as steps of that machine. \<open>ActorClaims\<close>: which events each
    turn of a node is (\<open>acts\<close>, \<open>acts_along\<close>).
  \<^item> \<open>Outcomes\<close>: the judgements \<open>only\<close> and \<open>guarded\<close>, which say what invariant an action keeps and
    which panics it may end with.
  \<^item> \<open>ActorClaims\<close>, \<open>CoreClaims\<close>, \<open>ExecutorClaims\<close>, \<open>ClusterClaims\<close>, \<open>ClusterClaims2\<close>,
    \<open>ClusterEquiv\<close>, \<open>ClusterPeers\<close>, \<open>ClusterTyped\<close>, \<open>TcpTyped\<close>, \<open>GossipClaims\<close>, \<open>TcpClaims\<close>, \<open>TcpClaims2\<close>,
    \<open>ServiceClaims\<close>, \<open>NodeClaims\<close>, \<open>NodeClaims2\<close>,
    \<open>NodePeers\<close>, \<open>ChainClaims\<close>, \<open>ChainNetClaims\<close>, \<open>ApiChain\<close>: the properties, each with an example it applies to.

  State. \<open>cluster\<close> has the fields of \<open>ClusterServer\<close>, \<open>executor\<close> those of \<open>Executor\<close>, \<open>tcp_server\<close>
  those of \<open>TcpServerHandler\<close>, \<open>service\<close> those of \<open>Service\<close>, and \<open>node_handle\<close> those of \<open>Node\<close>;
  loggers and, in the services, the poller are left out. An operation has the name of its
  function, with a prefix (\<open>cs_\<close>, \<open>exec_\<close>, \<open>tcp_\<close>, \<open>node_\<close>) where the bare name is taken. One turn
  of a thread's loop is \<open>cluster_handle\<close>, \<open>exec_handle\<close> and \<open>service_handle\<close>.

  Interfaces. \<open>loop_contract\<close> is the contract of a loop that keeps an invariant and may stop for
  given reasons, and \<open>message_loop\<close> that of one that does not panic; they are interpreted on the
  three loops;
  \<open>timeout_ring\<close> what a timer wheel offers its clients, interpreted on \<open>TimerWheel\<close>;
  \<open>text_codec\<close> a printer with its parser, on node ids and pids; \<open>service_contract\<close> what a service
  asks of its handler, on the TCP server handler; \<open>message_source\<close> what a handler asks of a
  serializer, on both serializers; \<open>conn_local\<close> and \<open>conn_timed\<close> what handling one connection
  leaves alone.

  Properties. Freedom from panics, each under conditions that its text names: of the executor for
  user code that keeps a contract, but for sends to a service or a cluster server whose receiver is
  gone; of the cluster server for any messages, with a live executor and peers that keep their
  names; of the TCP service for a connection handler that keeps a contract and envelopes that
  answer its connections; and of the threads of a node in every interleaving until one of them
  ends or a registered service is gone. Refinement: every turn of a node is a run of the machine of
  actors, with the events of that turn: the executor takes the oldest letter or call, once, and
  does all the jobs it leads to, a request adds exactly what it asks for, and so letters keep their
  order and only timers that were started and not cancelled fire. Exactness
  of timeouts: each slot of a timer wheel holds exactly the connections that record it. The wheel
  as a queue of sets, and that a key of a wheel of \<open>n\<close> slots expires at its \<open>n\<close>-th tick. What
  opening, establishing, choosing and closing connections, membership changes and broadcasts do,
  that the three ways to close connections agree, that two connected nodes meet, and that gossip
  over established links that do not change, from a start in agreement, comes to rest and makes the
  members of any number of connected nodes agree after any joins and leaves;
  where envelopes, replies, requests and errors go, through both threads of a node
  and from a process of one node to a process of another; that replicas of a chain stay in step
  in every interleaving, on one node and across nodes, as long as no one else sends operations to
  a replica behind the head or replaces a replica, and that a client's operation goes through the TCP server, the node and
  the chain and is answered on its connection; round trips of ids and of serialized messages.
  Without any hypothesis on the outside, the cluster server keeps the keys of its maps unique
  and its indices in range, and the TCP server handler keeps the types of its state and panics
  only at the places its theorem lists. The properties on errors name behaviour that is likely not meant: panics on some pids,
  on a peer that renames itself and during a shutdown, a recursion without end, timeouts of
  requests that are lost.

  Parameters and hypotheses. Code outside the repository is a parameter: the registrar, poller
  and framing of \<open>amy\<close>, the sockets, the \<open>rmp_serde\<close> and \<open>protobuf\<close> formats, the \<open>orset\<close> and
  \<open>ferris\<close> crates, and the user's processes and handlers. Hypotheses on them are named
  definitions: registration ids are not reused (\<open>ids_fresh\<close>, \<open>outside_ok\<close>), a peer keeps its name
  (\<open>honest_peers\<close>; the theorem \<open>renaming_peer_panics\<close> shows what happens otherwise), the envelopes
  that peers send keep the contract of user code (\<open>peers_send\<close>), the requests too (\<open>turn_ok\<close>), the
  receiver of a service is there (\<open>receiver_up\<close>, of one service where a reply to it is claimed;
  nowhere of all services), a timer wheel
  returns timers that were started (\<open>timers_ok\<close>) and none that were stopped (\<open>timers_exact\<close>; as a
  relation between the timers started and the wheel, \<open>timers_sim\<close>), a run of a node brings no
  foreign operations to a chain (\<open>quiet_steps\<close>), framing hands out frames in order
  (\<open>framing_laws\<close>), the laws of the membership set (\<open>orset_laws\<close>,
  \<open>merge_commutes\<close>), that a frame written at one end of a connection is read at the other
  (\<open>carries\<close>, \<open>delivers\<close>), that the membership set is a delta CRDT (\<open>delta_laws\<close>, \<open>delta_seen\<close>) whose
  deltas are carried by the codec and the sockets (\<open>delta_codec\<close>, \<open>transports\<close>), that closing a
  socket leaves what was written to it and the codec reads back what it wrote (\<open>wires\<close>,
  \<open>decodes_back\<close>), and the contracts of user code
  (\<open>procs_ok\<close>, \<open>handlers_ok\<close>). Each is proved of a concrete instance.

  Bounds. The calls of \<open>route\<close> nest through \<open>send_metrics\<close>; \<open>route_d\<close> bounds them by the depth of
  the stack, and a depth of two is enough for user code that keeps its contract. The loop that
  reads a socket makes one round more than there are messages on it (\<open>t_available\<close>), which each
  read decreases. Reading deltas alone goes on for at most as many turns as there are frames on the
  way times the number of links and one. A listener is the list of results its \<open>accept\<close> will return until it would
  block.

  Not modelled: logging and the \<open>Display\<close> texts of errors; chains of causes of errors; creation
  and naming of threads and the failure of \<open>poller.wait\<close>; sends of one thread that interleave
  with another thread inside the handling of one message; module declarations; the clients of the
  integration tests, which are threads over real sockets.
\<close>

end
